(* ===== verification/Prelude.thy ===== *)
theory Prelude
  imports Main "HOL-Library.Word" "HOL-Library.Monad_Syntax" "HOL-Library.Signed_Division"
begin

text \<open>
  Shared vocabulary of the development: the machine integers of the kernel's C dialect
  (\<open>source/include/type.h\<close>, 32-bit x86), its byte-addressed memory with little-endian
  loads and stores, and generic lemmas on lists and words.  A call that does not return to
  its caller (an endless loop, a wild pointer, a blocked process) is \<open>None\<close>, and the
  option monad composes such calls.
\<close>

unbundle bit_operations_syntax

named_theorems mem_simps \<open>reading memory after a write\<close>
named_theorems frame_simps \<open>what an operation leaves alone\<close>

section \<open>Machine integers\<close>

type_synonym uchar = "8 word"
type_synonym ushort = "16 word"
type_synonym uint = "32 word"
type_synonym addr = "32 word"
type_synonym mem = "addr \<Rightarrow> uchar"

text \<open>C division and remainder on \<open>int\<close> truncate towards zero.\<close>

abbreviation cdiv :: "int \<Rightarrow> int \<Rightarrow> int" where
  "cdiv a b \<equiv> a sdiv b"

abbreviation cmod :: "int \<Rightarrow> int \<Rightarrow> int" where
  "cmod a b \<equiv> a smod b"

lemma cdiv_nonneg [simp]: "0 \<le> a \<Longrightarrow> 0 \<le> b \<Longrightarrow> cdiv a b = a div b"
  by (auto simp: signed_divide_int_def sgn_if)

lemma cmod_nonneg [simp]: "0 \<le> a \<Longrightarrow> 0 \<le> b \<Longrightarrow> cmod a b = a mod b"
  by (auto simp: signed_modulo_int_def sgn_if)

text \<open>Reading back small integers.\<close>

lemma uint_of_small: "0 \<le> x \<Longrightarrow> x < 2 ^ 32 \<Longrightarrow> uint (word_of_int x :: 32 word) = x"
  by (subst uint_word_of_int) (auto intro!: mod_pos_pos_trivial)

lemma sint_of_small:
  fixes w :: uint
  assumes "uint w < 2 ^ 31"
  shows "sint w = uint w"
proof -
  have "sint w = signed_take_bit 31 (uint w)" by (simp add: sint_uint)
  also have "\<dots> = uint w"
    using assms uint_ge_0 [of w] by (intro signed_take_bit_int_eq_self) (linarith, simp)
  finally show ?thesis .
qed

lemma uint_diff_cases:
  assumes "0 \<le> k" "k < 2 ^ 32" "0 \<le> x" "x \<le> 2 ^ 32"
  shows "uint (word_of_int (k - x) :: 32 word) = (if x \<le> k then k - x else k - x + 2 ^ 32)"
proof (cases "x \<le> k")
  case True
  then show ?thesis using assms by (subst uint_word_of_int) (auto intro!: mod_pos_pos_trivial)
next
  case False
  have "(k - x) mod 2 ^ 32 = (k - x + 2 ^ 32) mod (2 ^ 32 :: int)" by simp
  also have "\<dots> = k - x + 2 ^ 32" using assms False by (intro mod_pos_pos_trivial) auto
  finally show ?thesis using False by (subst uint_word_of_int) simp
qed

section \<open>Little-endian memory\<close>

definition load16 :: "mem \<Rightarrow> addr \<Rightarrow> ushort" where
  "load16 m a = ucast (m a) OR push_bit 8 (ucast (m (a + 1)))"

definition load32 :: "mem \<Rightarrow> addr \<Rightarrow> uint" where
  "load32 m a = ucast (m a) OR push_bit 8 (ucast (m (a + 1)))
     OR push_bit 16 (ucast (m (a + 2))) OR push_bit 24 (ucast (m (a + 3)))"

definition store32 :: "mem \<Rightarrow> addr \<Rightarrow> uint \<Rightarrow> mem" where
  "store32 m a v = m(a := ucast v, a + 1 := ucast (drop_bit 8 v),
     a + 2 := ucast (drop_bit 16 v), a + 3 := ucast (drop_bit 24 v))"

text \<open>Two objects of \<open>n\<close> bytes do not overlap, on the circle of 32-bit addresses.\<close>

definition apart :: "nat \<Rightarrow> addr \<Rightarrow> addr \<Rightarrow> bool" where
  "apart n a b \<longleftrightarrow> n \<le> unat (a - b) \<and> n \<le> unat (b - a)"

lemma apart_sym: "apart n a b \<longleftrightarrow> apart n b a"
  by (auto simp: apart_def)

lemma apart_mono: "apart n a b \<Longrightarrow> k \<le> n \<Longrightarrow> apart k a b"
  by (auto simp: apart_def)

lemma word_add_of_nat_neq:
  fixes a b :: "32 word"
  assumes "apart n a b" and "i < n" and "j < n"
  shows "a + of_nat i \<noteq> b + of_nat j"
proof
  assume "a + of_nat i = b + of_nat j"
  then have d: "a - b = of_nat j - of_nat i" and e: "b - a = of_nat i - of_nat j"
    by (simp_all add: algebra_simps)
  have n: "n \<le> unat (a - b)" "n \<le> unat (b - a)"
    using assms(1) by (auto simp: apart_def)
  have small: "unat (of_nat k :: 32 word) \<le> k" for k
    by (simp add: unat_of_nat)
  show False
  proof (cases "i \<le> j")
    case True
    then have "a - b = of_nat (j - i)" using d by simp
    then have "unat (a - b) \<le> j - i" using small by metis
    then show False using n assms True by linarith
  next
    case False
    then have "b - a = of_nat (i - j)" using e by simp
    then have "unat (b - a) \<le> i - j" using small by metis
    then show False using n assms False by linarith
  qed
qed

lemma load32_store32_same [simp, mem_simps]: "load32 (store32 m a v) a = v"
proof (rule bit_word_eqI)
  fix n :: nat
  assume n: "n < LENGTH(32)"
  have ne: "a + 1 \<noteq> a" "a + 2 \<noteq> a" "a + 3 \<noteq> a" "a + 2 \<noteq> a + 1" "a + 3 \<noteq> a + 1" "a + 3 \<noteq> a + 2"
    by simp_all
  show "bit (load32 (store32 m a v) a) n = bit v n"
    using n ne [symmetric] ne
    by (cases "n < 8"; cases "n < 16"; cases "n < 24")
      (auto simp: load32_def store32_def bit_simps)
qed

lemma store32_frame:
  assumes "\<And>i. i < 4 \<Longrightarrow> b \<noteq> a + of_nat i"
  shows "store32 m a v b = m b"
  using assms [of 0] assms [of 1] assms [of 2] assms [of 3] by (auto simp: store32_def)

lemma load32_cong:
  assumes "\<And>i. i < 4 \<Longrightarrow> m (a + of_nat i) = m' (a + of_nat i)"
  shows "load32 m a = load32 m' a"
  using assms [of 0] assms [of 1] assms [of 2] assms [of 3] by (auto simp: load32_def)

lemma load32_store32_apart [simp, mem_simps]:
  assumes "apart 4 a b"
  shows "load32 (store32 m a v) b = load32 m b"
proof (rule load32_cong)
  fix i :: nat
  assume "i < 4"
  then show "store32 m a v (b + of_nat i) = m (b + of_nat i)"
    using word_add_of_nat_neq [of 4 b a i] assms
    by (intro store32_frame) (auto simp: apart_sym)
qed

text \<open>
  The contract of an addressable store: a read after a write of the same cell gives the
  value written, and cells that are apart are independent.  The page tables and the
  allocator's headers are read and written through it.
\<close>

locale cell_store =
  fixes rd :: "'m \<Rightarrow> 'a \<Rightarrow> 'v"
    and wr :: "'m \<Rightarrow> 'a \<Rightarrow> 'v \<Rightarrow> 'm"
    and indep :: "'a \<Rightarrow> 'a \<Rightarrow> bool"
  assumes rd_wr_same: "rd (wr m a v) a = v"
    and rd_wr_indep: "indep a b \<Longrightarrow> rd (wr m a v) b = rd m b"
begin

text \<open>A loop that writes one cell per element of a list, in order.\<close>

lemma rd_foldl_indep:
  "(\<And>x. x \<in> set xs \<Longrightarrow> indep (f x) b) \<Longrightarrow>
   rd (foldl (\<lambda>m x. wr m (f x) (g x)) m xs) b = rd m b"
  by (induction xs arbitrary: m) (auto simp: rd_wr_indep)

lemma rd_foldl_written:
  assumes "distinct xs" and "x \<in> set xs"
    and ind: "\<And>y. y \<in> set xs \<Longrightarrow> y \<noteq> x \<Longrightarrow> indep (f y) (f x)"
  shows "rd (foldl (\<lambda>m y. wr m (f y) (g y)) m xs) (f x) = g x"
  using assms
proof (induction xs arbitrary: m)
  case (Cons y ys)
  show ?case
  proof (cases "y = x")
    case True
    then have "rd (foldl (\<lambda>m y. wr m (f y) (g y)) (wr m (f x) (g x)) ys) (f x)
      = rd (wr m (f x) (g x)) (f x)"
      using Cons.prems by (intro rd_foldl_indep) auto
    with True show ?thesis by (simp add: rd_wr_same)
  next
    case False
    with Cons show ?thesis by auto
  qed
qed simp

end

interpretation word_store: cell_store load32 store32 "apart 4"
  by unfold_locales simp_all

section \<open>Lists\<close>

lemma remove1_middle: "q \<notin> set xs \<Longrightarrow> remove1 q (xs @ q # ys) = xs @ ys"
  by (simp add: remove1_append)

lemma map_remove1_inj: "inj f \<Longrightarrow> map f (remove1 x xs) = remove1 (f x) (map f xs)"
  by (induction xs) (auto simp: inj_def)

end
