(* ===== verification/Queue.thy ===== *)
theory Queue
  imports Prelude
begin

text \<open>
  The intrusive circular doubly linked lists of \<open>source/lib/queue.c\<close>,
  \<open>source/lib/list.c\<close> and their headers.  A node is an address of any type \<open>'n\<close>; the heap
  of links is a record of the two pointer fields, and every operation performs the pointer
  assignments of the source in the source's order.  \<open>cdl h hdr xs\<close> says that the heap holds
  the circular list with head node \<open>hdr\<close> and elements \<open>xs\<close>.
\<close>

section \<open>The link fields and the operations\<close>

record 'n links =
  nxt :: "'n \<Rightarrow> 'n"
  prv :: "'n \<Rightarrow> 'n"

definition set_nxt :: "'n \<Rightarrow> 'n \<Rightarrow> 'n links \<Rightarrow> 'n links" where
  "set_nxt p q h = h\<lparr>nxt := (nxt h)(p := q)\<rparr>"

definition set_prv :: "'n \<Rightarrow> 'n \<Rightarrow> 'n links \<Rightarrow> 'n links" where
  "set_prv p q h = h\<lparr>prv := (prv h)(p := q)\<rparr>"

definition queue_empty :: "'n links \<Rightarrow> 'n \<Rightarrow> bool" where
  "queue_empty h head \<longleftrightarrow> head = prv h head"

definition queue_init :: "'n \<Rightarrow> 'n links \<Rightarrow> 'n links" where
  "queue_init q h = set_nxt q q (set_prv q q h)"

definition queue_first :: "'n links \<Rightarrow> 'n \<Rightarrow> 'n" where
  "queue_first h head = nxt h head"

definition queue_last :: "'n links \<Rightarrow> 'n \<Rightarrow> 'n" where
  "queue_last h head = prv h head"

definition queue_insert_head :: "'n \<Rightarrow> 'n \<Rightarrow> 'n links \<Rightarrow> 'n links" where
  "queue_insert_head head q h =
     (let h = set_nxt q (nxt h head) h;
          h = set_prv q head h;
          h = set_prv (nxt h head) q h
      in set_nxt head q h)"

definition queue_insert_tail :: "'n \<Rightarrow> 'n \<Rightarrow> 'n links \<Rightarrow> 'n links" where
  "queue_insert_tail head q h =
     (let h = set_nxt q head h;
          h = set_prv q (prv h head) h;
          h = set_nxt (prv h head) q h
      in set_prv head q h)"

definition queue_remove :: "'n \<Rightarrow> 'n links \<Rightarrow> 'n links" where
  "queue_remove q h =
     (let h = set_nxt (prv h q) (nxt h q) h;
          h = set_prv (nxt h q) (prv h q) h;
          h = set_nxt q q h
      in set_prv q q h)"

text \<open>\<open>list.c\<close>: the same operations under other names, and insertion after a node.\<close>

definition list_empty :: "'n links \<Rightarrow> 'n \<Rightarrow> bool" where
  "list_empty h head \<longleftrightarrow> head = prv h head"

definition list_init :: "'n \<Rightarrow> 'n links \<Rightarrow> 'n links" where
  "list_init q h = set_nxt q q (set_prv q q h)"

definition list_insert_head :: "'n \<Rightarrow> 'n \<Rightarrow> 'n links \<Rightarrow> 'n links" where
  "list_insert_head head q h =
     (let h = set_nxt q (nxt h head) h;
          h = set_prv q head h;
          h = set_prv (nxt h head) q h
      in set_nxt head q h)"

definition list_insert_tail :: "'n \<Rightarrow> 'n \<Rightarrow> 'n links \<Rightarrow> 'n links" where
  "list_insert_tail head q h =
     (let h = set_nxt q head h;
          h = set_prv q (prv h head) h;
          h = set_nxt (prv h head) q h
      in set_prv head q h)"

definition list_insert :: "'n \<Rightarrow> 'n \<Rightarrow> 'n links \<Rightarrow> 'n links" where
  "list_insert p q h =
     (let h = set_nxt q (nxt h p) h;
          h = set_prv q p h;
          h = set_nxt p q h
      in set_prv (nxt h p) q h)"

definition list_remove :: "'n \<Rightarrow> 'n links \<Rightarrow> 'n links" where
  "list_remove q h =
     (let h = set_nxt (prv h q) (nxt h q) h;
          h = set_prv (nxt h q) (prv h q) h;
          h = set_nxt q q h
      in set_prv q q h)"

lemmas list_as_queue =
  list_empty_def queue_empty_def list_init_def queue_init_def
  list_insert_head_def queue_insert_head_def list_insert_tail_def queue_insert_tail_def
  list_remove_def queue_remove_def

lemma list_insert_head_eq: "list_insert_head = queue_insert_head"
  and list_insert_tail_eq: "list_insert_tail = queue_insert_tail"
  and list_remove_eq: "list_remove = queue_remove"
  and list_init_eq: "list_init = queue_init"
  by (intro ext, simp only: list_as_queue)+

section \<open>The heap abstraction\<close>

text \<open>\<open>dseg h a xs b\<close>: from \<open>a\<close> the links run through \<open>xs\<close> to \<open>b\<close>, in both directions.\<close>

fun dseg :: "'n links \<Rightarrow> 'n \<Rightarrow> 'n list \<Rightarrow> 'n \<Rightarrow> bool" where
  "dseg h a [] b \<longleftrightarrow> nxt h a = b \<and> prv h b = a"
| "dseg h a (x # xs) b \<longleftrightarrow> nxt h a = x \<and> prv h x = a \<and> dseg h x xs b"

definition cdl :: "'n links \<Rightarrow> 'n \<Rightarrow> 'n list \<Rightarrow> bool" where
  "cdl h hdr xs \<longleftrightarrow> distinct (hdr # xs) \<and> dseg h hdr xs hdr"

lemma dseg_append [simp]:
  "dseg h a (xs @ y # ys) b \<longleftrightarrow> dseg h a xs y \<and> dseg h y ys b"
  by (induction xs arbitrary: a) auto

lemma dseg_cong:
  assumes "dseg h a xs b"
    and "\<And>x. x \<in> insert a (set xs) \<Longrightarrow> nxt h' x = nxt h x"
    and "\<And>x. x \<in> insert b (set xs) \<Longrightarrow> prv h' x = prv h x"
  shows "dseg h' a xs b"
  using assms by (induction xs arbitrary: a) auto

lemma dseg_nxt: "dseg h a xs b \<Longrightarrow> nxt h a = hd (xs @ [b])"
  by (cases xs) auto

lemma dseg_prv: "dseg h a xs b \<Longrightarrow> prv h b = last (a # xs)"
  by (induction xs arbitrary: a) auto

lemma dseg_set_nxt [simp]:
  "x \<noteq> a \<Longrightarrow> x \<notin> set xs \<Longrightarrow> dseg (set_nxt x y h) a xs b = dseg h a xs b"
  by (induction xs arbitrary: a) (auto simp: set_nxt_def)

lemma dseg_set_prv [simp]:
  "x \<noteq> b \<Longrightarrow> x \<notin> set xs \<Longrightarrow> dseg (set_prv x y h) a xs b = dseg h a xs b"
  by (induction xs arbitrary: a) (auto simp: set_prv_def)

lemma set_nxt_sel [simp]:
  "nxt (set_nxt p q h) = (nxt h)(p := q)" "prv (set_nxt p q h) = prv h"
  "nxt (set_prv p q h) = nxt h" "prv (set_prv p q h) = (prv h)(p := q)"
  by (simp_all add: set_nxt_def set_prv_def)

lemma cdl_first: "cdl h hdr xs \<Longrightarrow> queue_first h hdr = (case xs of [] \<Rightarrow> hdr | x # _ \<Rightarrow> x)"
  by (cases xs) (auto simp: cdl_def queue_first_def)

lemma cdl_last: "cdl h hdr xs \<Longrightarrow> queue_last h hdr = last (hdr # xs)"
  using dseg_prv [of h hdr xs hdr] by (simp add: cdl_def queue_last_def)

lemma cdl_empty_iff: "cdl h hdr xs \<Longrightarrow> queue_empty h hdr \<longleftrightarrow> xs = []"
  by (auto simp: cdl_def queue_empty_def dest!: dseg_prv split: if_splits)

lemma cdl_next:
  "cdl h hdr (xs @ x # ys) \<Longrightarrow> nxt h x = (case ys of [] \<Rightarrow> hdr | y # _ \<Rightarrow> y)"
  by (cases ys) (auto simp: cdl_def)

lemma cdl_queue_init: "cdl (queue_init q h) q []"
  by (simp add: cdl_def queue_init_def)

lemma cdl_distinct: "cdl h hdr xs \<Longrightarrow> distinct xs \<and> hdr \<notin> set xs"
  by (simp add: cdl_def)

lemma cdl_cong:
  assumes "cdl h hdr xs"
    and "\<And>x. x \<in> insert hdr (set xs) \<Longrightarrow> nxt h' x = nxt h x \<and> prv h' x = prv h x"
  shows "cdl h' hdr xs"
  using assms unfolding cdl_def by (auto intro: dseg_cong)

text \<open>The elements of a circular list determine it.\<close>

lemma dseg_unique:
  "dseg h a xs b \<Longrightarrow> dseg h a ys b \<Longrightarrow> b \<notin> set xs \<Longrightarrow> b \<notin> set ys \<Longrightarrow> xs = ys"
proof (induction xs arbitrary: a ys)
  case Nil
  then show ?case by (cases ys) auto
next
  case (Cons x xs)
  then show ?case by (cases ys) auto
qed

lemma cdl_unique: "cdl h hdr xs \<Longrightarrow> cdl h hdr ys \<Longrightarrow> xs = ys"
  by (auto simp: cdl_def intro: dseg_unique)

section \<open>The operations refine list operations\<close>

lemma cdl_insert_tail:
  assumes "cdl h hdr xs" and "q \<notin> insert hdr (set xs)"
  shows "cdl (queue_insert_tail hdr q h) hdr (xs @ [q])"
proof (cases xs rule: rev_cases)
  case Nil
  with assms show ?thesis
    by (auto simp: cdl_def queue_insert_tail_def Let_def)
next
  case (snoc zs z)
  with assms show ?thesis
    by (auto simp: cdl_def queue_insert_tail_def Let_def)
qed

lemma cdl_insert_head:
  assumes "cdl h hdr xs" and "q \<notin> insert hdr (set xs)"
  shows "cdl (queue_insert_head hdr q h) hdr (q # xs)"
proof (cases xs)
  case Nil
  with assms show ?thesis
    by (auto simp: cdl_def queue_insert_head_def Let_def)
next
  case (Cons z zs)
  with assms show ?thesis
    by (auto simp: cdl_def queue_insert_head_def Let_def)
qed

lemma cdl_remove:
  assumes "cdl h hdr (xs @ q # ys)"
  shows "cdl (queue_remove q h) hdr (xs @ ys)"
proof (cases xs rule: rev_cases)
  case Nil
  with assms show ?thesis
    by (cases ys) (auto simp: cdl_def queue_remove_def Let_def)
next
  case (snoc zs z)
  with assms show ?thesis
    by (cases ys) (auto simp: cdl_def queue_remove_def Let_def)
qed

lemma queue_remove_self [simp]:
  "nxt (queue_remove q h) q = q" "prv (queue_remove q h) q = q"
  by (auto simp: queue_remove_def Let_def)

text \<open>What an operation leaves alone: every list that shares no node with it.\<close>

lemma cdl_insert_tail_frame [frame_simps]:
  assumes "cdl h hdr' ys" and "cdl h hdr xs"
    and "insert hdr (set xs) \<inter> insert hdr' (set ys) = {}" and "q \<notin> insert hdr' (set ys)"
  shows "cdl (queue_insert_tail hdr q h) hdr' ys"
proof (rule cdl_cong [OF assms(1)])
  have "prv h hdr \<in> insert hdr (set xs)"
    using cdl_last [OF assms(2)] by (auto simp: queue_last_def)
  then show "x \<in> insert hdr' (set ys) \<Longrightarrow>
      nxt (queue_insert_tail hdr q h) x = nxt h x \<and> prv (queue_insert_tail hdr q h) x = prv h x" for x
    using assms(3,4) by (auto simp: queue_insert_tail_def Let_def)
qed

lemma cdl_neighbours:
  assumes "cdl h hdr (xs @ q # ys)"
  shows "nxt h q \<in> insert hdr (set xs \<union> set ys) \<and> prv h q \<in> insert hdr (set xs \<union> set ys)"
proof -
  have "dseg h hdr xs q" "dseg h q ys hdr" using assms by (simp_all add: cdl_def)
  from dseg_prv [OF this(1)] dseg_nxt [OF this(2)] show ?thesis
    by (cases ys) (auto split: if_splits)
qed

lemma cdl_remove_frame [frame_simps]:
  assumes "cdl h hdr' ys'" and "cdl h hdr (xs @ q # ys)"
    and "insert hdr (set (xs @ q # ys)) \<inter> insert hdr' (set ys') = {}"
  shows "cdl (queue_remove q h) hdr' ys'"
proof (rule cdl_cong [OF assms(1)])
  fix x
  assume x: "x \<in> insert hdr' (set ys')"
  then have "x \<noteq> q" "x \<noteq> nxt h q" "x \<noteq> prv h q"
    using assms(3) cdl_neighbours [OF assms(2)] by auto
  then show "nxt (queue_remove q h) x = nxt h x \<and> prv (queue_remove q h) x = prv h x"
    by (simp add: queue_remove_def Let_def)
qed

section \<open>Families of queues\<close>

text \<open>
  The contract the scheduler and the semaphores rely on: a heap that holds one queue per
  anchor, an element sits in at most one of them, \<open>move\<close> takes an element out of its
  queue and appends it to another, and \<open>first\<close> reads the head.
\<close>

definition amove :: "'e \<Rightarrow> 'c \<Rightarrow> ('c \<Rightarrow> 'e list) \<Rightarrow> ('c \<Rightarrow> 'e list)" where
  "amove t c Q = (\<lambda>d. removeAll t (Q d) @ (if d = c then [t] else []))"

locale queue_family =
  fixes rep :: "'h \<Rightarrow> ('c \<Rightarrow> 'e list) \<Rightarrow> bool"
    and anchor :: "'c \<Rightarrow> bool"
    and move :: "'e \<Rightarrow> 'c \<Rightarrow> 'h \<Rightarrow> 'h"
    and first :: "'h \<Rightarrow> 'c \<Rightarrow> 'e option"
  assumes rep_distinct: "rep h Q \<Longrightarrow> anchor c \<Longrightarrow> distinct (Q c)"
    and rep_first: "rep h Q \<Longrightarrow> anchor c \<Longrightarrow>
      first h c = (case Q c of [] \<Rightarrow> None | x # _ \<Rightarrow> Some x)"
    and rep_move: "rep h Q \<Longrightarrow> anchor c \<Longrightarrow> anchor d \<Longrightarrow> t \<in> set (Q d) \<Longrightarrow>
      rep (move t c h) (amove t c Q)"
begin

text \<open>Moving the head of a queue to its tail rotates the queue.\<close>

lemma amove_head_rotates:
  assumes "rep h Q" "anchor c" "Q c = x # xs"
  shows "amove x c Q c = rotate1 (Q c)"
  using rep_distinct [OF assms(1,2)] assms(3) by (simp add: amove_def)

text \<open>After \<open>move\<close> the element is in the queue it was moved to, and nowhere else.\<close>

lemma in_one_queue:
  assumes "rep h Q" "anchor c" "anchor d" "t \<in> set (Q d)" "anchor e"
  shows "t \<in> set (amove t c Q e) \<longleftrightarrow> e = c"
  by (auto simp: amove_def)

end

section \<open>Properties\<close>

text \<open>C27: \<open>queue_insert_tail\<close> appends a fresh node to the circular list it is given, in both
  link directions, and leaves every list that shares no node with it as it was.\<close>

theorem queue_insert_tail_appends:
  assumes "cdl h c xs" and "q \<notin> insert c (set xs)"
    and "cdl h d ys" "insert c (set xs) \<inter> insert d (set ys) = {}" "q \<notin> insert d (set ys)"
  shows "cdl (queue_insert_tail c q h) c (xs @ [q]) \<and> cdl (queue_insert_tail c q h) d ys"
  using cdl_insert_tail [OF assms(1,2)] cdl_insert_tail_frame [OF assms(3,1,4,5)] by blast

definition demo_links :: "nat links" where
  "demo_links = queue_insert_tail 0 1 (queue_init 0 (queue_init 10 \<lparr>nxt = (\<lambda>x. x), prv = (\<lambda>x. x)\<rparr>))"

lemma demo_links_cdl: "cdl demo_links 0 [1]" "cdl demo_links 10 []"
  by (simp_all add: demo_links_def cdl_def queue_init_def queue_insert_tail_def Let_def)

theorem queue_insert_tail_appends_witness:
  "cdl (queue_insert_tail 0 2 demo_links) 0 ([1] @ [2]) \<and> cdl (queue_insert_tail 0 2 demo_links) 10 []"
  by (rule queue_insert_tail_appends [OF demo_links_cdl(1) _ demo_links_cdl(2)]) auto

text \<open>\<open>queue_remove\<close> takes one node out of the middle of a circular list, keeps the order
  of the others, leaves the removed node linked to itself, and does not disturb other lists.\<close>

theorem queue_remove_unlinks:
  assumes "cdl h c (xs @ q # ys)"
    and "cdl h d zs" "insert c (set (xs @ q # ys)) \<inter> insert d (set zs) = {}"
  shows "cdl (queue_remove q h) c (xs @ ys) \<and> cdl (queue_remove q h) q [] \<and>
    cdl (queue_remove q h) d zs"
  using cdl_remove [OF assms(1)] cdl_remove_frame [OF assms(2,1,3)] by (simp add: cdl_def)

theorem queue_remove_unlinks_witness:
  "cdl (queue_remove 1 demo_links) 0 ([] @ []) \<and> cdl (queue_remove 1 demo_links) 1 [] \<and>
   cdl (queue_remove 1 demo_links) 10 []"
  by (rule queue_remove_unlinks [OF _ demo_links_cdl(2)]) (use demo_links_cdl(1) in auto)

text \<open>\<open>list_insert\<close> does not insert: it overwrites \<open>p->next\<close> before it reads it, so the new
  node ends up as its own predecessor and the old successor still points back at \<open>p\<close>.\<close>

theorem list_insert_breaks_links:
  assumes "cdl h c (xs @ p # ys)" and "q \<notin> insert c (set (xs @ p # ys))"
  shows "prv (list_insert p q h) q = q \<and> prv (list_insert p q h) (nxt h p) = p \<and>
    \<not> cdl (list_insert p q h) c (xs @ p # q # ys)"
proof -
  have seg: "dseg h p ys c" using assms(1) by (simp add: cdl_def)
  then have n: "prv h (nxt h p) = p" by (cases ys) auto
  have "nxt h p \<noteq> q" "p \<noteq> q"
    using seg assms(2) by (cases ys; auto)+
  then have "prv (list_insert p q h) q = q" "prv (list_insert p q h) (nxt h p) = p"
    using n by (simp_all add: list_insert_def Let_def)
  moreover from this(1) have "\<not> cdl (list_insert p q h) c (xs @ p # q # ys)"
    using \<open>p \<noteq> q\<close> by (auto simp: cdl_def)
  ultimately show ?thesis by blast
qed

theorem list_insert_breaks_links_witness:
  "prv (list_insert 1 2 demo_links) 2 = 2 \<and> prv (list_insert 1 2 demo_links) (nxt demo_links 1) = 1 \<and>
   \<not> cdl (list_insert 1 2 demo_links) 0 ([] @ 1 # 2 # [])"
  by (rule list_insert_breaks_links) (use demo_links_cdl(1) in auto)

end
