(* ===== verification/Task.thy ===== *)
theory Task
  imports Queue
begin

text \<open>
  Processes and the scheduler: \<open>task_t\<close> (\<open>source/include/task.h\<close>), the scheduler of
  \<open>source/kernel/sched.c\<close> and the queue-handling part of \<open>source/kernel/task.c\<close>.  A process
  is the number of its \<open>task_t\<close>; the nodes of the kernel's queues are the heads and the two
  link fields embedded in each task.  Interrupts are off inside every operation
  (\<open>enter_critical\<close>), so each is one atomic step.
\<close>

section \<open>The state\<close>

datatype task_state = TASK_CREATED | TASK_RUNNING | TASK_SLEEP | TASK_WAITING | TASK_ZOMBIE

record tss_t =
  tss_pre_link :: uint
  tss_esp0 :: uint
  tss_ss0 :: uint
  tss_esp1 :: uint
  tss_ss1 :: uint
  tss_esp2 :: uint
  tss_ss2 :: uint
  tss_cr3 :: uint
  tss_eip :: uint
  tss_eflags :: uint
  tss_eax :: uint
  tss_ecx :: uint
  tss_edx :: uint
  tss_ebx :: uint
  tss_esp :: uint
  tss_ebp :: uint
  tss_esi :: uint
  tss_edi :: uint
  tss_es :: uint
  tss_cs :: uint
  tss_ss :: uint
  tss_ds :: uint
  tss_fs :: uint
  tss_gs :: uint
  tss_ldt :: uint
  tss_iomap :: uint

record task_t =
  t_state :: task_state
  t_pid :: int
  t_name :: string
  t_slice :: int
  t_cr3 :: uint
  t_sleep_ticks :: uint
  t_eip :: uint
  t_esp :: uint
  t_tss :: tss_t
  t_parent :: "nat option"
  open_file_table :: "nat option list"

text \<open>\<open>QNode t\<close> is \<open>&t->q\<close>, \<open>RqNode t\<close> is \<open>&t->rq\<close>; semaphores and mutexes are numbered.\<close>

datatype node = TaskHead | ReadyHead | SleepHead | SemHead nat | MutexHead nat | QNode nat | RqNode nat

record mutex_t =
  lock_times :: int
  owner :: "nat option"

record kernel =
  links :: "node links"
  tasks :: "nat \<Rightarrow> task_t"
  current :: "nat option"
  idle_task :: "nat option"
  sem_count :: "nat \<Rightarrow> int"
  mutexes :: "nat \<Rightarrow> mutex_t"
  cpu_cr3 :: uint
  cpu_tss :: "nat option"

definition TASK_SLICE :: int where
  "TASK_SLICE = 10"

text \<open>\<open>queue_data(q, task_t, rq)\<close>: only an \<open>rq\<close> field has a task around it.\<close>

fun rq_task :: "node \<Rightarrow> nat option" where
  "rq_task (RqNode t) = Some t"
| "rq_task _ = None"

definition upd_task :: "nat \<Rightarrow> (task_t \<Rightarrow> task_t) \<Rightarrow> 'a kernel_scheme \<Rightarrow> 'a kernel_scheme" where
  "upd_task t f s = s\<lparr>tasks := (tasks s)(t := f (tasks s t))\<rparr>"

definition upd_links :: "(node links \<Rightarrow> node links) \<Rightarrow> 'a kernel_scheme \<Rightarrow> 'a kernel_scheme" where
  "upd_links f s = s\<lparr>links := f (links s)\<rparr>"

section \<open>\<open>sched.c\<close>\<close>

definition pick_next_task :: "'a kernel_scheme \<Rightarrow> nat option" where
  "pick_next_task s = do {
     cur \<leftarrow> current s;
     let next = nxt (links s) (RqNode cur);
     let next = (if t_state (tasks s cur) \<noteq> TASK_RUNNING
                 then queue_first (links s) ReadyHead else next);
     let next = (if next = ReadyHead then nxt (links s) next else next);
     next \<leftarrow> (if next = ReadyHead then map_option RqNode (idle_task s) else Some next);
     rq_task next }"

definition switch_mm :: "nat \<Rightarrow> nat \<Rightarrow> 'a kernel_scheme \<Rightarrow> 'a kernel_scheme" where
  "switch_mm prev next s =
     (if prev \<noteq> next
      then let s = upd_task prev (\<lambda>t. t\<lparr>t_cr3 := cpu_cr3 s\<rparr>) s
           in s\<lparr>cpu_cr3 := t_cr3 (tasks s next)\<rparr>
      else s)"

definition switch_tss :: "nat \<Rightarrow> nat \<Rightarrow> 'a kernel_scheme \<Rightarrow> 'a kernel_scheme" where
  "switch_tss prev next s = (if prev \<noteq> next then s\<lparr>cpu_tss := Some next\<rparr> else s)"

definition switch_to :: "nat \<Rightarrow> nat \<Rightarrow> 'a kernel_scheme \<Rightarrow> 'a kernel_scheme" where
  "switch_to prev next s = (if prev \<noteq> next then s\<lparr>current := Some next\<rparr> else s)"

definition schedule :: "'a kernel_scheme \<Rightarrow> 'a kernel_scheme option" where
  "schedule s = do {
     next \<leftarrow> pick_next_task s;
     cur \<leftarrow> current s;
     let s = switch_tss cur next s;
     let s = switch_mm cur next s;
     Some (switch_to cur next s) }"

section \<open>\<open>task.c\<close>: time slices, sleep and wake-up\<close>

definition task_sleep :: "nat \<Rightarrow> uint \<Rightarrow> 'a kernel_scheme \<Rightarrow> 'a kernel_scheme" where
  "task_sleep t ticks s =
     (if ticks = 0 then s
      else let s = upd_task t (\<lambda>k. k\<lparr>t_sleep_ticks := ticks, t_state := TASK_SLEEP\<rparr>) s;
               s = upd_links (queue_remove (RqNode t)) s
           in upd_links (queue_insert_tail SleepHead (RqNode t)) s)"

definition task_wakeup :: "nat \<Rightarrow> 'a kernel_scheme \<Rightarrow> 'a kernel_scheme" where
  "task_wakeup t s =
     (let s = upd_links (queue_remove (RqNode t)) s;
          s = upd_links (queue_insert_tail ReadyHead (RqNode t)) s
      in upd_task t (\<lambda>k. k\<lparr>t_state := TASK_RUNNING\<rparr>) s)"

text \<open>
  The loop of \<open>task_tick\<close> over the sleep queue: \<open>next\<close> is read before the task is moved.
\<close>

partial_function (option) wake_sleepers ::
    "node \<Rightarrow> 'a kernel_scheme \<Rightarrow> 'a kernel_scheme option" where
  "wake_sleepers q s =
     (if q = SleepHead then Some s
      else let next = nxt (links s) q
           in case rq_task q of
                None \<Rightarrow> None
              | Some t \<Rightarrow>
                  (let s = upd_task t (\<lambda>k. k\<lparr>t_sleep_ticks := t_sleep_ticks k - 1\<rparr>) s;
                       s = (if t_sleep_ticks (tasks s t) = 0 then task_wakeup t s else s)
                   in wake_sleepers next s))"

declare wake_sleepers.simps [code]

definition task_tick :: "'a kernel_scheme \<Rightarrow> 'a kernel_scheme option" where
  "task_tick s = do {
     cur \<leftarrow> current s;
     let s = upd_task cur (\<lambda>k. k\<lparr>t_slice := t_slice k - 1\<rparr>) s;
     let s = (if t_slice (tasks s cur) = 0
              then let s = upd_task cur (\<lambda>k. k\<lparr>t_slice := TASK_SLICE\<rparr>) s;
                       s = upd_links (queue_remove (RqNode cur)) s
                   in upd_links (queue_insert_tail ReadyHead (RqNode cur)) s
              else s);
     s \<leftarrow> wake_sleepers (queue_first (links s) SleepHead) s;
     schedule s }"

definition task_yield :: "'a kernel_scheme \<Rightarrow> 'a kernel_scheme option" where
  "task_yield s = do {
     cur \<leftarrow> current s;
     let s = upd_links (queue_remove (RqNode cur)) s;
     let s = upd_links (queue_insert_tail ReadyHead (RqNode cur)) s;
     schedule s }"

definition sys_sleep :: "uint \<Rightarrow> 'a kernel_scheme \<Rightarrow> 'a kernel_scheme option" where
  "sys_sleep ms s = do {
     cur \<leftarrow> current s;
     schedule (task_sleep cur (ms div word_of_int TASK_SLICE) s) }"

text \<open>The process's table of open files.\<close>

definition TASK_OPEN_MAX_FILES :: nat where
  "TASK_OPEN_MAX_FILES = 128"

fun first_free_fd :: "nat \<Rightarrow> nat option list \<Rightarrow> nat option" where
  "first_free_fd i [] = None"
| "first_free_fd i (None # fs) = Some i"
| "first_free_fd i (Some f # fs) = first_free_fd (Suc i) fs"

definition task_alloc_fd :: "nat \<Rightarrow> 'a kernel_scheme \<Rightarrow> (int \<times> 'a kernel_scheme) option" where
  "task_alloc_fd file s = do {
     cur \<leftarrow> current s;
     case first_free_fd 0 (take TASK_OPEN_MAX_FILES (open_file_table (tasks s cur))) of
       Some i \<Rightarrow> Some (int i,
         upd_task cur (\<lambda>k. k\<lparr>open_file_table := (open_file_table k)[i := Some file]\<rparr>) s)
     | None \<Rightarrow> Some (-1, s) }"

definition task_free_fd :: "int \<Rightarrow> 'a kernel_scheme \<Rightarrow> 'a kernel_scheme option" where
  "task_free_fd fd s = do {
     cur \<leftarrow> current s;
     Some (if 0 \<le> fd \<and> fd < int TASK_OPEN_MAX_FILES
           then upd_task cur (\<lambda>k. k\<lparr>open_file_table := (open_file_table k)[nat fd := None]\<rparr>) s
           else s) }"

section \<open>The run queues as a family of queues\<close>

fun is_anchor :: "node \<Rightarrow> bool" where
  "is_anchor ReadyHead = True"
| "is_anchor SleepHead = True"
| "is_anchor (SemHead i) = True"
| "is_anchor (MutexHead m) = True"
| "is_anchor _ = False"

definition qrep :: "node links \<Rightarrow> (node \<Rightarrow> nat list) \<Rightarrow> bool" where
  "qrep h Q \<longleftrightarrow> (\<forall>c. is_anchor c \<longrightarrow> cdl h c (map RqNode (Q c))) \<and>
     (\<forall>c d. is_anchor c \<longrightarrow> is_anchor d \<longrightarrow> c \<noteq> d \<longrightarrow> set (Q c) \<inter> set (Q d) = {})"

definition q_move :: "nat \<Rightarrow> node \<Rightarrow> node links \<Rightarrow> node links" where
  "q_move t c h = queue_insert_tail c (RqNode t) (queue_remove (RqNode t) h)"

definition q_first :: "node links \<Rightarrow> node \<Rightarrow> nat option" where
  "q_first h c = rq_task (queue_first h c)"

lemma anchor_not_task [simp]: "is_anchor c \<Longrightarrow> RqNode t \<noteq> c" "is_anchor c \<Longrightarrow> c \<noteq> RqNode t" "is_anchor c \<Longrightarrow> c \<noteq> QNode t"
  "is_anchor c \<Longrightarrow> c \<notin> RqNode ` A" "is_anchor c \<Longrightarrow> c \<noteq> TaskHead"
  by auto

lemma rq_task_anchor [simp]: "is_anchor c \<Longrightarrow> rq_task c = None"
  by (cases c) auto

lemma qrepD:
  assumes "qrep h Q" "is_anchor c"
  shows "cdl h c (map RqNode (Q c))"
    and "is_anchor d \<Longrightarrow> c \<noteq> d \<Longrightarrow> set (Q c) \<inter> set (Q d) = {}"
    and "distinct (Q c)"
proof -
  show "cdl h c (map RqNode (Q c))" using assms by (simp add: qrep_def)
  from cdl_distinct [OF this] show "distinct (Q c)" by (simp add: distinct_map)
  show "is_anchor d \<Longrightarrow> c \<noteq> d \<Longrightarrow> set (Q c) \<inter> set (Q d) = {}"
    using assms by (simp add: qrep_def)
qed

lemma qrep_unique_anchor:
  "qrep h Q \<Longrightarrow> is_anchor c \<Longrightarrow> is_anchor d \<Longrightarrow> t \<in> set (Q c) \<Longrightarrow> t \<in> set (Q d) \<Longrightarrow> c = d"
  using qrepD(2) by fastforce

lemma qrep_remove:
  assumes q: "qrep h Q" and d: "is_anchor d" and t: "t \<in> set (Q d)"
  shows "qrep (queue_remove (RqNode t) h) (\<lambda>e. removeAll t (Q e))"
proof -
  from t obtain xs ys where Qd: "Q d = xs @ t # ys" by (auto dest: split_list)
  have dist: "distinct (Q d)" using q d by (rule qrepD)
  have cd: "cdl h d (map RqNode xs @ RqNode t # map RqNode ys)"
    using qrepD(1) [OF q d] Qd by simp
  have "cdl (queue_remove (RqNode t) h) e (map RqNode (removeAll t (Q e)))" if e: "is_anchor e" for e
  proof (cases "e = d")
    case True
    then show ?thesis using cdl_remove [OF cd] dist Qd by simp
  next
    case False
    have "t \<notin> set (Q e)" using q d e t False qrep_unique_anchor by blast
    moreover have "cdl (queue_remove (RqNode t) h) e (map RqNode (Q e))"
    proof (rule cdl_remove_frame [OF qrepD(1) [OF q e] cd])
      have "set (Q d) \<inter> set (Q e) = {}" using q d e False by (auto dest: qrepD)
      then show "insert d (set (map RqNode xs @ RqNode t # map RqNode ys))
          \<inter> insert e (set (map RqNode (Q e))) = {}"
        using e d False Qd by auto
    qed
    ultimately show ?thesis by simp
  qed
  moreover have "set (removeAll t (Q c)) \<inter> set (removeAll t (Q e)) = {}"
    if "is_anchor c" "is_anchor e" "c \<noteq> e" for c e
    using qrepD(2) [OF q that(1,2,3)] by auto
  ultimately show ?thesis by (simp add: qrep_def)
qed

lemma qrep_insert_tail:
  assumes q: "qrep h Q" and c: "is_anchor c" and t: "\<And>d. is_anchor d \<Longrightarrow> t \<notin> set (Q d)"
  shows "qrep (queue_insert_tail c (RqNode t) h) (Q(c := Q c @ [t]))"
proof -
  have cc: "cdl h c (map RqNode (Q c))" using q c by (rule qrepD)
  have "cdl (queue_insert_tail c (RqNode t) h) e (map RqNode ((Q(c := Q c @ [t])) e))"
    if e: "is_anchor e" for e
  proof (cases "e = c")
    case True
    then show ?thesis using cdl_insert_tail [OF cc, of "RqNode t"] t [OF c] c by auto
  next
    case False
    have "cdl (queue_insert_tail c (RqNode t) h) e (map RqNode (Q e))"
    proof (rule cdl_insert_tail_frame [OF qrepD(1) [OF q e] cc])
      have "set (Q c) \<inter> set (Q e) = {}" using q c e False by (auto dest: qrepD)
      then show "insert c (set (map RqNode (Q c))) \<inter> insert e (set (map RqNode (Q e))) = {}"
        using e c False by auto
      show "RqNode t \<notin> insert e (set (map RqNode (Q e)))" using t [OF e] e by auto
    qed
    with False show ?thesis by simp
  qed
  moreover have "set ((Q(c := Q c @ [t])) d) \<inter> set ((Q(c := Q c @ [t])) e) = {}"
    if "is_anchor d" "is_anchor e" "d \<noteq> e" for d e
    using qrepD(2) [OF q that(1,2,3)] t [OF that(1)] t [OF that(2)] that(3) by auto
  ultimately show ?thesis by (simp add: qrep_def)
qed

lemma qrep_move:
  assumes "qrep h Q" "is_anchor c" "is_anchor d" "t \<in> set (Q d)"
  shows "qrep (q_move t c h) (amove t c Q)"
proof -
  let ?R = "\<lambda>e. removeAll t (Q e)"
  have "qrep (q_move t c h) (?R(c := ?R c @ [t]))"
    unfolding q_move_def using assms by (intro qrep_insert_tail qrep_remove) auto
  moreover have "?R(c := ?R c @ [t]) = amove t c Q" by (auto simp: amove_def)
  ultimately show ?thesis by simp
qed

lemma qrep_first:
  assumes "qrep h Q" "is_anchor c"
  shows "q_first h c = (case Q c of [] \<Rightarrow> None | x # _ \<Rightarrow> Some x)"
  using cdl_first [OF qrepD(1) [OF assms]] assms(2)
  by (cases "Q c") (simp_all add: q_first_def)

interpretation rq: queue_family qrep is_anchor q_move q_first
  by unfold_locales (auto intro: qrepD qrep_first qrep_move)

section \<open>The scheduler against its abstract queues\<close>

text \<open>The element after \<open>x\<close> in the circular order of \<open>xs\<close>.\<close>

definition cyclic_next :: "'a list \<Rightarrow> 'a \<Rightarrow> 'a" where
  "cyclic_next xs x = (case dropWhile (\<lambda>y. y \<noteq> x) xs of _ # y # _ \<Rightarrow> y | _ \<Rightarrow> hd xs)"

lemma cyclic_next_split:
  "x \<notin> set as \<Longrightarrow> cyclic_next (as @ x # bs) x = (case bs of [] \<Rightarrow> hd (as @ [x]) | y # _ \<Rightarrow> y)"
  by (cases bs; cases as) (auto simp: cyclic_next_def dropWhile_append)

lemma cyclic_next_in: "x \<in> set xs \<Longrightarrow> cyclic_next xs x \<in> set xs"
proof -
  assume "x \<in> set xs"
  then obtain as bs where "xs = as @ x # bs" "x \<notin> set as" by (auto dest: split_list_first)
  with cyclic_next_split [of x as bs] show ?thesis by (cases bs; cases as) auto
qed

lemma cyclic_next_last: "x \<notin> set xs \<Longrightarrow> cyclic_next (xs @ [x]) x = hd (xs @ [x])"
  using cyclic_next_split [of x xs "[]"] by simp

definition next_ready :: "(nat \<Rightarrow> task_t) \<Rightarrow> (node \<Rightarrow> nat list) \<Rightarrow> nat \<Rightarrow> nat" where
  "next_ready T Q c = (if t_state (T c) = TASK_RUNNING then cyclic_next (Q ReadyHead) c
     else hd (Q ReadyHead))"

text \<open>Handing the processor from \<open>c\<close> to \<open>n\<close>.\<close>

definition dispatch :: "nat \<Rightarrow> nat \<Rightarrow> 'a kernel_scheme \<Rightarrow> 'a kernel_scheme" where
  "dispatch c n s = switch_to c n (switch_mm c n (switch_tss c n s))"

lemma dispatch_sel [simp]:
  "links (dispatch c n s) = links s" "idle_task (dispatch c n s) = idle_task s"
  "sem_count (dispatch c n s) = sem_count s" "mutexes (dispatch c n s) = mutexes s"
  "kernel.more (dispatch c n s) = kernel.more s"
  "current s = Some c \<Longrightarrow> current (dispatch c n s) = Some n"
  by (simp_all add: dispatch_def switch_to_def switch_mm_def switch_tss_def upd_task_def Let_def)

lemma dispatch_task [simp]:
  "t_state (tasks (dispatch c n s) t) = t_state (tasks s t)"
  "t_sleep_ticks (tasks (dispatch c n s) t) = t_sleep_ticks (tasks s t)"
  "t_slice (tasks (dispatch c n s) t) = t_slice (tasks s t)"
  "open_file_table (tasks (dispatch c n s) t) = open_file_table (tasks s t)"
  by (simp_all add: dispatch_def switch_to_def switch_mm_def switch_tss_def upd_task_def Let_def)

lemma dispatch_mm:
  assumes "c \<noteq> n"
  shows "cpu_cr3 (dispatch c n s) = t_cr3 (tasks s n)"
    and "t_cr3 (tasks (dispatch c n s) c) = cpu_cr3 s"
    and "cpu_tss (dispatch c n s) = Some n"
    and "t \<noteq> c \<Longrightarrow> tasks (dispatch c n s) t = tasks s t"
  using assms
  by (simp_all add: dispatch_def switch_to_def switch_mm_def switch_tss_def upd_task_def Let_def)

lemma dispatch_same: "dispatch c c s = s"
  by (simp add: dispatch_def switch_to_def switch_mm_def switch_tss_def)

lemma pick_next_ready:
  assumes q: "qrep (links s) Q" and cur: "current s = Some c" and ne: "Q ReadyHead \<noteq> []"
    and c: "t_state (tasks s c) = TASK_RUNNING \<Longrightarrow> c \<in> set (Q ReadyHead)"
  shows "pick_next_task s = Some (next_ready (tasks s) Q c)"
proof -
  have r: "cdl (links s) ReadyHead (map RqNode (Q ReadyHead))"
    using q by (rule qrepD) simp
  obtain y ys where Q: "Q ReadyHead = y # ys" using ne by (cases "Q ReadyHead") auto
  have first: "queue_first (links s) ReadyHead = RqNode y" "nxt (links s) ReadyHead = RqNode y"
    using cdl_first [OF r] Q by (simp_all add: queue_first_def)
  show ?thesis
  proof (cases "t_state (tasks s c) = TASK_RUNNING")
    case True
    then obtain as bs where s: "Q ReadyHead = as @ c # bs" "c \<notin> set as"
      using c by (auto dest: split_list_first)
    have n: "nxt (links s) (RqNode c) = (case bs of [] \<Rightarrow> ReadyHead | b # _ \<Rightarrow> RqNode b)"
      using cdl_next [of "links s" ReadyHead "map RqNode as" "RqNode c" "map RqNode bs"] r s
      by (cases bs) auto
    have "hd (as @ [c]) = y" using s Q by (cases as) auto
    with True n first cur s show ?thesis
      by (cases bs) (simp_all add: pick_next_task_def next_ready_def cyclic_next_split Let_def)
  next
    case False
    with first cur Q show ?thesis by (simp add: pick_next_task_def next_ready_def Let_def)
  qed
qed

lemma schedule_dispatch:
  assumes "qrep (links s) Q" "current s = Some c" "Q ReadyHead \<noteq> []"
    and "t_state (tasks s c) = TASK_RUNNING \<Longrightarrow> c \<in> set (Q ReadyHead)"
  shows "schedule s = Some (dispatch c (next_ready (tasks s) Q c) s)"
  using pick_next_ready [OF assms] assms(2)
  by (simp add: schedule_def dispatch_def Let_def)

section \<open>The scheduling invariant\<close>

text \<open>The state a process has in each queue.\<close>

fun anchor_state :: "node \<Rightarrow> task_state" where
  "anchor_state ReadyHead = TASK_RUNNING"
| "anchor_state SleepHead = TASK_SLEEP"
| "anchor_state _ = TASK_WAITING"

definition states_ok :: "(nat \<Rightarrow> task_t) \<Rightarrow> (node \<Rightarrow> nat list) \<Rightarrow> bool" where
  "states_ok T Q \<longleftrightarrow> (\<forall>c. is_anchor c \<longrightarrow> (\<forall>t \<in> set (Q c).
     t_state (T t) = anchor_state c \<and> (c = SleepHead \<longrightarrow> t_sleep_ticks (T t) \<noteq> 0)))"

definition sched_ok :: "'a kernel_scheme \<Rightarrow> (node \<Rightarrow> nat list) \<Rightarrow> bool" where
  "sched_ok s Q \<longleftrightarrow> qrep (links s) Q \<and> states_ok (tasks s) Q \<and>
     (\<exists>c \<in> set (Q ReadyHead). current s = Some c) \<and>
     (\<exists>i \<in> set (Q ReadyHead). idle_task s = Some i)"

text \<open>All processes in the queues.\<close>

definition pool :: "(node \<Rightarrow> nat list) \<Rightarrow> nat set" where
  "pool Q = (\<Union>c \<in> {c. is_anchor c}. set (Q c))"

lemma pool_amove: "is_anchor c \<Longrightarrow> t \<in> pool Q \<Longrightarrow> pool (amove t c Q) = pool Q"
  by (auto simp: pool_def amove_def split: if_splits)

lemma in_poolI: "is_anchor c \<Longrightarrow> t \<in> set (Q c) \<Longrightarrow> t \<in> pool Q"
  by (auto simp: pool_def)

lemma amove_sel:
  "amove t c Q c = removeAll t (Q c) @ [t]"
  "d \<noteq> c \<Longrightarrow> amove t c Q d = removeAll t (Q d)"
  by (simp_all add: amove_def)

lemma states_ok_cong:
  assumes "states_ok T Q"
    and "\<And>t. t_state (T' t) = t_state (T t) \<and> t_sleep_ticks (T' t) = t_sleep_ticks (T t)"
  shows "states_ok T' Q"
  using assms by (simp add: states_ok_def)

lemma states_ok_move:
  assumes "states_ok T Q" "is_anchor c"
    and "\<And>u. u \<noteq> t \<Longrightarrow> t_state (T' u) = t_state (T u) \<and> t_sleep_ticks (T' u) = t_sleep_ticks (T u)"
    and "t_state (T' t) = anchor_state c" "c = SleepHead \<Longrightarrow> t_sleep_ticks (T' t) \<noteq> 0"
  shows "states_ok T' (amove t c Q)"
  unfolding states_ok_def
proof (intro allI impI ballI)
  fix d u
  assume "is_anchor d" "u \<in> set (amove t c Q d)"
  with assms show "t_state (T' u) = anchor_state d \<and> (d = SleepHead \<longrightarrow> t_sleep_ticks (T' u) \<noteq> 0)"
    by (cases "u = t") (auto simp: states_ok_def amove_def split: if_splits)
qed

lemma states_ok_running: "states_ok T Q \<Longrightarrow> t \<in> set (Q ReadyHead) \<Longrightarrow> t_state (T t) = TASK_RUNNING"
  unfolding states_ok_def by (drule spec [of _ ReadyHead]) simp

text \<open>The abstract step shared by every operation that moves one process and reschedules.\<close>

lemma move_and_schedule:
  assumes ok: "sched_ok s Q" and c: "is_anchor c" and t: "t \<in> pool Q"
    and links: "links s' = q_move t c (links s)"
    and other: "\<And>u. u \<noteq> t \<Longrightarrow> t_state (tasks s' u) = t_state (tasks s u) \<and>
      t_sleep_ticks (tasks s' u) = t_sleep_ticks (tasks s u)"
    and target: "t_state (tasks s' t) = anchor_state c"
      "c = SleepHead \<Longrightarrow> t_sleep_ticks (tasks s' t) \<noteq> 0"
    and same: "current s' = current s" "idle_task s' = idle_task s"
    and idle: "c \<noteq> ReadyHead \<Longrightarrow> idle_task s \<noteq> Some t"
  shows "\<exists>n cur. current s = Some cur \<and> n = next_ready (tasks s') (amove t c Q) cur \<and>
    schedule s' = Some (dispatch cur n s') \<and> sched_ok (dispatch cur n s') (amove t c Q)"
proof -
  let ?Q = "amove t c Q"
  from ok obtain cur i where cur: "current s = Some cur" "cur \<in> set (Q ReadyHead)"
    and i: "idle_task s = Some i" "i \<in> set (Q ReadyHead)"
    and q: "qrep (links s) Q" and st: "states_ok (tasks s) Q"
    by (auto simp: sched_ok_def)
  obtain d where d: "is_anchor d" "t \<in> set (Q d)" using t by (auto simp: pool_def)
  have q': "qrep (links s') ?Q" unfolding links using q c d by (rule qrep_move)
  have st': "states_ok (tasks s') ?Q" using st c other target by (rule states_ok_move)
  have i': "i \<in> set (?Q ReadyHead)" using i idle by (auto simp: amove_def)
  have run: "cur \<in> set (?Q ReadyHead)" if "t_state (tasks s' cur) = TASK_RUNNING"
  proof (cases "cur = t \<and> c \<noteq> ReadyHead")
    case True
    with target(1) that c show ?thesis by (cases c) auto
  next
    case False
    with cur show ?thesis by (auto simp: amove_def)
  qed
  let ?n = "next_ready (tasks s') ?Q cur"
  have "schedule s' = Some (dispatch cur ?n s')"
    using q' cur same i' run by (intro schedule_dispatch) auto
  moreover have "?n \<in> set (?Q ReadyHead)"
    using run i' by (auto simp: next_ready_def intro!: cyclic_next_in hd_in_set)
  then have "sched_ok (dispatch cur ?n s') ?Q"
    using q' st' i i' cur same by (auto simp: sched_ok_def intro: states_ok_cong)
  ultimately show ?thesis using cur by blast
qed

text \<open>The wake-up loop: every sleeper loses a tick, those at their last one become ready.\<close>

definition tick_task :: "task_t \<Rightarrow> task_t" where
  "tick_task k = (let k = k\<lparr>t_sleep_ticks := t_sleep_ticks k - 1\<rparr>
     in if t_sleep_ticks k = 0 then k\<lparr>t_state := TASK_RUNNING\<rparr> else k)"

lemma tick_task_sel:
  "t_sleep_ticks (tick_task k) = t_sleep_ticks k - 1"
  "t_state (tick_task k) = (if t_sleep_ticks k = 1 then TASK_RUNNING else t_state k)"
  "t_slice (tick_task k) = t_slice k" "t_cr3 (tick_task k) = t_cr3 k"
  by (auto simp: tick_task_def Let_def)

lemma task_wakeup_sel:
  "links (task_wakeup t s) = q_move t ReadyHead (links s)"
  "tasks (task_wakeup t s) = (tasks s)(t := (tasks s t)\<lparr>t_state := TASK_RUNNING\<rparr>)"
  "current (task_wakeup t s) = current s" "idle_task (task_wakeup t s) = idle_task s"
  "sem_count (task_wakeup t s) = sem_count s" "mutexes (task_wakeup t s) = mutexes s"
  by (simp_all add: task_wakeup_def upd_links_def upd_task_def q_move_def Let_def)

lemma qrep_cong: "(\<And>c. is_anchor c \<Longrightarrow> Q c = Q' c) \<Longrightarrow> qrep h Q \<longleftrightarrow> qrep h Q'"
  by (simp add: qrep_def)

lemma wake_sleepers_spec:
  assumes "qrep (links s) Q" and "Q SleepHead = xs @ ys"
    and "q = (case ys of [] \<Rightarrow> SleepHead | y # _ \<Rightarrow> RqNode y)"
  shows "\<exists>s'. wake_sleepers q s = Some s' \<and>
    (let up = filter (\<lambda>t. t_sleep_ticks (tasks s t) = 1) ys;
         rest = filter (\<lambda>t. t_sleep_ticks (tasks s t) \<noteq> 1) ys
     in qrep (links s') (Q(SleepHead := xs @ rest, ReadyHead := Q ReadyHead @ up))) \<and>
    (\<forall>t. tasks s' t = (if t \<in> set ys then tick_task (tasks s t) else tasks s t)) \<and>
    current s' = current s \<and> idle_task s' = idle_task s \<and>
    sem_count s' = sem_count s \<and> mutexes s' = mutexes s"
  using assms
proof (induction ys arbitrary: q s Q xs)
  case Nil
  then show ?case by (auto simp: wake_sleepers.simps elim: qrep_cong [THEN iffD1, rotated])
next
  case (Cons y ys)
  let ?s1 = "upd_task y (\<lambda>k. k\<lparr>t_sleep_ticks := t_sleep_ticks k - 1\<rparr>) s"
  let ?up = "t_sleep_ticks (tasks s y) = 1"
  let ?s2 = "if ?up then task_wakeup y ?s1 else ?s1"
  let ?next = "case ys of [] \<Rightarrow> SleepHead | z # _ \<Rightarrow> RqNode z"
  have dist: "distinct (xs @ y # ys)"
    using qrepD(3) [OF Cons.prems(1), of SleepHead] Cons.prems(2) by simp
  have "cdl (links s) SleepHead (map RqNode xs @ RqNode y # map RqNode ys)"
    using qrepD(1) [OF Cons.prems(1), of SleepHead] Cons.prems(2) by simp
  then have nxt: "nxt (links s) q = ?next"
    using cdl_next Cons.prems(3) by (cases ys) fastforce+
  have step: "wake_sleepers q s = wake_sleepers ?next ?s2"
    using nxt Cons.prems(3) by (subst wake_sleepers.simps) (simp add: upd_task_def Let_def)
  let ?Q2 = "if ?up then amove y ReadyHead Q else Q"
  let ?xs2 = "if ?up then xs else xs @ [y]"
  have q2: "qrep (links ?s2) ?Q2"
    using Cons.prems qrep_move [OF Cons.prems(1), of ReadyHead SleepHead y]
    by (simp add: task_wakeup_sel upd_task_def)
  have notin: "y \<notin> set (Q d)" if "is_anchor d" "d \<noteq> SleepHead" for d
    using qrep_unique_anchor [OF Cons.prems(1), of SleepHead d y] Cons.prems(2) that by auto
  have Q2: "?Q2 SleepHead = ?xs2 @ ys" "?Q2 ReadyHead = Q ReadyHead @ (if ?up then [y] else [])"
    using Cons.prems(2) dist notin [of ReadyHead] by (auto simp: amove_def)
  have keep: "t \<noteq> y \<Longrightarrow> tasks ?s2 t = tasks s t" for t
    by (simp add: task_wakeup_sel upd_task_def)
  have eq: "tasks ?s2 t = tasks s t" if "t \<in> set ys" for t
    by (rule keep) (use that dist in auto)
  have same:
    "filter (\<lambda>t. t_sleep_ticks (tasks ?s2 t) \<noteq> 1) ys = filter (\<lambda>t. t_sleep_ticks (tasks s t) \<noteq> 1) ys"
    "filter (\<lambda>t. t_sleep_ticks (tasks ?s2 t) = 1) ys = filter (\<lambda>t. t_sleep_ticks (tasks s t) = 1) ys"
    by (rule filter_cong [OF refl], simp only: eq)+
  have y: "tasks ?s2 y = tick_task (tasks s y)"
    by (simp add: task_wakeup_sel upd_task_def tick_task_def Let_def)
  obtain s' where s': "wake_sleepers ?next ?s2 = Some s'"
    "qrep (links s') (?Q2(SleepHead := ?xs2 @ filter (\<lambda>t. t_sleep_ticks (tasks ?s2 t) \<noteq> 1) ys,
       ReadyHead := ?Q2 ReadyHead @ filter (\<lambda>t. t_sleep_ticks (tasks ?s2 t) = 1) ys))"
    "\<forall>t. tasks s' t = (if t \<in> set ys then tick_task (tasks ?s2 t) else tasks ?s2 t)"
    "current s' = current ?s2" "idle_task s' = idle_task ?s2"
    "sem_count s' = sem_count ?s2" "mutexes s' = mutexes ?s2"
    using Cons.IH [OF q2 Q2(1) refl] unfolding Let_def by blast
  have other: "?Q2 d = Q d" if "is_anchor d" "d \<noteq> SleepHead" "d \<noteq> ReadyHead" for d
    using that notin [of d] by (simp add: amove_def)
  let ?rest = "\<lambda>zs. filter (\<lambda>t. t_sleep_ticks (tasks s t) \<noteq> 1) zs"
  let ?ups = "\<lambda>zs. filter (\<lambda>t. t_sleep_ticks (tasks s t) = 1) zs"
  have "qrep (links s') (Q(SleepHead := xs @ ?rest (y # ys), ReadyHead := Q ReadyHead @ ?ups (y # ys)))"
    using s'(2) unfolding same
    by (rule qrep_cong [THEN iffD1, rotated]) (use other Q2(2) in auto)
  moreover have "tasks s' t = (if t \<in> set (y # ys) then tick_task (tasks s t) else tasks s t)" for t
  proof (cases "t = y")
    case True
    with s'(3) y dist show ?thesis by simp
  next
    case False
    with s'(3) keep [OF False] show ?thesis by simp
  qed
  ultimately show ?case
    unfolding step Let_def using s' by (auto simp: task_wakeup_sel upd_task_def)
qed

lemma sched_okD:
  assumes "sched_ok s Q"
  obtains c i where "current s = Some c" "c \<in> set (Q ReadyHead)" "idle_task s = Some i"
    "i \<in> set (Q ReadyHead)" "qrep (links s) Q" "states_ok (tasks s) Q"
  using assms by (auto simp: sched_ok_def)

lemma schedule_ok:
  assumes ok: "sched_ok s Q" and cur: "current s = Some c"
  shows "schedule s = Some (dispatch c (cyclic_next (Q ReadyHead) c) s)"
    and "sched_ok (dispatch c (cyclic_next (Q ReadyHead) c) s) Q"
proof -
  from ok cur obtain i where c: "c \<in> set (Q ReadyHead)" and i: "idle_task s = Some i"
    "i \<in> set (Q ReadyHead)" and q: "qrep (links s) Q" and st: "states_ok (tasks s) Q"
    by (auto elim: sched_okD)
  have n: "next_ready (tasks s) Q c = cyclic_next (Q ReadyHead) c"
    using states_ok_running [OF st c] by (simp add: next_ready_def)
  show "schedule s = Some (dispatch c (cyclic_next (Q ReadyHead) c) s)"
    using schedule_dispatch [OF q cur] c n by fastforce
  show "sched_ok (dispatch c (cyclic_next (Q ReadyHead) c) s) Q"
    using cyclic_next_in [OF c] q st i cur by (auto simp: sched_ok_def intro: states_ok_cong)
qed

text \<open>The queues after a timer tick: the running process goes to the tail when its slice is
  used up, and the sleepers at their last tick join the ready queue.\<close>

definition tick_queues :: "(nat \<Rightarrow> task_t) \<Rightarrow> nat \<Rightarrow> (node \<Rightarrow> nat list) \<Rightarrow> (node \<Rightarrow> nat list)" where
  "tick_queues T c Q =
     (let Q = (if t_slice (T c) = 1 then amove c ReadyHead Q else Q)
      in Q(SleepHead := filter (\<lambda>t. t_sleep_ticks (T t) \<noteq> 1) (Q SleepHead),
           ReadyHead := Q ReadyHead @ filter (\<lambda>t. t_sleep_ticks (T t) = 1) (Q SleepHead)))"

lemma tick_queues_sleep:
  assumes "qrep h Q" "c \<in> set (Q ReadyHead)"
  shows "tick_queues T c Q SleepHead = filter (\<lambda>t. t_sleep_ticks (T t) \<noteq> 1) (Q SleepHead)"
    and "set (tick_queues T c Q ReadyHead)
      = set (Q ReadyHead) \<union> {t \<in> set (Q SleepHead). t_sleep_ticks (T t) = 1}"
    and "is_anchor d \<Longrightarrow> d \<noteq> ReadyHead \<Longrightarrow> d \<noteq> SleepHead \<Longrightarrow> tick_queues T c Q d = Q d"
    and "pool (tick_queues T c Q) = pool Q"
proof -
  have "c \<notin> set (Q d)" if "is_anchor d" "d \<noteq> ReadyHead" for d
    using qrep_unique_anchor [OF assms(1), of ReadyHead d c] assms(2) that by auto
  then have c: "removeAll c (Q d) = Q d" if "is_anchor d" "d \<noteq> ReadyHead" for d
    using that by simp
  show 1: "tick_queues T c Q SleepHead = filter (\<lambda>t. t_sleep_ticks (T t) \<noteq> 1) (Q SleepHead)"
    using c [of SleepHead] by (simp add: tick_queues_def Let_def amove_def)
  show 2: "set (tick_queues T c Q ReadyHead)
      = set (Q ReadyHead) \<union> {t \<in> set (Q SleepHead). t_sleep_ticks (T t) = 1}"
    using c [of SleepHead] assms(2) by (auto simp: tick_queues_def Let_def amove_def)
  show 3: "tick_queues T c Q d = Q d" if "is_anchor d" "d \<noteq> ReadyHead" "d \<noteq> SleepHead" for d
    using c [OF that(1,2)] that by (simp add: tick_queues_def Let_def amove_def)
  have "t \<in> pool (tick_queues T c Q) \<longleftrightarrow> t \<in> pool Q" for t
  proof -
    have "(\<exists>d. is_anchor d \<and> t \<in> set (R d)) \<longleftrightarrow> t \<in> set (R ReadyHead) \<or> t \<in> set (R SleepHead)
      \<or> (\<exists>d. is_anchor d \<and> d \<noteq> ReadyHead \<and> d \<noteq> SleepHead \<and> t \<in> set (R d))" for R :: "node \<Rightarrow> nat list"
      by (metis is_anchor.simps(1,2))
    then show ?thesis using 1 2 3 by (auto simp: pool_def)
  qed
  then show "pool (tick_queues T c Q) = pool Q" by blast
qed

lemma task_tick_spec:
  assumes ok: "sched_ok s Q" and cur: "current s = Some c"
  defines "Q' \<equiv> tick_queues (tasks s) c Q"
  shows "\<exists>s'. task_tick s = Some s' \<and> sched_ok s' Q' \<and>
    current s' = Some (cyclic_next (Q' ReadyHead) c) \<and>
    (\<forall>t. t_sleep_ticks (tasks s' t) = (if t \<in> set (Q SleepHead) then t_sleep_ticks (tasks s t) - 1
       else t_sleep_ticks (tasks s t))) \<and>
    idle_task s' = idle_task s \<and> sem_count s' = sem_count s \<and> mutexes s' = mutexes s"
proof -
  from ok cur obtain i where c: "c \<in> set (Q ReadyHead)" and i: "idle_task s = Some i"
    "i \<in> set (Q ReadyHead)" and q: "qrep (links s) Q" and st: "states_ok (tasks s) Q"
    by (auto elim: sched_okD)
  let ?exp = "t_slice (tasks s c) = 1"
  define s1 where "s1 = (if ?exp
    then upd_links (q_move c ReadyHead) (upd_task c (\<lambda>k. k\<lparr>t_slice := TASK_SLICE\<rparr>) s)
    else upd_task c (\<lambda>k. k\<lparr>t_slice := t_slice k - 1\<rparr>) s)"
  define Q1 where "Q1 = (if ?exp then amove c ReadyHead Q else Q)"
  have q1: "qrep (links s1) Q1"
    using q qrep_move [OF q, of ReadyHead ReadyHead c] c
    by (simp add: s1_def Q1_def upd_links_def upd_task_def)
  have tasks1: "t_sleep_ticks (tasks s1 t) = t_sleep_ticks (tasks s t)"
    "t_state (tasks s1 t) = t_state (tasks s t)" for t
    by (simp_all add: s1_def upd_links_def upd_task_def)
  have same1: "current s1 = current s" "idle_task s1 = idle_task s" "sem_count s1 = sem_count s"
    "mutexes s1 = mutexes s"
    by (simp_all add: s1_def upd_links_def upd_task_def)
  have sleep1: "Q1 SleepHead = Q SleepHead"
  proof -
    have "c \<notin> set (Q SleepHead)" using qrep_unique_anchor [OF q, of ReadyHead SleepHead c] c by auto
    then show ?thesis by (simp add: Q1_def amove_def)
  qed
  have first: "queue_first (links s1) SleepHead
      = (case Q1 SleepHead of [] \<Rightarrow> SleepHead | y # _ \<Rightarrow> RqNode y)"
    using cdl_first [OF qrepD(1) [OF q1, of SleepHead]] by (cases "Q1 SleepHead") auto
  obtain s2 where s2: "wake_sleepers (queue_first (links s1) SleepHead) s1 = Some s2"
    and q2: "qrep (links s2) (Q1(SleepHead := filter (\<lambda>t. t_sleep_ticks (tasks s1 t) \<noteq> 1) (Q1 SleepHead),
       ReadyHead := Q1 ReadyHead @ filter (\<lambda>t. t_sleep_ticks (tasks s1 t) = 1) (Q1 SleepHead)))"
    and tasks2: "\<forall>t. tasks s2 t = (if t \<in> set (Q1 SleepHead) then tick_task (tasks s1 t) else tasks s1 t)"
    and same2: "current s2 = current s1" "idle_task s2 = idle_task s1"
      "sem_count s2 = sem_count s1" "mutexes s2 = mutexes s1"
    using wake_sleepers_spec [OF q1 _ first, of "[]"] by (auto simp: Let_def)
  have Q': "Q' = Q1(SleepHead := filter (\<lambda>t. t_sleep_ticks (tasks s1 t) \<noteq> 1) (Q1 SleepHead),
       ReadyHead := Q1 ReadyHead @ filter (\<lambda>t. t_sleep_ticks (tasks s1 t) = 1) (Q1 SleepHead))"
    by (simp add: Q'_def tick_queues_def Q1_def [symmetric] tasks1 Let_def)
  have st2: "states_ok (tasks s2) Q'"
    unfolding states_ok_def
  proof (intro allI impI ballI)
    fix d t
    assume d: "is_anchor d" and t: "t \<in> set (Q' d)"
    have old: "t_state (tasks s t) = anchor_state e \<and> (e = SleepHead \<longrightarrow> t_sleep_ticks (tasks s t) \<noteq> 0)"
      if "is_anchor e" "t \<in> set (Q e)" for e
      using st that unfolding states_ok_def by blast
    have one: "t \<notin> set (Q SleepHead)" if "is_anchor e" "e \<noteq> SleepHead" "t \<in> set (Q e)" for e
      using qrep_unique_anchor [OF q, of SleepHead e t] that by auto
    consider "d = SleepHead" | "d = ReadyHead" | "d \<noteq> SleepHead" "d \<noteq> ReadyHead" by blast
    then show "t_state (tasks s2 t) = anchor_state d \<and> (d = SleepHead \<longrightarrow> t_sleep_ticks (tasks s2 t) \<noteq> 0)"
    proof cases
      case 1
      then have "t \<in> set (Q SleepHead)" "t_sleep_ticks (tasks s t) \<noteq> 1"
        using t tick_queues_sleep(1) [OF q c, of "tasks s"] by (auto simp: Q'_def)
      then show ?thesis
        using 1 old [of SleepHead] tasks2 tasks1 by (simp add: sleep1 tick_task_sel)
    next
      case 2
      then have "t \<in> set (Q ReadyHead) \<or> t \<in> set (Q SleepHead) \<and> t_sleep_ticks (tasks s t) = 1"
        using t tick_queues_sleep(2) [OF q c, of "tasks s"] by (auto simp: Q'_def)
      then show ?thesis
        using 2 old [of ReadyHead] one [of ReadyHead] tasks2 tasks1 by (auto simp: sleep1 tick_task_sel)
    next
      case 3
      then have "t \<in> set (Q d)"
        using t tick_queues_sleep(3) [OF q c d, of "tasks s"] by (auto simp: Q'_def)
      then show ?thesis
        using 3 d old [of d] one [of d] tasks2 tasks1 by (simp add: sleep1)
    qed
  qed
  have ok2: "sched_ok s2 Q'"
    using q2 st2 same1 same2 cur i c tick_queues_sleep(2) [OF q c, of "tasks s"]
    unfolding sched_ok_def Q' [symmetric] by (auto simp: Q'_def)
  have "task_tick s = schedule s2"
    using s2 cur by (simp add: task_tick_def s1_def upd_task_def upd_links_def q_move_def Let_def
      split: if_splits)
  then show ?thesis
    using schedule_ok [OF ok2, of c] same1 same2 cur tasks1 tasks2 sleep1
    by (auto simp: tick_task_sel)
qed

lemma q_move_links: "upd_links (queue_insert_tail c (RqNode t)) (upd_links (queue_remove (RqNode t)) s)
    = upd_links (q_move t c) s"
  by (simp add: upd_links_def q_move_def)

lemma upd_links_sel [simp]:
  "links (upd_links f s) = f (links s)" "tasks (upd_links f s) = tasks s"
  "current (upd_links f s) = current s" "idle_task (upd_links f s) = idle_task s"
  "sem_count (upd_links f s) = sem_count s" "mutexes (upd_links f s) = mutexes s"
  by (simp_all add: upd_links_def)

lemma upd_task_sel [simp]:
  "links (upd_task t f s) = links s" "tasks (upd_task t f s) = (tasks s)(t := f (tasks s t))"
  "current (upd_task t f s) = current s" "idle_task (upd_task t f s) = idle_task s"
  "sem_count (upd_task t f s) = sem_count s" "mutexes (upd_task t f s) = mutexes s"
  by (simp_all add: upd_task_def)

lemma task_yield_spec:
  assumes ok: "sched_ok s Q" and cur: "current s = Some c"
  shows "\<exists>s'. task_yield s = Some s' \<and> sched_ok s' (amove c ReadyHead Q) \<and>
    current s' = Some (hd (amove c ReadyHead Q ReadyHead)) \<and>
    idle_task s' = idle_task s \<and> sem_count s' = sem_count s \<and> mutexes s' = mutexes s"
proof -
  let ?s = "upd_links (q_move c ReadyHead) s"
  from ok cur have c: "c \<in> set (Q ReadyHead)" and st: "states_ok (tasks s) Q"
    by (auto elim: sched_okD)
  have "\<exists>n cur. current s = Some cur \<and> n = next_ready (tasks ?s) (amove c ReadyHead Q) cur \<and>
    schedule ?s = Some (dispatch cur n ?s) \<and> sched_ok (dispatch cur n ?s) (amove c ReadyHead Q)"
    using ok c states_ok_running [OF st c]
    by (intro move_and_schedule) (auto intro: in_poolI [of ReadyHead])
  moreover have "next_ready (tasks ?s) (amove c ReadyHead Q) c = hd (amove c ReadyHead Q ReadyHead)"
    using states_ok_running [OF st c] by (simp add: next_ready_def amove_sel cyclic_next_last)
  moreover have "task_yield s = schedule ?s"
    using cur by (simp add: task_yield_def q_move_links)
  ultimately show ?thesis using cur by auto
qed

lemma sys_sleep_spec:
  assumes ok: "sched_ok s Q" and cur: "current s = Some c" and idle: "idle_task s \<noteq> Some c"
    and ms: "10 \<le> unat ms"
  shows "\<exists>s'. sys_sleep ms s = Some s' \<and> sched_ok s' (amove c SleepHead Q) \<and>
    current s' = Some (hd (removeAll c (Q ReadyHead))) \<and>
    t_sleep_ticks (tasks s' c) = ms div 10 \<and>
    idle_task s' = idle_task s \<and> sem_count s' = sem_count s \<and> mutexes s' = mutexes s"
proof -
  have "unat (ms div 10) = unat ms div 10" by (simp add: unat_div)
  then have "unat (ms div 10) \<noteq> 0" using ms by simp
  then have k: "ms div 10 \<noteq> 0" by fastforce
  let ?s = "upd_links (q_move c SleepHead)
    (upd_task c (\<lambda>k. k\<lparr>t_sleep_ticks := ms div 10, t_state := TASK_SLEEP\<rparr>) s)"
  from ok cur have c: "c \<in> set (Q ReadyHead)" by (auto elim: sched_okD)
  have "\<exists>n cur. current s = Some cur \<and> n = next_ready (tasks ?s) (amove c SleepHead Q) cur \<and>
    schedule ?s = Some (dispatch cur n ?s) \<and> sched_ok (dispatch cur n ?s) (amove c SleepHead Q)"
    using ok c k idle by (intro move_and_schedule) (auto intro: in_poolI [of ReadyHead])
  moreover have "next_ready (tasks ?s) (amove c SleepHead Q) c = hd (removeAll c (Q ReadyHead))"
    by (simp add: next_ready_def amove_sel)
  moreover have "sys_sleep ms s = schedule ?s"
    using cur k by (simp add: sys_sleep_def task_sleep_def q_move_links TASK_SLICE_def Let_def)
  ultimately show ?thesis using cur by auto
qed

lemma sys_sleep_short:
  assumes "unat ms < 10" "current s = Some c"
  shows "sys_sleep ms s = schedule s"
proof -
  have "ms div 10 = 0" using assms(1) by (simp add: word_arith_nat_div div_less)
  then show ?thesis using assms(2) by (simp add: sys_sleep_def task_sleep_def TASK_SLICE_def)
qed

section \<open>Runs: round robin and sleeping\<close>

primrec yields :: "nat \<Rightarrow> 'a kernel_scheme \<Rightarrow> 'a kernel_scheme option" where
  "yields 0 s = Some s"
| "yields (Suc k) s = Option.bind (yields k s) task_yield"

primrec ticks :: "nat \<Rightarrow> 'a kernel_scheme \<Rightarrow> 'a kernel_scheme option" where
  "ticks 0 s = Some s"
| "ticks (Suc k) s = Option.bind (ticks k s) task_tick"

lemma yields_rotate:
  assumes "sched_ok s Q" "current s = Some (hd (Q ReadyHead))"
  shows "\<exists>s' Q'. yields k s = Some s' \<and> sched_ok s' Q' \<and>
    Q' ReadyHead = rotate k (Q ReadyHead) \<and> current s' = Some (hd (Q' ReadyHead))"
proof (induction k)
  case 0
  then show ?case using assms by auto
next
  case (Suc k)
  then obtain s' Q' where s': "yields k s = Some s'" "sched_ok s' Q'"
    "Q' ReadyHead = rotate k (Q ReadyHead)" "current s' = Some (hd (Q' ReadyHead))" by blast
  from s'(2) obtain c where "c \<in> set (Q' ReadyHead)" and q: "qrep (links s') Q'"
    by (auto elim: sched_okD)
  then obtain y ys where Q': "Q' ReadyHead = y # ys" by (cases "Q' ReadyHead") auto
  have "amove y ReadyHead Q' ReadyHead = rotate1 (Q' ReadyHead)"
    using q Q' by (intro rq.amove_head_rotates) auto
  moreover from task_yield_spec [OF s'(2,4)] Q' obtain s'' where
    "task_yield s' = Some s''" "sched_ok s'' (amove y ReadyHead Q')"
    "current s'' = Some (hd (amove y ReadyHead Q' ReadyHead))" by auto
  ultimately show ?case using s' by auto
qed

lemma ticks_sleeper:
  assumes "sched_ok s Q" "t \<in> set (Q SleepHead)" "j < unat (t_sleep_ticks (tasks s t))"
  shows "\<exists>s' Q'. ticks j s = Some s' \<and> sched_ok s' Q' \<and> t \<in> set (Q' SleepHead) \<and>
    unat (t_sleep_ticks (tasks s' t)) = unat (t_sleep_ticks (tasks s t)) - j"
  using assms(3)
proof (induction j)
  case 0
  then show ?case using assms by auto
next
  case (Suc j)
  then obtain s' Q' where s': "ticks j s = Some s'" "sched_ok s' Q'" "t \<in> set (Q' SleepHead)"
    and k: "unat (t_sleep_ticks (tasks s' t)) = unat (t_sleep_ticks (tasks s t)) - j" by auto
  from s'(2) obtain c where c: "current s' = Some c" "c \<in> set (Q' ReadyHead)" "qrep (links s') Q'"
    by (auto elim: sched_okD)
  have big: "1 < unat (t_sleep_ticks (tasks s' t))" using k Suc.prems by simp
  then have ne: "t_sleep_ticks (tasks s' t) \<noteq> 1" by auto
  have "unat (t_sleep_ticks (tasks s' t) - 1) = unat (t_sleep_ticks (tasks s' t)) - 1"
    using big by (intro unat_minus_one) auto
  then show ?case
    using task_tick_spec [OF s'(2) c(1)] s' k ne
      tick_queues_sleep(1) [OF c(3,2), of "tasks s'"] by fastforce
qed

text \<open>A fresh machine of \<open>n\<close> ready processes (process 0 is the idle task), used by the witnesses.\<close>

definition zero_tss :: tss_t where
  "zero_tss = \<lparr>tss_pre_link = 0, tss_esp0 = 0, tss_ss0 = 0, tss_esp1 = 0, tss_ss1 = 0, tss_esp2 = 0,
     tss_ss2 = 0, tss_cr3 = 0, tss_eip = 0, tss_eflags = 0, tss_eax = 0, tss_ecx = 0,
     tss_edx = 0, tss_ebx = 0, tss_esp = 0, tss_ebp = 0, tss_esi = 0, tss_edi = 0,
     tss_es = 0, tss_cs = 0, tss_ss = 0, tss_ds = 0, tss_fs = 0, tss_gs = 0,
     tss_ldt = 0, tss_iomap = 0\<rparr>"

definition boot_task :: task_t where
  "boot_task = \<lparr>t_state = TASK_RUNNING, t_pid = 0, t_name = [], t_slice = TASK_SLICE, t_cr3 = 0,
     t_sleep_ticks = 0, t_eip = 0, t_esp = 0, t_tss = zero_tss,
     t_parent = None, open_file_table = replicate TASK_OPEN_MAX_FILES None\<rparr>"

definition empty_links :: "'n links" where
  "empty_links = \<lparr>nxt = (\<lambda>x. x), prv = (\<lambda>x. x)\<rparr>"

definition boot_kernel :: "nat \<Rightarrow> kernel" where
  "boot_kernel n = \<lparr>links = fold (\<lambda>t. queue_insert_tail ReadyHead (RqNode t)) [0..<n] empty_links,
     tasks = (\<lambda>t. boot_task\<lparr>t_pid := int t\<rparr>), current = Some 0, idle_task = Some 0,
     sem_count = (\<lambda>_. 0), mutexes = (\<lambda>_. \<lparr>lock_times = 0, owner = None\<rparr>), cpu_cr3 = 0, cpu_tss = None\<rparr>"

definition boot_queues :: "nat \<Rightarrow> node \<Rightarrow> nat list" where
  "boot_queues n c = (if c = ReadyHead then [0..<n] else [])"

lemma qrep_empty: "qrep empty_links (\<lambda>_. [])"
  by (simp add: qrep_def cdl_def empty_links_def)

lemma qrep_boot: "qrep (links (boot_kernel n)) (boot_queues n)"
proof -
  have "qrep (fold (\<lambda>t. queue_insert_tail ReadyHead (RqNode t)) [0..<n] empty_links) (boot_queues n)"
  proof (induction n)
    case 0
    have "boot_queues 0 = (\<lambda>_. [])" by (auto simp: boot_queues_def)
    then show ?case using qrep_empty by simp
  next
    case (Suc n)
    have "qrep (queue_insert_tail ReadyHead (RqNode n)
        (fold (\<lambda>t. queue_insert_tail ReadyHead (RqNode t)) [0..<n] empty_links))
      ((boot_queues n)(ReadyHead := boot_queues n ReadyHead @ [n]))"
      by (rule qrep_insert_tail [OF Suc]) (auto simp: boot_queues_def)
    moreover have "(boot_queues n)(ReadyHead := boot_queues n ReadyHead @ [n]) = boot_queues (Suc n)"
      by (auto simp: boot_queues_def)
    ultimately show ?case by simp
  qed
  then show ?thesis by (simp add: boot_kernel_def)
qed

lemma sched_ok_boot: "0 < n \<Longrightarrow> sched_ok (boot_kernel n) (boot_queues n)"
  using qrep_boot [of n]
  by (auto simp: sched_ok_def states_ok_def boot_kernel_def boot_queues_def boot_task_def)

section \<open>Properties\<close>

text \<open>C11: yielding is round robin.  From a state whose running process heads the ready queue of
  \<open>n\<close> processes, \<open>k\<close> yields always succeed and leave the process \<open>k mod n\<close> places further
  on running, so every ready process runs within \<open>n\<close> yields.\<close>

theorem yield_round_robin:
  assumes "sched_ok s Q" "current s = Some (hd (Q ReadyHead))"
  shows "\<exists>s'. yields k s = Some s' \<and>
    current s' = Some (Q ReadyHead ! (k mod length (Q ReadyHead)))"
proof -
  from assms(1) have ne: "Q ReadyHead \<noteq> []" by (auto elim: sched_okD)
  with yields_rotate [OF assms, of k] show ?thesis by (auto simp: hd_rotate_conv_nth)
qed

theorem yield_round_robin_witness:
  "\<exists>s'. yields 4 (boot_kernel 3) = Some s' \<and>
    current s' = Some (boot_queues 3 ReadyHead ! (4 mod length (boot_queues 3 ReadyHead)))"
  by (rule yield_round_robin [OF sched_ok_boot])
    (simp_all add: boot_kernel_def boot_queues_def numeral_3_eq_3)

lemma sleeping:
  assumes "sched_ok s Q" "t \<in> set (Q SleepHead)"
  shows "t_state (tasks s t) = TASK_SLEEP \<and> t_sleep_ticks (tasks s t) \<noteq> 0"
proof -
  have "states_ok (tasks s) Q" using assms(1) by (auto elim: sched_okD)
  with assms(2) show ?thesis unfolding states_ok_def by (auto dest: spec [of _ SleepHead])
qed

lemma sched_ok_distinct: "sched_ok s Q \<Longrightarrow> is_anchor d \<Longrightarrow> distinct (Q d)"
  by (erule sched_okD) (erule qrepD(3))

text \<open>C12: a sleeper wakes at exactly its tick.  With \<open>k\<close> ticks left, after \<open>j < k\<close> timer
  interrupts the process is still asleep, and the \<open>k\<close>-th makes it ready to run.\<close>

theorem sleeper_wakes_on_time:
  assumes ok: "sched_ok s Q" "t \<in> set (Q SleepHead)"
    and j: "j \<le> unat (t_sleep_ticks (tasks s t))"
  shows "\<exists>s'. ticks j s = Some s' \<and> t_state (tasks s' t) =
    (if j < unat (t_sleep_ticks (tasks s t)) then TASK_SLEEP else TASK_RUNNING)"
proof (cases "j < unat (t_sleep_ticks (tasks s t))")
  case True
  then obtain s' Q' where "ticks j s = Some s'" "sched_ok s' Q'" "t \<in> set (Q' SleepHead)"
    using ticks_sleeper [OF ok] by blast
  then show ?thesis using True sleeping by auto
next
  case False
  let ?k = "unat (t_sleep_ticks (tasks s t))"
  have "t_sleep_ticks (tasks s t) \<noteq> 0" using sleeping [OF ok] by simp
  then obtain i where i: "j = Suc i" "i < ?k" "?k - i = 1"
    using False j by (cases j) (auto simp: unat_eq_0)
  then obtain s' Q' where s': "ticks i s = Some s'" "sched_ok s' Q'" "t \<in> set (Q' SleepHead)"
    "unat (t_sleep_ticks (tasks s' t)) = 1" using ticks_sleeper [OF ok, of i] by auto
  then have one: "t_sleep_ticks (tasks s' t) = 1" by (metis unat_1 word_unat_eq_iff)
  from s'(2) obtain c where c: "current s' = Some c" "c \<in> set (Q' ReadyHead)" "qrep (links s') Q'"
    by (auto elim: sched_okD)
  let ?Q = "tick_queues (tasks s') c Q'"
  obtain s'' where s'': "task_tick s' = Some s''" "sched_ok s'' ?Q"
    using task_tick_spec [OF s'(2) c(1)] by blast
  have "t \<in> set (?Q ReadyHead)" using tick_queues_sleep(2) [OF c(3,2)] s'(3) one by auto
  then have "t_state (tasks s'' t) = TASK_RUNNING"
    using s''(2) by (auto elim!: sched_okD intro: states_ok_running)
  with s' s'' i False show ?thesis by simp
qed

lemma sleep_example:
  obtains s Q where "Option.bind (task_yield (boot_kernel 3)) (sys_sleep 30) = Some s"
    "sched_ok s Q" "1 \<in> set (Q SleepHead)" "t_sleep_ticks (tasks s 1) = 3"
proof -
  have ok: "sched_ok (boot_kernel 3) (boot_queues 3)" by (rule sched_ok_boot) simp
  have c: "current (boot_kernel 3) = Some 0" by (simp add: boot_kernel_def)
  let ?Q = "amove 0 ReadyHead (boot_queues 3)"
  obtain s1 where s1: "task_yield (boot_kernel 3) = Some s1" "sched_ok s1 ?Q"
    "current s1 = Some (hd (?Q ReadyHead))" "idle_task s1 = idle_task (boot_kernel 3)"
    using task_yield_spec [OF ok c] by auto
  have "hd (?Q ReadyHead) = 1" by (simp add: amove_def boot_queues_def upt_rec)
  with s1 obtain s2 where "sys_sleep 30 s1 = Some s2" "sched_ok s2 (amove 1 SleepHead ?Q)"
    "t_sleep_ticks (tasks s2 1) = 30 div 10"
    using sys_sleep_spec [OF s1(2), of 1 30] by (auto simp: boot_kernel_def)
  with s1 that show ?thesis by (auto simp: amove_def)
qed

theorem sleeper_wakes_on_time_witness:
  "\<exists>s s'. Option.bind (task_yield (boot_kernel 3)) (sys_sleep 30) = Some s \<and>
    ticks 3 s = Some s' \<and> t_state (tasks s' 1) = TASK_RUNNING"
proof -
  obtain s Q where s: "Option.bind (task_yield (boot_kernel 3)) (sys_sleep 30) = Some s"
    and q: "sched_ok s Q" "1 \<in> set (Q SleepHead)" "t_sleep_ticks (tasks s 1) = 3"
    by (rule sleep_example)
  with sleeper_wakes_on_time [OF q(1,2), of 3] show ?thesis by auto
qed

text \<open>the time slice does not protect the running process.  \<open>task_tick\<close> calls \<open>schedule\<close>
  on every timer interrupt, and with another process ready and no sleeper due the processor
  is handed on although the slice is not used up.\<close>

theorem tick_preempts_before_slice_ends:
  assumes ok: "sched_ok s Q" and cur: "current s = Some c" and slice: "t_slice (tasks s c) \<noteq> 1"
    and two: "d \<in> set (Q ReadyHead)" "d \<noteq> c"
    and none: "\<forall>t \<in> set (Q SleepHead). t_sleep_ticks (tasks s t) \<noteq> 1"
  shows "\<exists>s' n. task_tick s = Some s' \<and> current s' = Some n \<and> n \<noteq> c \<and>
    n = cyclic_next (Q ReadyHead) c"
proof -
  let ?Q = "tick_queues (tasks s) c Q"
  have Q: "?Q ReadyHead = Q ReadyHead"
    using slice none by (simp add: tick_queues_def filter_empty_conv)
  have c: "c \<in> set (Q ReadyHead)" and dist: "distinct (Q ReadyHead)"
    using ok cur sched_ok_distinct [OF ok, of ReadyHead] by (auto elim: sched_okD)
  then obtain as bs where s: "Q ReadyHead = as @ c # bs" "c \<notin> set as" by (auto dest: split_list_first)
  have "cyclic_next (Q ReadyHead) c = (case bs of [] \<Rightarrow> hd (as @ [c]) | y # _ \<Rightarrow> y)"
    unfolding s(1) using s(2) by (rule cyclic_next_split)
  then have "cyclic_next (Q ReadyHead) c \<noteq> c"
    using s dist two by (cases bs; cases as) auto
  with task_tick_spec [OF ok cur] Q show ?thesis by auto
qed

theorem tick_preempts_before_slice_ends_witness:
  "\<exists>s' n. task_tick (boot_kernel 3) = Some s' \<and> current s' = Some n \<and> n \<noteq> 0 \<and>
    n = cyclic_next (boot_queues 3 ReadyHead) 0"
  by (rule tick_preempts_before_slice_ends [OF sched_ok_boot, where d = 1])
    (simp_all add: boot_kernel_def boot_queues_def boot_task_def TASK_SLICE_def)

text \<open>\<open>schedule\<close> switches the address space with the process: when it picks another
  process, the page directory in use and the loaded TSS are that process's, the old process
  keeps the page directory it was running on, and no other task is written.\<close>

theorem schedule_switches_address_space:
  assumes "sched_ok s Q" "current s = Some c" "schedule s = Some s'" "current s' = Some n" "n \<noteq> c"
  shows "cpu_cr3 s' = t_cr3 (tasks s n) \<and> cpu_tss s' = Some n \<and>
    t_cr3 (tasks s' c) = cpu_cr3 s \<and> (\<forall>t. t \<noteq> c \<longrightarrow> tasks s' t = tasks s t) \<and> links s' = links s"
proof -
  let ?n = "cyclic_next (Q ReadyHead) c"
  have s': "s' = dispatch c ?n s" using schedule_ok(1) [OF assms(1,2)] assms(3) by simp
  then have "?n = n" using assms(2,4) by simp
  moreover have "c \<noteq> n" using assms(5) by simp
  ultimately show ?thesis using s' by (simp add: dispatch_mm)
qed

theorem schedule_switches_address_space_witness:
  "\<exists>s'. schedule (boot_kernel 2) = Some s' \<and> current s' = Some 1 \<and> cpu_cr3 s' = 0 \<and> cpu_tss s' = Some 1"
proof -
  have ok: "sched_ok (boot_kernel 2) (boot_queues 2)" by (rule sched_ok_boot) simp
  have c: "current (boot_kernel 2) = Some 0" by (simp add: boot_kernel_def)
  have n: "cyclic_next (boot_queues 2 ReadyHead) 0 = 1"
    by (simp add: boot_queues_def cyclic_next_def upt_rec)
  obtain s' where s': "schedule (boot_kernel 2) = Some s'" "current s' = Some 1"
    using schedule_ok(1) [OF ok c] c n by simp
  with schedule_switches_address_space [OF ok c s'] show ?thesis
    by (auto simp: boot_kernel_def boot_task_def)
qed

end
