(* ===== verification/Ipc.thy ===== *)
theory Ipc
  imports Task
begin

text \<open>
  Semaphores and mutexes of \<open>source/kernel/ipc.c\<close>.  A blocked process leaves the ready
  queue for the object's own queue; the operation ends with the switch to the next process,
  and the rest of the caller (\<open>leave_critical\<close>) runs when it is scheduled again.
\<close>

section \<open>The operations\<close>

definition sem_init :: "nat \<Rightarrow> int \<Rightarrow> 'a kernel_scheme \<Rightarrow> 'a kernel_scheme" where
  "sem_init i count s = upd_links (queue_init (SemHead i)) (s\<lparr>sem_count := (sem_count s)(i := count)\<rparr>)"

definition sem_wait :: "nat \<Rightarrow> 'a kernel_scheme \<Rightarrow> 'a kernel_scheme option" where
  "sem_wait i s =
     (if 0 < sem_count s i
      then Some (s\<lparr>sem_count := (sem_count s)(i := sem_count s i - 1)\<rparr>)
      else do {
        cur \<leftarrow> current s;
        let s = upd_links (queue_remove (RqNode cur)) s;
        let s = upd_task cur (\<lambda>k. k\<lparr>t_state := TASK_WAITING\<rparr>) s;
        let s = upd_links (queue_insert_tail (SemHead i) (RqNode cur)) s;
        schedule s })"

definition sem_notify :: "nat \<Rightarrow> 'a kernel_scheme \<Rightarrow> 'a kernel_scheme option" where
  "sem_notify i s =
     (if \<not> queue_empty (links s) (SemHead i)
      then let q = queue_first (links s) (SemHead i);
               s = upd_links (queue_remove q) s
           in do {
             t \<leftarrow> rq_task q;
             let s = upd_task t (\<lambda>k. k\<lparr>t_state := TASK_RUNNING\<rparr>) s;
             schedule (upd_links (queue_insert_tail ReadyHead q) s) }
      else Some (s\<lparr>sem_count := (sem_count s)(i := sem_count s i + 1)\<rparr>))"

definition mutex_init :: "nat \<Rightarrow> 'a kernel_scheme \<Rightarrow> 'a kernel_scheme" where
  "mutex_init m s = upd_links (queue_init (MutexHead m))
     (s\<lparr>mutexes := (mutexes s)(m := \<lparr>lock_times = 0, owner = None\<rparr>)\<rparr>)"

definition mutex_lock :: "nat \<Rightarrow> 'a kernel_scheme \<Rightarrow> 'a kernel_scheme option" where
  "mutex_lock m s =
     (let mx = mutexes s m in
      if lock_times mx = 0
      then Some (s\<lparr>mutexes := (mutexes s)(m := \<lparr>lock_times = lock_times mx + 1, owner = current s\<rparr>)\<rparr>)
      else if owner mx = current s
      then Some (s\<lparr>mutexes := (mutexes s)(m := mx\<lparr>lock_times := lock_times mx + 1\<rparr>)\<rparr>)
      else do {
        cur \<leftarrow> current s;
        let s = upd_links (queue_remove (RqNode cur)) s;
        let s = upd_task cur (\<lambda>k. k\<lparr>t_state := TASK_WAITING\<rparr>) s;
        let s = upd_links (queue_insert_tail (MutexHead m) (RqNode cur)) s;
        schedule s })"

definition mutex_unlock :: "nat \<Rightarrow> 'a kernel_scheme \<Rightarrow> 'a kernel_scheme option" where
  "mutex_unlock m s =
     (let mx = mutexes s m in
      if owner mx = current s
      then let mx = mx\<lparr>lock_times := lock_times mx - 1\<rparr> in
        if lock_times mx = 0
        then let s = s\<lparr>mutexes := (mutexes s)(m := mx\<lparr>owner := None\<rparr>)\<rparr> in
          if \<not> queue_empty (links s) (MutexHead m)
          then let q = queue_first (links s) (MutexHead m);
                   s = upd_links (queue_remove q) s
               in do {
                 t \<leftarrow> rq_task q;
                 let s = upd_task t (\<lambda>k. k\<lparr>t_state := TASK_RUNNING\<rparr>) s;
                 let s = upd_links (queue_insert_tail ReadyHead q) s;
                 schedule (s\<lparr>mutexes := (mutexes s)(m := \<lparr>lock_times = 1, owner = Some t\<rparr>)\<rparr>) }
          else Some s
        else Some (s\<lparr>mutexes := (mutexes s)(m := mx)\<rparr>)
      else Some s)"

section \<open>The invariant\<close>

definition sems_ok :: "'a kernel_scheme \<Rightarrow> (node \<Rightarrow> nat list) \<Rightarrow> bool" where
  "sems_ok s Q \<longleftrightarrow> (\<forall>i. 0 \<le> sem_count s i \<and> (0 < sem_count s i \<longrightarrow> Q (SemHead i) = []))"

definition mutex_ok :: "mutex_t \<Rightarrow> nat list \<Rightarrow> bool" where
  "mutex_ok mx waiters \<longleftrightarrow> 0 \<le> lock_times mx \<and> (lock_times mx = 0 \<longleftrightarrow> owner mx = None) \<and>
     (owner mx = None \<longrightarrow> waiters = []) \<and> (\<forall>t. owner mx = Some t \<longrightarrow> t \<notin> set waiters)"

definition kernel_ok :: "'a kernel_scheme \<Rightarrow> (node \<Rightarrow> nat list) \<Rightarrow> bool" where
  "kernel_ok s Q \<longleftrightarrow> sched_ok s Q \<and> sems_ok s Q \<and> (\<forall>m. mutex_ok (mutexes s m) (Q (MutexHead m)))"

lemma kernel_okI:
  "sched_ok s Q \<Longrightarrow> sems_ok s Q \<Longrightarrow> (\<And>m. mutex_ok (mutexes s m) (Q (MutexHead m))) \<Longrightarrow> kernel_ok s Q"
  by (simp add: kernel_ok_def)

lemma kernel_okD:
  assumes "kernel_ok s Q"
  shows "sched_ok s Q" "sems_ok s Q" "mutex_ok (mutexes s m) (Q (MutexHead m))"
  using assms by (simp_all add: kernel_ok_def)

text \<open>A running process is in no other queue.\<close>

lemma ready_notin:
  "sched_ok s Q \<Longrightarrow> t \<in> set (Q ReadyHead) \<Longrightarrow> is_anchor d \<Longrightarrow> d \<noteq> ReadyHead \<Longrightarrow> t \<notin> set (Q d)"
  by (auto simp: sched_ok_def dest: qrep_unique_anchor [of _ _ ReadyHead d t])

lemma amove_other:
  "sched_ok s Q \<Longrightarrow> is_anchor d \<Longrightarrow> t \<in> set (Q d) \<Longrightarrow> is_anchor e \<Longrightarrow> e \<noteq> d \<Longrightarrow> e \<noteq> c \<Longrightarrow>
   amove t c Q e = Q e"
proof -
  assume *: "sched_ok s Q" "is_anchor d" "t \<in> set (Q d)" "is_anchor e" "e \<noteq> d" "e \<noteq> c"
  then have "t \<notin> set (Q e)" by (auto elim!: sched_okD dest: qrep_unique_anchor)
  with *(6) show "amove t c Q e = Q e" by (simp add: amove_def)
qed

section \<open>Each operation against the abstract queues\<close>

lemma sem_wait_free:
  assumes ok: "kernel_ok s Q" and "0 < sem_count s i"
  shows "\<exists>s'. sem_wait i s = Some s' \<and> kernel_ok s' Q \<and> sem_count s' i = sem_count s i - 1 \<and>
    current s' = current s"
  using assms by (auto simp: sem_wait_def kernel_ok_def sched_ok_def sems_ok_def)

lemma sem_wait_blocks:
  assumes ok: "kernel_ok s Q" and zero: "\<not> 0 < sem_count s i"
    and cur: "current s = Some c" and idle: "idle_task s \<noteq> Some c"
  shows "\<exists>s'. sem_wait i s = Some s' \<and> kernel_ok s' (amove c (SemHead i) Q) \<and>
    current s' = Some (hd (removeAll c (Q ReadyHead)))"
proof -
  let ?Q = "amove c (SemHead i) Q"
  let ?s = "upd_links (q_move c (SemHead i)) (upd_task c (\<lambda>k. k\<lparr>t_state := TASK_WAITING\<rparr>) s)"
  have s: "sched_ok s Q" using ok by (rule kernel_okD)
  from s cur have c: "c \<in> set (Q ReadyHead)" by (auto elim: sched_okD)
  have "\<exists>n cur. current s = Some cur \<and> n = next_ready (tasks ?s) ?Q cur \<and>
    schedule ?s = Some (dispatch cur n ?s) \<and> sched_ok (dispatch cur n ?s) ?Q"
    using s c idle by (intro move_and_schedule) (auto intro: in_poolI [of ReadyHead])
  moreover have "next_ready (tasks ?s) ?Q c = hd (removeAll c (Q ReadyHead))"
    by (simp add: next_ready_def amove_sel)
  moreover have "sem_wait i s = schedule ?s"
    using cur zero by (simp add: sem_wait_def upd_links_def upd_task_def q_move_def)
  moreover have "sems_ok (dispatch c n ?s) ?Q" for n
    using kernel_okD(2) [OF ok] zero ready_notin [OF s c] by (auto simp: sems_ok_def amove_def)
  moreover have "mutex_ok (mutexes (dispatch c n ?s) m) (?Q (MutexHead m))" for n m
    using kernel_okD(3) [OF ok, of m] amove_other [OF s _ c, of "MutexHead m" "SemHead i"]
    by simp
  ultimately show ?thesis using cur by (auto simp: kernel_ok_def)
qed

lemma sem_notify_idle:
  assumes ok: "kernel_ok s Q" and none: "Q (SemHead i) = []"
  shows "\<exists>s'. sem_notify i s = Some s' \<and> kernel_ok s' Q \<and> sem_count s' i = sem_count s i + 1 \<and>
    current s' = current s"
proof -
  have "qrep (links s) Q" using kernel_okD(1) [OF ok] by (auto elim: sched_okD)
  then have "queue_empty (links s) (SemHead i)"
    using none cdl_empty_iff [OF qrepD(1)] by fastforce
  then show ?thesis
    using assms by (auto simp: sem_notify_def kernel_ok_def sched_ok_def sems_ok_def)
qed

text \<open>The head of a wait queue is moved to the ready queue, and the processor rescheduled.\<close>

lemma queue_head_facts:
  assumes "sched_ok s Q" "is_anchor d" "Q d = t # ts"
  shows "\<not> queue_empty (links s) d" "queue_first (links s) d = RqNode t" "t \<in> pool Q"
proof -
  have q: "cdl (links s) d (map RqNode (Q d))" using assms(1,2) by (auto elim: sched_okD dest: qrepD)
  show "\<not> queue_empty (links s) d" "queue_first (links s) d = RqNode t"
    using cdl_empty_iff [OF q] cdl_first [OF q] assms(3) by simp_all
  show "t \<in> pool Q" using assms(2,3) by (auto intro: in_poolI)
qed

lemma wake_and_schedule:
  assumes s: "sched_ok s Q" and d: "is_anchor d" "d \<noteq> ReadyHead" "Q d = t # ts"
    and cur: "current s = Some c"
    and links: "links s' = q_move t ReadyHead (links s)"
    and tasks: "tasks s' = (tasks s)(t := (tasks s t)\<lparr>t_state := TASK_RUNNING\<rparr>)"
    and same: "current s' = current s" "idle_task s' = idle_task s"
  shows "schedule s' = Some (dispatch c (cyclic_next (Q ReadyHead @ [t]) c) s')"
    "sched_ok (dispatch c (cyclic_next (Q ReadyHead @ [t]) c) s') (amove t ReadyHead Q)"
proof -
  let ?Q = "amove t ReadyHead Q"
  from s cur have c: "c \<in> set (Q ReadyHead)" and st: "states_ok (tasks s) Q" by (auto elim: sched_okD)
  have "t \<notin> set (Q ReadyHead)" using ready_notin [OF s _ d(1,2), of t] d(3) by auto
  then have Q: "?Q ReadyHead = Q ReadyHead @ [t]" by (simp add: amove_def)
  have "t_state (tasks s' c) = TASK_RUNNING" using states_ok_running [OF st c] tasks by simp
  then have n: "next_ready (tasks s') ?Q c = cyclic_next (Q ReadyHead @ [t]) c"
    using Q by (simp add: next_ready_def)
  have "\<exists>n cur. current s = Some cur \<and> n = next_ready (tasks s') ?Q cur \<and>
    schedule s' = Some (dispatch cur n s') \<and> sched_ok (dispatch cur n s') ?Q"
    using s links same tasks queue_head_facts(3) [OF s d(1,3)] by (intro move_and_schedule) auto
  then show "schedule s' = Some (dispatch c (cyclic_next (Q ReadyHead @ [t]) c) s')"
    "sched_ok (dispatch c (cyclic_next (Q ReadyHead @ [t]) c) s') ?Q"
    using cur n by auto
qed

lemma sem_notify_wakes:
  assumes ok: "kernel_ok s Q" and ts: "Q (SemHead i) = t # ts" and cur: "current s = Some c"
  shows "\<exists>s'. sem_notify i s = Some s' \<and> kernel_ok s' (amove t ReadyHead Q) \<and>
    amove t ReadyHead Q (SemHead i) = ts \<and> sem_count s' = sem_count s \<and>
    current s' = Some (cyclic_next (Q ReadyHead @ [t]) c)"
proof -
  let ?Q = "amove t ReadyHead Q"
  let ?s = "upd_links (q_move t ReadyHead) (upd_task t (\<lambda>k. k\<lparr>t_state := TASK_RUNNING\<rparr>) s)"
  let ?s' = "dispatch c (cyclic_next (Q ReadyHead @ [t]) c) ?s"
  have s: "sched_ok s Q" using ok by (rule kernel_okD)
  note hd = queue_head_facts [OF s _ ts, simplified]
  have w: "schedule ?s = Some ?s'" "sched_ok ?s' ?Q"
    by (rule wake_and_schedule [OF s _ _ ts cur], simp_all)+
  have "sem_notify i s = schedule ?s"
    using hd by (simp add: sem_notify_def upd_links_def upd_task_def q_move_def Let_def)
  moreover have "distinct (Q (SemHead i))" using s by (simp add: sched_ok_distinct)
  then have Qi: "?Q (SemHead i) = ts" using ts by (simp add: amove_def)
  moreover have "sems_ok ?s' ?Q"
    using kernel_okD(2) [OF ok] ts Qi amove_other [OF s, of "SemHead i" t] 
    by (fastforce simp: sems_ok_def amove_def)
  moreover have "mutex_ok (mutexes ?s' m) (?Q (MutexHead m))" for m
    using kernel_okD(3) [OF ok, of m] amove_other [OF s, of "SemHead i" t "MutexHead m" ReadyHead] ts
    by simp
  ultimately show ?thesis using w cur by (auto simp: kernel_ok_def)
qed

lemma mutex_lock_free:
  assumes ok: "kernel_ok s Q" and cur: "current s = Some c"
    and free: "owner (mutexes s m) = None \<or> owner (mutexes s m) = Some c"
  shows "\<exists>s'. mutex_lock m s = Some s' \<and> kernel_ok s' Q \<and> current s' = Some c \<and>
    owner (mutexes s' m) = Some c \<and> lock_times (mutexes s' m) = lock_times (mutexes s m) + 1"
proof -
  let ?n = "lock_times (mutexes s m) + 1"
  let ?s' = "s\<lparr>mutexes := (mutexes s)(m := \<lparr>lock_times = ?n, owner = Some c\<rparr>)\<rparr>"
  have s: "sched_ok s Q" using ok by (rule kernel_okD)
  have m: "mutex_ok (mutexes s m) (Q (MutexHead m))" using ok by (rule kernel_okD)
  have c: "c \<notin> set (Q (MutexHead m))" using s cur ready_notin [OF s, of c] by (auto elim: sched_okD)
  have "mutex_lock m s = Some ?s'"
    using m free cur by (cases "mutexes s m") (auto simp: mutex_lock_def mutex_ok_def Let_def)
  moreover have "kernel_ok ?s' Q"
  proof (rule kernel_okI)
    show "sched_ok ?s' Q" using s by (simp add: sched_ok_def)
    show "sems_ok ?s' Q" using kernel_okD(2) [OF ok] by (simp add: sems_ok_def)
    show "mutex_ok (mutexes ?s' m') (Q (MutexHead m'))" for m'
      using kernel_okD(3) [OF ok, of m'] c m by (auto simp: mutex_ok_def)
  qed
  ultimately show ?thesis using cur by simp
qed

lemma mutex_lock_blocks:
  assumes ok: "kernel_ok s Q" and cur: "current s = Some c" and idle: "idle_task s \<noteq> Some c"
    and held: "owner (mutexes s m) = Some d" "d \<noteq> c"
  shows "\<exists>s'. mutex_lock m s = Some s' \<and> kernel_ok s' (amove c (MutexHead m) Q) \<and>
    current s' = Some (hd (removeAll c (Q ReadyHead))) \<and> mutexes s' = mutexes s"
proof -
  let ?Q = "amove c (MutexHead m) Q"
  let ?s = "upd_links (q_move c (MutexHead m)) (upd_task c (\<lambda>k. k\<lparr>t_state := TASK_WAITING\<rparr>) s)"
  have s: "sched_ok s Q" using ok by (rule kernel_okD)
  from s cur have c: "c \<in> set (Q ReadyHead)" by (auto elim: sched_okD)
  have "\<exists>n cur. current s = Some cur \<and> n = next_ready (tasks ?s) ?Q cur \<and>
    schedule ?s = Some (dispatch cur n ?s) \<and> sched_ok (dispatch cur n ?s) ?Q"
    using s c idle by (intro move_and_schedule) (auto intro: in_poolI [of ReadyHead])
  moreover have "next_ready (tasks ?s) ?Q c = hd (removeAll c (Q ReadyHead))"
    by (simp add: next_ready_def amove_sel)
  moreover have "lock_times (mutexes s m) \<noteq> 0"
    using kernel_okD(3) [OF ok, of m] held by (auto simp: mutex_ok_def)
  then have "mutex_lock m s = schedule ?s"
    using cur held by (simp add: mutex_lock_def upd_links_def upd_task_def q_move_def Let_def)
  moreover have "sems_ok (dispatch c n ?s) ?Q" for n
    using kernel_okD(2) [OF ok] amove_other [OF s _ c, of "SemHead _" "MutexHead m"]
    by (auto simp: sems_ok_def)
  moreover have "mutex_ok (mutexes (dispatch c n ?s) m') (?Q (MutexHead m'))" for n m'
    using kernel_okD(3) [OF ok, of m'] amove_other [OF s _ c, of "MutexHead m'" "MutexHead m"] held
    by (cases "m' = m") (auto simp: mutex_ok_def amove_def)
  ultimately show ?thesis using cur by (auto simp: kernel_ok_def)
qed

lemma mutex_unlock_other:
  "owner (mutexes s m) \<noteq> current s \<Longrightarrow> mutex_unlock m s = Some s"
  by (simp add: mutex_unlock_def Let_def)

lemma mutex_unlock_nested:
  assumes ok: "kernel_ok s Q" and own: "owner (mutexes s m) = current s" "current s = Some c"
    and n: "1 < lock_times (mutexes s m)"
  shows "\<exists>s'. mutex_unlock m s = Some s' \<and> kernel_ok s' Q \<and> current s' = current s \<and>
    owner (mutexes s' m) = Some c \<and> lock_times (mutexes s' m) = lock_times (mutexes s m) - 1"
proof -
  let ?s' = "s\<lparr>mutexes := (mutexes s)(m := (mutexes s m)\<lparr>lock_times := lock_times (mutexes s m) - 1\<rparr>)\<rparr>"
  have "mutex_unlock m s = Some ?s'" using own n by (simp add: mutex_unlock_def Let_def)
  moreover have "kernel_ok ?s' Q"
    using ok own n by (auto simp: kernel_ok_def sched_ok_def sems_ok_def mutex_ok_def)
  ultimately show ?thesis using own by simp
qed

lemma mutex_unlock_free:
  assumes ok: "kernel_ok s Q" and own: "owner (mutexes s m) = current s" "current s = Some c"
    and n: "lock_times (mutexes s m) = 1" and none: "Q (MutexHead m) = []"
  shows "\<exists>s'. mutex_unlock m s = Some s' \<and> kernel_ok s' Q \<and> current s' = current s \<and>
    owner (mutexes s' m) = None"
proof -
  let ?s' = "s\<lparr>mutexes := (mutexes s)(m := \<lparr>lock_times = 0, owner = None\<rparr>)\<rparr>"
  have "qrep (links s) Q" using kernel_okD(1) [OF ok] by (auto elim: sched_okD)
  then have "queue_empty (links s) (MutexHead m)"
    using none cdl_empty_iff [OF qrepD(1)] by fastforce
  then have "mutex_unlock m s = Some ?s'"
    using own n by (cases "mutexes s m") (simp add: mutex_unlock_def Let_def)
  moreover have "kernel_ok ?s' Q"
    using ok none by (auto simp: kernel_ok_def sched_ok_def sems_ok_def mutex_ok_def)
  ultimately show ?thesis by simp
qed

lemma mutex_unlock_handoff:
  assumes ok: "kernel_ok s Q" and own: "owner (mutexes s m) = current s" "current s = Some c"
    and n: "lock_times (mutexes s m) = 1" and ts: "Q (MutexHead m) = t # ts"
  shows "\<exists>s'. mutex_unlock m s = Some s' \<and> kernel_ok s' (amove t ReadyHead Q) \<and>
    amove t ReadyHead Q (MutexHead m) = ts \<and>
    mutexes s' = (mutexes s)(m := \<lparr>lock_times = 1, owner = Some t\<rparr>) \<and>
    current s' = Some (cyclic_next (Q ReadyHead @ [t]) c)"
proof -
  let ?Q = "amove t ReadyHead Q"
  let ?s = "(upd_links (q_move t ReadyHead) (upd_task t (\<lambda>k. k\<lparr>t_state := TASK_RUNNING\<rparr>) s))
    \<lparr>mutexes := (mutexes s)(m := \<lparr>lock_times = 1, owner = Some t\<rparr>)\<rparr>"
  let ?s' = "dispatch c (cyclic_next (Q ReadyHead @ [t]) c) ?s"
  have s: "sched_ok s Q" using ok by (rule kernel_okD)
  note hd = queue_head_facts [OF s _ ts, simplified]
  have w: "schedule ?s = Some ?s'" "sched_ok ?s' ?Q"
    by (rule wake_and_schedule [OF s _ _ ts own(2)], simp_all)+
  have "mutex_unlock m s = schedule ?s"
    using hd own n by (simp add: mutex_unlock_def upd_links_def upd_task_def q_move_def Let_def)
  moreover have dist: "distinct (Q (MutexHead m))" using s by (simp add: sched_ok_distinct)
  then have Qm: "?Q (MutexHead m) = ts" using ts by (simp add: amove_def)
  moreover have "sems_ok ?s' ?Q"
    using kernel_okD(2) [OF ok] amove_other [OF s, of "MutexHead m" t "SemHead _" ReadyHead] ts
    by (auto simp: sems_ok_def)
  moreover have "mutex_ok (mutexes ?s' m') (?Q (MutexHead m'))" for m'
    using kernel_okD(3) [OF ok, of m'] ts dist Qm
      amove_other [OF s, of "MutexHead m" t "MutexHead m'" ReadyHead]
    by (cases "m' = m") (auto simp: mutex_ok_def)
  ultimately show ?thesis using w own by (auto simp: kernel_ok_def)
qed

section \<open>The kernel as a state machine\<close>

text \<open>
  What a running process (or an interrupt) can ask of the scheduler.  The idle process only
  halts, so a call that may block is never made by it.
\<close>

datatype event = Tick | Yield | Sleep uint | SemWait nat | SemNotify nat | Lock nat | Unlock nat

fun exec :: "event \<Rightarrow> 'a kernel_scheme \<Rightarrow> 'a kernel_scheme option" where
  "exec Tick s = task_tick s"
| "exec Yield s = task_yield s"
| "exec (Sleep ms) s = sys_sleep ms s"
| "exec (SemWait i) s = sem_wait i s"
| "exec (SemNotify i) s = sem_notify i s"
| "exec (Lock m) s = mutex_lock m s"
| "exec (Unlock m) s = mutex_unlock m s"

fun may_block :: "event \<Rightarrow> bool" where
  "may_block (Sleep ms) = True"
| "may_block (SemWait i) = True"
| "may_block (Lock m) = True"
| "may_block _ = False"

definition allowed :: "event \<Rightarrow> 'a kernel_scheme \<Rightarrow> bool" where
  "allowed e s \<longleftrightarrow> (may_block e \<longrightarrow> current s \<noteq> idle_task s)"

inductive kstep :: "'a kernel_scheme \<Rightarrow> event \<Rightarrow> 'a kernel_scheme \<Rightarrow> bool" where
  kstep: "allowed e s \<Longrightarrow> exec e s = Some s' \<Longrightarrow> kstep s e s'"

inductive_cases kstepE: "kstep s e s'"
inductive_simps kstep_iff: "kstep s e s'"

inductive reachable :: "'a kernel_scheme \<Rightarrow> 'a kernel_scheme \<Rightarrow> bool" for s0 where
  start: "reachable s0 s0"
| step: "reachable s0 s \<Longrightarrow> kstep s e s' \<Longrightarrow> reachable s0 s'"

lemma sems_ok_frame:
  "sems_ok s Q \<Longrightarrow> (\<And>i. Q' (SemHead i) = Q (SemHead i)) \<Longrightarrow> sem_count s' = sem_count s \<Longrightarrow> sems_ok s' Q'"
  by (simp add: sems_ok_def)

lemma kernel_ok_frame:
  assumes "kernel_ok s Q" "sched_ok s' Q'"
    and "\<And>d. is_anchor d \<Longrightarrow> d \<noteq> ReadyHead \<Longrightarrow> d \<noteq> SleepHead \<Longrightarrow> Q' d = Q d"
    and "sem_count s' = sem_count s" "mutexes s' = mutexes s"
  shows "kernel_ok s' Q'"
  using assms by (auto simp: kernel_ok_def intro: sems_ok_frame)

lemma exec_ok:
  assumes ok: "kernel_ok s Q" and allowed: "allowed e s"
  shows "\<exists>s' Q'. exec e s = Some s' \<and> kernel_ok s' Q' \<and> pool Q' = pool Q"
proof -
  have s: "sched_ok s Q" using ok by (rule kernel_okD)
  then obtain c i where cur: "current s = Some c" and c: "c \<in> set (Q ReadyHead)"
    and i: "idle_task s = Some i" and q: "qrep (links s) Q" by (auto elim: sched_okD)
  have moved: "pool (amove t d Q) = pool Q" if "is_anchor d" "is_anchor e" "t \<in> set (Q e)" for t d e
    using that by (intro pool_amove in_poolI [of e])
  have cpool: "pool (amove c d Q) = pool Q" if "is_anchor d" for d
    using moved [OF that _ c] by simp
  show ?thesis
  proof (cases e)
    case Tick
    show ?thesis
      using task_tick_spec [OF s cur] tick_queues_sleep [OF q c, where T = "tasks s"] Tick
      by (auto intro!: exI [of _ "tick_queues (tasks s) c Q"] kernel_ok_frame [OF ok])
  next
    case Yield
    obtain s' where s': "task_yield s = Some s'" "sched_ok s' (amove c ReadyHead Q)"
      "sem_count s' = sem_count s" "mutexes s' = mutexes s" using task_yield_spec [OF s cur] by blast
    have "kernel_ok s' (amove c ReadyHead Q)"
      by (rule kernel_ok_frame [OF ok s'(2)]) (use s' amove_other [OF s _ c] in auto)
    then show ?thesis using Yield s' cpool [of ReadyHead] by auto
  next
    case (Sleep ms)
    show ?thesis
    proof (cases "10 \<le> unat ms")
      case True
      then obtain s' where s': "sys_sleep ms s = Some s'" "sched_ok s' (amove c SleepHead Q)"
        "sem_count s' = sem_count s" "mutexes s' = mutexes s"
        using sys_sleep_spec [OF s cur] allowed cur Sleep by (auto simp: allowed_def)
      have "kernel_ok s' (amove c SleepHead Q)"
        by (rule kernel_ok_frame [OF ok s'(2)]) (use s' amove_other [OF s _ c] in auto)
      then show ?thesis using Sleep s' cpool [of SleepHead] by auto
    next
      case False
      then have "sys_sleep ms s = Some (dispatch c (cyclic_next (Q ReadyHead) c) s)"
        using sys_sleep_short [OF _ cur, of ms] schedule_ok(1) [OF s cur] by simp
      then show ?thesis
        using Sleep kernel_ok_frame [OF ok schedule_ok(2) [OF s cur]] by auto
    qed
  next
    case (SemWait j)
    then show ?thesis
      using sem_wait_free [OF ok, of j] sem_wait_blocks [OF ok _ cur, of j] allowed cur
        cpool [of "SemHead j"]
      by (cases "0 < sem_count s j") (fastforce simp: allowed_def)+
  next
    case (SemNotify j)
    then show ?thesis
      using sem_notify_idle [OF ok, of j] sem_notify_wakes [OF ok _ cur, of j]
        moved [of ReadyHead "SemHead j"]
      by (cases "Q (SemHead j)") fastforce+
  next
    case (Lock m)
    then show ?thesis
      using mutex_lock_free [OF ok cur, of m] mutex_lock_blocks [OF ok cur, of m] allowed cur
        cpool [of "MutexHead m"]
      by (cases "owner (mutexes s m) = None \<or> owner (mutexes s m) = Some c")
        (fastforce simp: allowed_def)+
  next
    case (Unlock m)
    have mx: "mutex_ok (mutexes s m) (Q (MutexHead m))" using ok by (rule kernel_okD)
    consider "owner (mutexes s m) \<noteq> current s"
      | "owner (mutexes s m) = current s" "1 < lock_times (mutexes s m)"
      | "owner (mutexes s m) = current s" "lock_times (mutexes s m) = 1"
      using mx cur by (fastforce simp: mutex_ok_def)
    then show ?thesis
    proof cases
      case 1
      then show ?thesis using Unlock ok mutex_unlock_other by auto
    next
      case 2
      then show ?thesis using Unlock mutex_unlock_nested [OF ok _ cur] by fastforce
    next
      case 3
      then show ?thesis
        using Unlock mutex_unlock_free [OF ok _ cur, of m] mutex_unlock_handoff [OF ok _ cur, of m]
          moved [of ReadyHead "MutexHead m"]
        by (cases "Q (MutexHead m)") fastforce+
    qed
  qed
qed

lemma reachable_ok:
  assumes "reachable s0 s" "kernel_ok s0 Q0"
  shows "\<exists>Q. kernel_ok s Q \<and> pool Q = pool Q0"
  using assms
proof (induction rule: reachable.induct)
  case start
  then show ?case by blast
next
  case (step s e s')
  then obtain Q where Q: "kernel_ok s Q" "pool Q = pool Q0" by blast
  from step.hyps(2) have "allowed e s" "exec e s = Some s'" by (auto elim: kstepE)
  with exec_ok [OF Q(1)] Q(2) show ?case by fastforce
qed

section \<open>Properties\<close>

text \<open>A run of events, stopping where one is not allowed; the witnesses start it from boot.\<close>

fun run :: "event list \<Rightarrow> 'a kernel_scheme \<Rightarrow> 'a kernel_scheme option" where
  "run [] s = Some s"
| "run (e # es) s = (if allowed e s then Option.bind (exec e s) (run es) else None)"

lemma run_reachable: "run es s = Some s' \<Longrightarrow> reachable s0 s \<Longrightarrow> reachable s0 s'"
proof (induction es arbitrary: s)
  case (Cons e es)
  then obtain s1 where "allowed e s" "exec e s = Some s1" "run es s1 = Some s'"
    by (auto split: if_splits bind_splits)
  with Cons show ?case by (auto intro: reachable.step kstep.intros)
qed simp

lemma kernel_ok_boot: "0 < n \<Longrightarrow> kernel_ok (boot_kernel n) (boot_queues n)"
  using sched_ok_boot [of n]
  by (auto simp: kernel_ok_def sems_ok_def mutex_ok_def boot_kernel_def boot_queues_def)

text \<open>Process 1 holds mutex 0, process 2 waits for it, and process 1 is running again.\<close>

definition contended :: "event list" where
  "contended = [Yield, Lock 0, Yield, Lock 0, Yield]"

lemma contended_run:
  obtains s where "run contended (boot_kernel 3) = Some s" "reachable (boot_kernel 3) s"
    "current s = Some 1" "owner (mutexes s 0) = Some 1" "lock_times (mutexes s 0) = 1"
    "cdl (links s) (MutexHead 0) (map RqNode [2])" "allowed (Unlock 0) s"
proof -
  have "map_option (\<lambda>s. (current s, owner (mutexes s 0), lock_times (mutexes s 0),
      cdl (links s) (MutexHead 0) (map RqNode [2]))) (run contended (boot_kernel 3))
    = Some (Some 1, Some 1, 1, True)"
    by code_simp
  then obtain s where s: "run contended (boot_kernel 3) = Some s" "current s = Some 1"
    "owner (mutexes s 0) = Some 1" "lock_times (mutexes s 0) = 1"
    "cdl (links s) (MutexHead 0) (map RqNode [2])"
    by (auto simp: map_option_case split: option.splits)
  moreover have "reachable (boot_kernel 3) s" by (rule run_reachable [OF s(1) reachable.start])
  ultimately show ?thesis using that by (simp add: allowed_def)
qed

lemma qrep_queue:
  assumes "cdl h c (map RqNode ws)" "is_anchor c" "qrep h Q"
  shows "Q c = ws"
proof -
  have "inj RqNode" by (simp add: inj_def)
  then show ?thesis
    using cdl_unique [OF qrepD(1) [OF assms(3,2)] assms(1)] by (simp only: inj_map_eq_map)
qed

text \<open>C1: in every state reachable from a well-formed kernel, every allowed scheduler event
  (tick, yield, sleep, semaphore and mutex operations) completes without following a wild
  pointer, keeps the kernel well formed, and neither loses nor duplicates a process.\<close>

theorem kernel_never_stuck:
  assumes "kernel_ok s0 Q0" "reachable s0 s" "allowed e s"
  shows "\<exists>s' Q'. exec e s = Some s' \<and> kernel_ok s' Q' \<and> pool Q' = pool Q0"
proof -
  obtain Q where "kernel_ok s Q" "pool Q = pool Q0" using reachable_ok [OF assms(2,1)] by blast
  with exec_ok [OF _ assms(3)] show ?thesis by fastforce
qed

theorem kernel_never_stuck_witness:
  "\<exists>s s' Q'. run contended (boot_kernel 3) = Some s \<and> exec (Unlock 0) s = Some s' \<and>
    kernel_ok s' Q' \<and> pool Q' = pool (boot_queues 3)"
proof -
  obtain s where s: "run contended (boot_kernel 3) = Some s" "reachable (boot_kernel 3) s"
    "allowed (Unlock 0) s" by (rule contended_run)
  with kernel_never_stuck [OF kernel_ok_boot s(2,3)] show ?thesis by auto
qed

text \<open>C9: releasing a contended mutex hands it to the process that has waited longest.  The
  first waiter becomes the owner with a lock count of one and is made ready, the others keep
  their order, and no other mutex changes.\<close>

theorem mutex_unlock_hands_over_fifo:
  assumes ok: "kernel_ok s0 Q0" "reachable s0 s"
    and own: "owner (mutexes s m) = Some c" "current s = Some c" "lock_times (mutexes s m) = 1"
    and wait: "cdl (links s) (MutexHead m) (map RqNode (t # ts))"
  shows "\<exists>s'. mutex_unlock m s = Some s' \<and>
    mutexes s' = (mutexes s)(m := \<lparr>lock_times = 1, owner = Some t\<rparr>) \<and>
    t_state (tasks s' t) = TASK_RUNNING \<and> cdl (links s') (MutexHead m) (map RqNode ts)"
proof -
  obtain Q where Q: "kernel_ok s Q" using reachable_ok [OF ok(2,1)] by blast
  have "qrep (links s) Q" using kernel_okD(1) [OF Q] by (auto elim: sched_okD)
  then have Qm: "Q (MutexHead m) = t # ts" using qrep_queue [OF wait] by simp
  let ?Q = "amove t ReadyHead Q"
  obtain s' where s': "mutex_unlock m s = Some s'" "kernel_ok s' ?Q" "?Q (MutexHead m) = ts"
    "mutexes s' = (mutexes s)(m := \<lparr>lock_times = 1, owner = Some t\<rparr>)"
    using mutex_unlock_handoff [OF Q _ own(2,3) Qm] own by auto
  have q': "qrep (links s') ?Q" "states_ok (tasks s') ?Q"
    using kernel_okD(1) [OF s'(2)] by (auto elim: sched_okD)
  have "cdl (links s') (MutexHead m) (map RqNode ts)" using qrepD(1) [OF q'(1), of "MutexHead m"] s'(3) by simp
  moreover have "t \<in> set (?Q ReadyHead)" by (simp add: amove_def)
  ultimately show ?thesis using s' states_ok_running [OF q'(2)] by blast
qed

theorem mutex_unlock_hands_over_fifo_witness:
  "\<exists>s s'. run contended (boot_kernel 3) = Some s \<and> mutex_unlock 0 s = Some s' \<and>
    owner (mutexes s' 0) = Some 2"
proof -
  obtain s where s: "run contended (boot_kernel 3) = Some s" "reachable (boot_kernel 3) s"
    "current s = Some 1" "owner (mutexes s 0) = Some 1" "lock_times (mutexes s 0) = 1"
    "cdl (links s) (MutexHead 0) (map RqNode [2])" by (rule contended_run)
  with mutex_unlock_hands_over_fifo [OF kernel_ok_boot s(2,4,3,5), of 2 "[]"]
  show ?thesis by auto
qed

text \<open>C2: mutual exclusion.  In every reachable state a mutex has a lock count exactly when it
  has an owner, a free mutex has no waiters, the owner is not among the waiters, a second
  process that locks a held mutex blocks without changing it, and a process that is not the
  owner cannot release it.\<close>

theorem mutex_exclusion:
  assumes ok: "kernel_ok s0 Q0" "reachable s0 s"
  shows "\<exists>ws. cdl (links s) (MutexHead m) (map RqNode ws) \<and>
    (0 < lock_times (mutexes s m) \<longleftrightarrow> owner (mutexes s m) \<noteq> None) \<and>
    (owner (mutexes s m) = None \<longrightarrow> ws = []) \<and>
    (\<forall>t. owner (mutexes s m) = Some t \<longrightarrow> t \<notin> set ws) \<and>
    (\<forall>t. owner (mutexes s m) = Some t \<longrightarrow> current s \<noteq> Some t \<longrightarrow>
       mutex_unlock m s = Some s \<and>
       (allowed (Lock m) s \<longrightarrow> (\<exists>s' c. current s = Some c \<and> mutex_lock m s = Some s' \<and>
          mutexes s' = mutexes s \<and> t_state (tasks s' c) = TASK_WAITING \<and>
          cdl (links s') (MutexHead m) (map RqNode (ws @ [c])))))"
proof -
  obtain Q where Q: "kernel_ok s Q" using reachable_ok [OF ok(2,1)] by blast
  have s: "sched_ok s Q" using Q by (rule kernel_okD)
  then obtain c where c: "current s = Some c" "c \<in> set (Q ReadyHead)" and q: "qrep (links s) Q"
    by (auto elim: sched_okD)
  have mx: "mutex_ok (mutexes s m) (Q (MutexHead m))" using Q by (rule kernel_okD)
  have blocked: "\<exists>s'. mutex_lock m s = Some s' \<and> mutexes s' = mutexes s \<and>
      t_state (tasks s' c) = TASK_WAITING \<and> cdl (links s') (MutexHead m) (map RqNode (Q (MutexHead m) @ [c]))"
    if "owner (mutexes s m) = Some t" "current s \<noteq> Some t" "allowed (Lock m) s" for t
  proof -
    let ?Q = "amove c (MutexHead m) Q"
    have hyps: "idle_task s \<noteq> Some c" "t \<noteq> c" using that c(1) by (auto simp: allowed_def)
    obtain s' where s': "mutex_lock m s = Some s'" "kernel_ok s' ?Q" "mutexes s' = mutexes s"
      using mutex_lock_blocks [OF Q c(1) hyps(1) \<open>owner (mutexes s m) = Some t\<close> hyps(2)] by blast
    have q': "qrep (links s') ?Q" "states_ok (tasks s') ?Q"
      using kernel_okD(1) [OF s'(2)] by (auto elim: sched_okD)
    have notin: "c \<notin> set (Q (MutexHead m))" using ready_notin [OF s c(2)] by auto
    have "t_state (tasks s' c) = anchor_state (MutexHead m)"
      using q'(2) unfolding states_ok_def by (rule allE [where x = "MutexHead m"]) (simp add: amove_def)
    moreover have "?Q (MutexHead m) = Q (MutexHead m) @ [c]" using notin by (simp add: amove_def)
    ultimately show ?thesis using s' qrepD(1) [OF q'(1), of "MutexHead m"] by auto
  qed
  show ?thesis
  proof (intro exI [of _ "Q (MutexHead m)"] conjI allI impI)
    show "cdl (links s) (MutexHead m) (map RqNode (Q (MutexHead m)))" using q by (auto intro: qrepD(1))
    show "0 < lock_times (mutexes s m) \<longleftrightarrow> owner (mutexes s m) \<noteq> None"
      using mx by (auto simp: mutex_ok_def)
    show "\<exists>s' ca. current s = Some ca \<and> mutex_lock m s = Some s' \<and> mutexes s' = mutexes s \<and>
        t_state (tasks s' ca) = TASK_WAITING \<and>
        cdl (links s') (MutexHead m) (map RqNode (Q (MutexHead m) @ [ca]))"
      if "owner (mutexes s m) = Some t" "current s \<noteq> Some t" "allowed (Lock m) s" for t
      using blocked [OF that] c(1) by blast
    show "mutex_unlock m s = Some s" if "owner (mutexes s m) = Some t" "current s \<noteq> Some t" for t
      by (rule mutex_unlock_other) (use that in simp)
  qed (use mx in \<open>auto simp: mutex_ok_def\<close>)
qed

theorem mutex_exclusion_witness:
  "\<exists>s ws. run contended (boot_kernel 3) = Some s \<and> owner (mutexes s 0) = Some 1 \<and>
    cdl (links s) (MutexHead 0) (map RqNode ws) \<and> 0 < lock_times (mutexes s 0) \<and> 1 \<notin> set ws"
proof -
  obtain s where s: "run contended (boot_kernel 3) = Some s" "reachable (boot_kernel 3) s"
    "owner (mutexes s 0) = Some 1" by (rule contended_run)
  with mutex_exclusion [OF kernel_ok_boot s(2), of 0] show ?thesis by auto
qed

text \<open>C10: no semaphore wake-up is lost.  In every reachable state the count is never negative,
  a positive count means that nobody waits, and a notification with waiters makes the first
  of them ready and leaves the count alone.\<close>

theorem semaphore_no_lost_wakeup:
  assumes ok: "kernel_ok s0 Q0" "reachable s0 s"
  shows "\<exists>ws. cdl (links s) (SemHead i) (map RqNode ws) \<and> 0 \<le> sem_count s i \<and>
    (0 < sem_count s i \<longrightarrow> ws = []) \<and>
    (case ws of
       [] \<Rightarrow> sem_notify i s = Some (s\<lparr>sem_count := (sem_count s)(i := sem_count s i + 1)\<rparr>)
     | t # ts \<Rightarrow> \<exists>s'. sem_notify i s = Some s' \<and> sem_count s' = sem_count s \<and>
         t_state (tasks s' t) = TASK_RUNNING \<and> cdl (links s') (SemHead i) (map RqNode ts))"
proof -
  obtain Q where Q: "kernel_ok s Q" using reachable_ok [OF ok(2,1)] by blast
  have s: "sched_ok s Q" using Q by (rule kernel_okD)
  then obtain c where c: "current s = Some c" and q: "qrep (links s) Q" by (auto elim: sched_okD)
  have cd: "cdl (links s) (SemHead i) (map RqNode (Q (SemHead i)))" using q by (auto intro: qrepD(1))
  have "case Q (SemHead i) of
       [] \<Rightarrow> sem_notify i s = Some (s\<lparr>sem_count := (sem_count s)(i := sem_count s i + 1)\<rparr>)
     | t # ts \<Rightarrow> \<exists>s'. sem_notify i s = Some s' \<and> sem_count s' = sem_count s \<and>
         t_state (tasks s' t) = TASK_RUNNING \<and> cdl (links s') (SemHead i) (map RqNode ts)"
  proof (cases "Q (SemHead i)")
    case Nil
    then show ?thesis using cdl_empty_iff [OF cd] by (simp add: sem_notify_def)
  next
    case (Cons t ts)
    let ?Q = "amove t ReadyHead Q"
    obtain s' where s': "sem_notify i s = Some s'" "kernel_ok s' ?Q" "?Q (SemHead i) = ts"
      "sem_count s' = sem_count s" using sem_notify_wakes [OF Q Cons c] by blast
    have q': "qrep (links s') ?Q" "states_ok (tasks s') ?Q"
      using kernel_okD(1) [OF s'(2)] by (auto elim: sched_okD)
    have "t \<in> set (?Q ReadyHead)" by (simp add: amove_def)
    then show ?thesis
      using Cons s' states_ok_running [OF q'(2)] qrepD(1) [OF q'(1), of "SemHead i"] by auto
  qed
  then show ?thesis using cd kernel_okD(2) [OF Q] by (auto simp: sems_ok_def)
qed

theorem semaphore_no_lost_wakeup_witness:
  "\<exists>s ws. run contended (boot_kernel 3) = Some s \<and> cdl (links s) (SemHead 5) (map RqNode ws) \<and>
    0 \<le> sem_count s 5"
proof -
  obtain s where s: "run contended (boot_kernel 3) = Some s" "reachable (boot_kernel 3) s"
    by (rule contended_run)
  with semaphore_no_lost_wakeup [OF kernel_ok_boot s(2), of 5] show ?thesis by auto
qed

end
