(* ===== verification/KString.thy ===== *)
theory KString
  imports Prelude
begin

text \<open>
  The byte and string routines of \<open>source/lib/string.c\<close>, on the byte-addressed memory.
  Addresses wrap at 32 bits, as the pointers do.  The string loops stop at a NUL byte and
  are \<open>None\<close> where there is none to find; the counted loops run as many times as the C
  counter takes to reach zero.
\<close>

section \<open>The routines\<close>

primrec memset_loop :: "nat \<Rightarrow> addr \<Rightarrow> uchar \<Rightarrow> mem \<Rightarrow> mem" where
  "memset_loop 0 p c m = m"
| "memset_loop (Suc n) p c m = memset_loop n (p + 1) c (m(p := c))"

definition kmemset :: "addr \<Rightarrow> uchar \<Rightarrow> int \<Rightarrow> mem \<Rightarrow> mem" where
  "kmemset dest c sz m = (if dest = 0 \<or> sz \<le> 0 then m else memset_loop (nat sz) dest c m)"

primrec memcpy_loop :: "nat \<Rightarrow> addr \<Rightarrow> addr \<Rightarrow> mem \<Rightarrow> mem" where
  "memcpy_loop 0 d s m = m"
| "memcpy_loop (Suc n) d s m = memcpy_loop n (d + 1) (s + 1) (m(d := m s))"

definition kmemcpy :: "addr \<Rightarrow> addr \<Rightarrow> int \<Rightarrow> mem \<Rightarrow> mem" where
  "kmemcpy dest src sz m =
     (if dest = 0 \<or> src = 0 \<or> sz \<le> 0 then m else memcpy_loop (nat sz) dest src m)"

primrec memcmp_loop :: "nat \<Rightarrow> addr \<Rightarrow> addr \<Rightarrow> mem \<Rightarrow> int" where
  "memcmp_loop 0 f s m = 0"
| "memcmp_loop (Suc n) f s m = (if m f \<noteq> m s then 1 else memcmp_loop n (f + 1) (s + 1) m)"

text \<open>\<open>while (size--)\<close> without a sign test: a negative size counts down through the wrap-around.\<close>

definition kmemcmp :: "addr \<Rightarrow> addr \<Rightarrow> int \<Rightarrow> mem \<Rightarrow> int" where
  "kmemcmp first second sz m =
     (if first = 0 \<or> second = 0 then 0
      else memcmp_loop (unat (word_of_int sz :: 32 word)) first second m)"

partial_function (option) strcpy_loop :: "addr \<Rightarrow> addr \<Rightarrow> mem \<Rightarrow> mem option" where
  "strcpy_loop d s m =
     (if m s \<noteq> 0 then strcpy_loop (d + 1) (s + 1) (m(d := m s)) else Some (m(d := 0)))"

definition kstrcpy :: "addr \<Rightarrow> addr \<Rightarrow> mem \<Rightarrow> mem option" where
  "kstrcpy dest src m = (if dest = 0 \<or> src = 0 then Some m else strcpy_loop dest src m)"

partial_function (option) strlen_loop :: "addr \<Rightarrow> int \<Rightarrow> mem \<Rightarrow> int option" where
  "strlen_loop p len m = (if m p \<noteq> 0 then strlen_loop (p + 1) (len + 1) m else Some len)"

definition kstrlen :: "addr \<Rightarrow> mem \<Rightarrow> int option" where
  "kstrlen str m = strlen_loop str 0 m"

partial_function (option) strrchr_loop ::
    "addr \<Rightarrow> int \<Rightarrow> addr \<Rightarrow> mem \<Rightarrow> addr option" where
  "strrchr_loop str c pos m =
     (if m str \<noteq> 0
      then strrchr_loop (str + 1) c (if m str = word_of_int c then str else pos) m
      else Some (if c = 0 then str else pos))"

text \<open>The result 0 is the null pointer: no occurrence.\<close>

definition kstrrchr :: "addr \<Rightarrow> int \<Rightarrow> mem \<Rightarrow> addr option" where
  "kstrrchr str c m = strrchr_loop str c 0 m"

declare strcpy_loop.simps [code] strlen_loop.simps [code] strrchr_loop.simps [code]

section \<open>Counted loops\<close>

lemma unat_diff_Suc:
  fixes x p :: "32 word"
  shows "x \<noteq> p \<Longrightarrow> unat (x - (p + 1)) = unat (x - p) - 1"
proof -
  assume "x \<noteq> p"
  then have "x - p \<noteq> 0" by simp
  then have "unat (x - p - 1) = unat (x - p) - 1" by (rule unat_minus_one)
  then show ?thesis by (simp add: algebra_simps)
qed

lemma memset_loop_eq:
  "n \<le> 2 ^ 32 \<Longrightarrow> memset_loop n p c m x = (if unat (x - p) < n then c else m x)"
proof (induction n arbitrary: p m)
  case (Suc n)
  show ?case
  proof (cases "x = p")
    case True
    then show ?thesis using Suc by simp
  next
    case False
    then have "unat (x - p) \<noteq> 0" by (simp add: unat_eq_0)
    with False Suc show ?thesis by (auto simp: unat_diff_Suc)
  qed
qed simp

lemma kmemset_eq:
  assumes "dest \<noteq> 0" "sz \<le> 2 ^ 32"
  shows "kmemset dest c sz m x = (if unat (x - dest) < nat sz then c else m x)"
  using assms by (auto simp: kmemset_def memset_loop_eq nat_le_iff)

text \<open>The bytes from \<open>a\<close> on.\<close>

definition bytes :: "mem \<Rightarrow> addr \<Rightarrow> nat \<Rightarrow> uchar list" where
  "bytes m a n = map (\<lambda>i. m (a + of_nat i)) [0..<n]"

lemma bytes_Suc: "bytes m a (Suc n) = m a # bytes m (a + 1) n"
  by (simp add: bytes_def upt_conv_Cons map_Suc_upt [symmetric] comp_def algebra_simps del: upt_Suc)

lemma bytes_0 [simp]: "bytes m a 0 = []"
  by (simp add: bytes_def)

lemma memcpy_loop_eq:
  assumes "n \<le> 2 ^ 32" and "\<And>i. i < n \<Longrightarrow> n \<le> unat (s + of_nat i - d)"
  shows "memcpy_loop n d s m x = (if unat (x - d) < n then m (s + (x - d)) else m x)"
  using assms
proof (induction n arbitrary: d s m)
  case (Suc n)
  have far: "n \<le> unat ((s + 1) + of_nat i - (d + 1))" if "i < n" for i
    using Suc.prems(2) [of i] that by (simp add: algebra_simps)
  have IH: "memcpy_loop n (d + 1) (s + 1) (m(d := m s)) x
      = (if unat (x - (d + 1)) < n then (m(d := m s)) (s + 1 + (x - (d + 1))) else (m(d := m s)) x)"
    using Suc.prems(1) far by (intro Suc.IH) auto
  have src: "s + (x - d) \<noteq> d" if "unat (x - d) < Suc n"
  proof
    assume "s + (x - d) = d"
    then have "unat (s + of_nat (unat (x - d)) - d) = 0" by simp
    with Suc.prems(2) [OF that] show False by simp
  qed
  show ?case
  proof (cases "x = d")
    case True
    have "s \<noteq> d" using src [of] True by simp
    show ?thesis using True IH Suc.prems(1) \<open>s \<noteq> d\<close> by (auto simp: algebra_simps)
  next
    case False
    then have "unat (x - d) \<noteq> 0" by (simp add: unat_eq_0)
    moreover have "s + 1 + (x - (d + 1)) = s + (x - d)" by (simp add: algebra_simps)
    ultimately show ?thesis using False IH src by (auto simp: unat_diff_Suc)
  qed
qed simp

lemma memcmp_loop_eq: "memcmp_loop n f s m = (if bytes m f n = bytes m s n then 0 else 1)"
  by (induction n arbitrary: f s) (auto simp: bytes_Suc)

section \<open>NUL-terminated strings\<close>

fun cstr :: "mem \<Rightarrow> addr \<Rightarrow> uchar list \<Rightarrow> bool" where
  "cstr m p [] \<longleftrightarrow> m p = 0"
| "cstr m p (b # bs) \<longleftrightarrow> m p = b \<and> b \<noteq> 0 \<and> cstr m (p + 1) bs"

lemma strlen_loop_cstr: "cstr m p bs \<Longrightarrow> strlen_loop p n m = Some (n + int (length bs))"
  by (induction bs arbitrary: p n) (simp_all add: strlen_loop.simps)

lemma kstrlen_cstr: "cstr m p bs \<Longrightarrow> kstrlen p m = Some (int (length bs))"
  by (simp add: kstrlen_def strlen_loop_cstr)

lemma cstr_bytes: "cstr m p bs \<Longrightarrow> bytes m p (length bs) = bs"
  by (induction bs arbitrary: p) (auto simp: bytes_Suc)

lemma cstr_cong:
  "cstr m p bs \<Longrightarrow> (\<And>i. i \<le> length bs \<Longrightarrow> m' (p + of_nat i) = m (p + of_nat i)) \<Longrightarrow> cstr m' p bs"
proof (induction bs arbitrary: p)
  case Nil
  from Nil(1) Nil(2) [of 0] show ?case by simp
next
  case (Cons b bs)
  have "m' (p + 1 + of_nat i) = m (p + 1 + of_nat i)" if "i \<le> length bs" for i
    using Cons.prems(2) [of "Suc i"] that by (simp add: algebra_simps)
  with Cons.prems(2) [of 0] Cons show ?case by auto
qed

text \<open>The copy loop writes exactly the string and its terminator.\<close>

lemma strcpy_loop_cstr:
  assumes "cstr m s bs" "length bs < 2 ^ 32"
    and "\<And>i. i \<le> length bs \<Longrightarrow> length bs < unat (s + of_nat i - d)"
  shows "\<exists>m'. strcpy_loop d s m = Some m' \<and> cstr m' d bs \<and>
    (\<forall>x. length bs < unat (x - d) \<longrightarrow> m' x = m x)"
  using assms
proof (induction bs arbitrary: d s m)
  case Nil
  then show ?case by (auto simp: strcpy_loop.simps)
next
  case (Cons b bs)
  let ?m = "m(d := m s)"
  have ne: "s + of_nat i \<noteq> d" if "i \<le> Suc (length bs)" for i
    using Cons.prems(3) [of i] that by auto
  have "cstr ?m (s + 1) bs"
  proof (rule cstr_cong)
    show "cstr m (s + 1) bs" using Cons.prems(1) by simp
    show "?m (s + 1 + of_nat i) = m (s + 1 + of_nat i)" if "i \<le> length bs" for i
      using ne [of "Suc i"] that by (simp add: algebra_simps)
  qed
  moreover have "length bs < unat (s + 1 + of_nat i - (d + 1))" if "i \<le> length bs" for i
    using Cons.prems(3) [of i] that by (simp add: algebra_simps)
  ultimately obtain m' where m': "strcpy_loop (d + 1) (s + 1) ?m = Some m'" "cstr m' (d + 1) bs"
    and keep: "\<And>x. length bs < unat (x - (d + 1)) \<Longrightarrow> m' x = ?m x"
    using Cons.IH [of ?m "s + 1" "d + 1"] Cons.prems(2)
    by (metis Suc_lessD length_Cons)
  have "unat (d - (d + 1)) = 2 ^ 32 - 1" by (simp add: unat_eq_nat_uint uint_word_ariths)
  then have "m' d = m s" using keep [of d] Cons.prems(2) by simp
  moreover have "m' x = m x" if "length (b # bs) < unat (x - d)" for x
  proof -
    have "x \<noteq> d" using that by auto
    then show ?thesis using keep [of x] that by (simp add: unat_diff_Suc)
  qed
  ultimately show ?case using m' Cons.prems(1) by (auto simp: strcpy_loop.simps [of d s m])
qed

lemma strrchr_loop_zero:
  "cstr m p bs \<Longrightarrow> strrchr_loop p 0 l m = Some (p + of_nat (length bs))"
  by (induction bs arbitrary: p l) (simp_all add: strrchr_loop.simps algebra_simps)

lemma strrchr_loop_absent:
  "cstr m p bs \<Longrightarrow> word_of_int c \<notin> set bs \<Longrightarrow> c \<noteq> 0 \<Longrightarrow> strrchr_loop p c l m = Some l"
  by (induction bs arbitrary: p l) (auto simp: strrchr_loop.simps)

text \<open>The last occurrence: a prefix, the character, and a tail without it.\<close>

lemma strrchr_loop_last:
  "cstr m p (as @ word_of_int c # bs) \<Longrightarrow> word_of_int c \<notin> set bs \<Longrightarrow> c \<noteq> 0 \<Longrightarrow>
   strrchr_loop p c l m = Some (p + of_nat (length as))"
proof (induction as arbitrary: p l)
  case Nil
  then have "strrchr_loop (p + 1) c p m = Some p" by (auto intro!: strrchr_loop_absent)
  with Nil show ?case by (simp add: strrchr_loop.simps [of p])
next
  case (Cons a as)
  then show ?case by (simp add: strrchr_loop.simps [of p] algebra_simps)
qed

section \<open>Properties\<close>

text \<open>copying a NUL-terminated string to a place that does not overlap it.  The call
  returns, the destination holds the same string, of the same length, the source still does,
  and no byte beyond the destination string and its terminator is written.\<close>

theorem kstrcpy_copies:
  assumes "cstr m src bs" "dest \<noteq> 0" "src \<noteq> 0" "length bs < 2 ^ 32"
    and "\<And>i. i \<le> length bs \<Longrightarrow> length bs < unat (src + of_nat i - dest)"
  shows "\<exists>m'. kstrcpy dest src m = Some m' \<and> cstr m' dest bs \<and> cstr m' src bs
    \<and> kstrlen dest m' = Some (int (length bs))
    \<and> (\<forall>x. length bs < unat (x - dest) \<longrightarrow> m' x = m x)"
proof -
  obtain m' where m': "strcpy_loop dest src m = Some m'" "cstr m' dest bs"
    "\<And>x. length bs < unat (x - dest) \<Longrightarrow> m' x = m x"
    using strcpy_loop_cstr [of m src bs dest] assms by auto
  moreover have "cstr m' src bs"
    using assms(1) by (rule cstr_cong) (use assms(5) m'(3) in auto)
  ultimately show ?thesis using assms by (auto simp: kstrcpy_def kstrlen_cstr)
qed

definition demo_string :: mem where
  "demo_string = (\<lambda>_. 7)(0x100 := 104, 0x101 := 105, 0x102 := 0)"

lemma kstrcpy_copies_witness:
  "\<exists>m'. kstrcpy 0x200 0x100 demo_string = Some m' \<and> cstr m' 0x200 [104, 105] \<and> m' 0x203 = 7"
proof -
  have c: "cstr demo_string 0x100 [104, 105]" by code_simp
  have far: "length [104 :: uchar, 105] < unat (0x100 + of_nat i - 0x200 :: addr)"
    if "i \<le> length [104 :: uchar, 105]" for i
  proof -
    have "i = 0 \<or> i = 1 \<or> i = 2" using that by auto
    then show ?thesis by (elim disjE) (simp add: unat_eq_nat_uint uint_word_ariths)+
  qed
  obtain m' where m': "kstrcpy 0x200 0x100 demo_string = Some m'" "cstr m' 0x200 [104, 105]"
    "\<forall>x. length [104 :: uchar, 105] < unat (x - 0x200) \<longrightarrow> m' x = demo_string x"
    using kstrcpy_copies [OF c _ _ _ far] by auto
  have "m' 0x203 = demo_string 0x203" by (rule m'(3) [rule_format]) simp
  then show ?thesis using m' by (auto simp: demo_string_def)
qed

text \<open>the block copy.  For a source that does not overlap the destination, \<open>kmemcpy\<close> makes
  the \<open>n\<close> bytes at the destination those of the source, keeps every other byte, and
  \<open>kmemcmp\<close> then finds the two blocks equal.\<close>

theorem kmemcpy_copies:
  assumes "dest \<noteq> 0" "src \<noteq> 0" "0 \<le> n" "n < 2 ^ 31"
    and "\<And>i. i < nat n \<Longrightarrow> nat n \<le> unat (src + of_nat i - dest)"
  shows "bytes (kmemcpy dest src n m) dest (nat n) = bytes m src (nat n)
    \<and> (\<forall>x. nat n \<le> unat (x - dest) \<longrightarrow> kmemcpy dest src n m x = m x)
    \<and> kmemcmp dest src n (kmemcpy dest src n m) = 0"
proof -
  let ?m = "kmemcpy dest src n m"
  have eq: "?m x = (if unat (x - dest) < nat n then m (src + (x - dest)) else m x)" for x
    using assms memcpy_loop_eq [of "nat n" src dest m x] by (auto simp: kmemcpy_def)
  have small: "unat (of_nat i :: addr) = i" if "i < nat n" for i
    using that assms(4) by (simp add: unat_of_nat zless_nat_eq_int_zless)
  have d: "bytes ?m dest (nat n) = bytes m src (nat n)"
    by (simp add: bytes_def eq small)
  have "?m (src + of_nat i) = m (src + of_nat i)" if "i < nat n" for i
    using assms(5) [OF that] unfolding eq by (simp only: linorder_not_less if_False split: if_split) simp
  then have "bytes ?m src (nat n) = bytes m src (nat n)" by (simp add: bytes_def)
  moreover have "unat (word_of_int n :: uint) = nat n"
    using assms(3,4) by (simp add: unat_eq_nat_uint uint_word_of_int_eq take_bit_int_eq_self)
  ultimately show ?thesis using d assms(1,2) by (simp add: eq kmemcmp_def memcmp_loop_eq)
qed

lemma kmemcpy_copies_witness:
  "bytes (kmemcpy 0x200 0x100 2 demo_string) 0x200 2 = [104, 105]
   \<and> kmemcmp 0x200 0x100 2 (kmemcpy 0x200 0x100 2 demo_string) = 0"
proof -
  have far: "nat 2 \<le> unat (0x100 + of_nat i - 0x200 :: addr)" if "i < nat 2" for i
  proof -
    have "i = 0 \<or> i = 1" using that by auto
    then show ?thesis by (elim disjE) (simp add: unat_eq_nat_uint uint_word_ariths)+
  qed
  have "bytes demo_string 0x100 2 = [104, 105]" by code_simp
  then show ?thesis using kmemcpy_copies [OF _ _ _ _ far, where m = demo_string] by simp
qed

end
