(* ===== verification/Bitmap.thy ===== *)
theory Bitmap
  imports KString
begin

text \<open>
  The physical page map of \<open>source/mm/bitmap.c\<close>: one bit per 4 KB page, eight pages per
  byte, set for a page in use.  The map lies in memory at \<open>BITMAP_START\<close>; the layout
  table that the boot loader leaves at \<open>0x10000\<close> is read from the same memory.
\<close>

section \<open>The map\<close>

definition PAGE_SIZE :: int where "PAGE_SIZE = 4096"
definition BITMAP_START :: addr where "BITMAP_START = 0x10400"
definition FREE_MEM_START :: int where "FREE_MEM_START = 0x601000"

record bit_map_t =
  nbits :: int
  base :: addr

definition boot_bitmap :: bit_map_t where
  "boot_bitmap = \<lparr>nbits = 0, base = BITMAP_START\<rparr>"

definition bitmap_set_bytes :: "bit_map_t \<Rightarrow> int \<Rightarrow> int \<Rightarrow> int \<Rightarrow> mem \<Rightarrow> mem" where
  "bitmap_set_bytes b sbytes nbytes used m =
     kmemset (base b + word_of_int sbytes) (if used \<noteq> 0 then 0xff else 0x00) nbytes m"

text \<open>One round of the loop of \<open>bitmap_set_bits\<close>: the bit of page \<open>i\<close> (\<open>index + move\<close>).\<close>

definition put_bit :: "bit_map_t \<Rightarrow> int \<Rightarrow> int \<Rightarrow> mem \<Rightarrow> mem" where
  "put_bit b i v m = (let a = base b + word_of_int (cdiv i 8) in
     if v \<noteq> 0 then m(a := m a OR push_bit (nat (cmod i 8)) 1)
     else m(a := m a AND NOT (push_bit (nat (cmod i 8)) 1)))"

primrec set_bits_loop :: "nat \<Rightarrow> bit_map_t \<Rightarrow> int \<Rightarrow> int \<Rightarrow> int \<Rightarrow> int \<Rightarrow> mem \<Rightarrow> mem" where
  "set_bits_loop 0 b index v up move m = m"
| "set_bits_loop (Suc n) b index v up move m =
     set_bits_loop n b index v up (if up \<noteq> 0 then move + 1 else move - 1)
       (put_bit b (index + move) v m)"

text \<open>\<open>do ... while (--count > 0)\<close> runs once even for a count that is not positive.\<close>

definition bitmap_set_bits :: "bit_map_t \<Rightarrow> int \<Rightarrow> int \<Rightarrow> int \<Rightarrow> int \<Rightarrow> mem \<Rightarrow> mem" where
  "bitmap_set_bits b index v count up m =
     set_bits_loop (nat (max 1 count)) b index v up (if up = 0 then - 1 else 0) m"

definition bitmap_get_bit :: "bit_map_t \<Rightarrow> int \<Rightarrow> mem \<Rightarrow> int" where
  "bitmap_get_bit b index m =
     (if m (base b + word_of_int (cdiv index 8)) AND push_bit (nat (cmod index 8)) 1 \<noteq> 0
      then 1 else 0)"

function bitmap_alloc_loop :: "bit_map_t \<Rightarrow> int \<Rightarrow> int \<Rightarrow> int \<Rightarrow> mem \<Rightarrow> mem \<times> int" where
  "bitmap_alloc_loop b count cur begn m =
     (if cur < nbits b then
        if bitmap_get_bit b cur m \<noteq> 0 then bitmap_alloc_loop b count (cur + 1) (cur + 1) m
        else if cur + 1 - begn \<ge> count then (bitmap_set_bits b begn 1 count 1 m, begn)
        else bitmap_alloc_loop b count (cur + 1) begn m
      else (m, - 1))"
  by pat_completeness auto
termination
  by (relation "measure (\<lambda>(b, count, cur, begn, m). nat (nbits b - cur))") auto

declare bitmap_alloc_loop.simps [simp del]

definition bitmap_alloc_bits :: "bit_map_t \<Rightarrow> int \<Rightarrow> mem \<Rightarrow> mem \<times> int" where
  "bitmap_alloc_bits b count m = bitmap_alloc_loop b count 0 0 m"

definition bitmap_free_bits :: "bit_map_t \<Rightarrow> addr \<Rightarrow> int \<Rightarrow> mem \<Rightarrow> mem" where
  "bitmap_free_bits b a count m = bitmap_set_bits b (uint a div PAGE_SIZE) 0 count 1 m"

section \<open>Building the map from the memory layout\<close>

definition load64 :: "mem \<Rightarrow> addr \<Rightarrow> 64 word" where
  "load64 m a = ucast (load32 m a) OR push_bit 32 (ucast (load32 m (a + 4)))"

record mem_layout_t =
  start :: int
  size_of :: int
  kind :: uint

definition layout_entry :: "mem \<Rightarrow> addr \<Rightarrow> mem_layout_t" where
  "layout_entry m a =
     \<lparr>start = sint (load64 m a), size_of = sint (load64 m (a + 8)), kind = load32 m (a + 16)\<rparr>"

text \<open>The body of the \<open>do\<close> loop for one entry; the two early \<open>continue\<close>s change nothing.\<close>

definition free_region :: "bit_map_t \<Rightarrow> mem_layout_t \<Rightarrow> mem \<Rightarrow> mem" where
  "free_region b e m =
     (if kind e \<noteq> 1 then m
      else if start e + size_of e \<le> FREE_MEM_START then m
      else
        let first = (if start e < FREE_MEM_START
              then word_of_int (cdiv (FREE_MEM_START + (PAGE_SIZE - 1)) PAGE_SIZE)
              else word_of_int (cdiv (start e + (PAGE_SIZE - 1)) PAGE_SIZE)) :: uint;
            (m, first) = (if first mod 8 \<noteq> 0
              then (bitmap_set_bits b (sint first) 0 (sint (8 - first mod 8)) 1 m, (first + 7) div 8)
              else (m, first div 8));
            end = word_of_int (cdiv (start e + size_of e) PAGE_SIZE) :: uint;
            m = (if end mod 8 \<noteq> 0 then bitmap_set_bits b (sint end) 0 (sint (end mod 8)) 0 m else m);
            end = end div 8;
            nbytes = end - first
        in bitmap_set_bytes b (sint first) (sint nbytes) 0 m)"

partial_function (option) layout_loop ::
    "bit_map_t \<Rightarrow> addr \<Rightarrow> uint \<Rightarrow> mem \<Rightarrow> (mem \<times> uint) option" where
  "layout_loop b a nsize m =
     (let e = layout_entry m a;
          nsize = nsize + word_of_int (size_of e);
          m = free_region b e m;
          a = a + 20
      in if start (layout_entry m a) \<noteq> 0 then layout_loop b a nsize m else Some (m, nsize))"

definition bitmap_init :: "bit_map_t \<Rightarrow> mem \<Rightarrow> (bit_map_t \<times> mem) option" where
  "bitmap_init b m = do {
     let m = bitmap_set_bytes b 0 (128 * 1024) 1 m;
     (m, nsize) \<leftarrow> layout_loop b 0x10000 0 m;
     let pages = (if uint nsize mod PAGE_SIZE = 0 then uint nsize div PAGE_SIZE
                  else uint (nsize + word_of_int (PAGE_SIZE - 1)) div PAGE_SIZE);
     Some (b\<lparr>nbits := pages\<rparr>, m)
   }"

declare layout_loop.simps [code]

section \<open>Pages as a predicate\<close>

text \<open>The abstraction: page \<open>i\<close> is in use.  Below 2 ^ 20 the pages have bits of their own.\<close>

definition page_used :: "bit_map_t \<Rightarrow> mem \<Rightarrow> int \<Rightarrow> bool" where
  "page_used b m i \<longleftrightarrow> bit (m (base b + word_of_int (i div 8))) (nat (i mod 8))"

definition is_page :: "int \<Rightarrow> bool" where
  "is_page i \<longleftrightarrow> 0 \<le> i \<and> i < 2 ^ 20"

lemma is_page_div: "is_page i \<Longrightarrow> cdiv i 8 = i div 8" "is_page i \<Longrightarrow> cmod i 8 = i mod 8"
  by (simp_all add: is_page_def)

lemma get_bit_used: "is_page i \<Longrightarrow> bitmap_get_bit b i m = (if page_used b m i then 1 else 0)"
  by (simp add: bitmap_get_bit_def page_used_def is_page_div and_exp_eq_0_iff_not_bit)

lemma byte_inj:
  assumes "0 \<le> x" "x < 2 ^ 17" "0 \<le> y" "y < 2 ^ 17"
  shows "(word_of_int x :: 32 word) = word_of_int y \<longleftrightarrow> x = y"
  using assms by (simp add: word_of_int_eq_iff take_bit_int_eq_self)

lemma page_byte: "is_page i \<Longrightarrow> 0 \<le> i div 8 \<and> i div 8 < 2 ^ 17"
  by (auto simp: is_page_def)

lemma page_used_put_bit:
  assumes "is_page i" "is_page j"
  shows "page_used b (put_bit b i v m) j = (if j = i then v \<noteq> 0 else page_used b m j)"
proof -
  have j: "nat (j mod 8) < 8" by (simp add: nat_less_iff)
  have same: "nat (j mod 8) = nat (i mod 8) \<longleftrightarrow> j = i" if "j div 8 = i div 8"
    using that by (metis eq_nat_nat_iff mult_div_mod_eq pos_mod_sign zero_less_numeral)
  have addr: "(word_of_int (j div 8) :: 32 word) = word_of_int (i div 8) \<longleftrightarrow> j div 8 = i div 8"
    using page_byte [OF assms(1)] page_byte [OF assms(2)] by (intro byte_inj) auto
  show ?thesis
    using same j by (auto simp: page_used_def put_bit_def is_page_div assms addr Let_def bit_simps)
qed

text \<open>The bytes of the map; the routines touch no other.\<close>

definition in_map :: "bit_map_t \<Rightarrow> addr \<Rightarrow> bool" where
  "in_map b x \<longleftrightarrow> uint (x - base b) < 2 ^ 17"

lemma byte_in_map: "0 \<le> x \<Longrightarrow> x < 2 ^ 17 \<Longrightarrow> in_map b (base b + word_of_int x)"
  by (simp add: in_map_def take_bit_int_eq_self uint_word_of_int_eq)

lemma put_bit_frame: "is_page i \<Longrightarrow> \<not> in_map b x \<Longrightarrow> put_bit b i v m x = m x"
  using byte_in_map [of "i div 8" b] page_byte [of i]
  by (auto simp: put_bit_def is_page_div Let_def)

section \<open>Runs of pages\<close>

lemma set_bits_loop_up:
  assumes "\<And>k. 0 \<le> k \<Longrightarrow> k < int n \<Longrightarrow> is_page (i + mv + k)"
  shows "is_page j \<Longrightarrow> page_used b (set_bits_loop n b i v 1 mv m) j =
     (if i + mv \<le> j \<and> j < i + mv + int n then v \<noteq> 0 else page_used b m j)"
    and "\<not> in_map b x \<Longrightarrow> set_bits_loop n b i v 1 mv m x = m x"
  using assms
proof (induction n arbitrary: mv m)
  case (Suc n)
  {
    case 1
    have "is_page (i + mv)" using 1(2) [of 0] by simp
    moreover have "is_page (i + (mv + 1) + k)" if "0 \<le> k" "k < int n" for k
      using 1(2) [of "k + 1"] that by (simp add: algebra_simps)
    ultimately show ?case
      using 1(1) Suc(1) [of "mv + 1" "put_bit b (i + mv) v m"] by (auto simp: page_used_put_bit)
  next
    case 2
    have "is_page (i + mv)" using 2(2) [of 0] by simp
    moreover have "is_page (i + (mv + 1) + k)" if "0 \<le> k" "k < int n" for k
      using 2(2) [of "k + 1"] that by (simp add: algebra_simps)
    ultimately show ?case
      using 2(1) Suc(2) [of "mv + 1"] by (auto simp: put_bit_frame)
  }
qed auto

lemma set_bits_loop_down:
  assumes "\<And>k. 0 \<le> k \<Longrightarrow> k < int n \<Longrightarrow> is_page (i + mv - k)"
  shows "is_page j \<Longrightarrow> page_used b (set_bits_loop n b i v 0 mv m) j =
     (if i + mv - int n < j \<and> j \<le> i + mv then v \<noteq> 0 else page_used b m j)"
    and "\<not> in_map b x \<Longrightarrow> set_bits_loop n b i v 0 mv m x = m x"
  using assms
proof (induction n arbitrary: mv m)
  case (Suc n)
  {
    case 1
    have "is_page (i + mv)" using 1(2) [of 0] by simp
    moreover have "is_page (i + (mv - 1) - k)" if "0 \<le> k" "k < int n" for k
      using 1(2) [of "k + 1"] that by (simp add: algebra_simps)
    ultimately show ?case
      using 1(1) Suc(1) [of "mv - 1" "put_bit b (i + mv) v m"] by (auto simp: page_used_put_bit)
  next
    case 2
    have "is_page (i + mv)" using 2(2) [of 0] by simp
    moreover have "is_page (i + (mv - 1) - k)" if "0 \<le> k" "k < int n" for k
      using 2(2) [of "k + 1"] that by (simp add: algebra_simps)
    ultimately show ?case
      using 2(1) Suc(2) [of "mv - 1"] by (auto simp: put_bit_frame)
  }
qed auto

definition pages_ok :: "int \<Rightarrow> int \<Rightarrow> bool" where
  "pages_ok i n \<longleftrightarrow> 0 \<le> i \<and> 0 < n \<and> i + n \<le> 2 ^ 20"

lemma set_bits_up:
  assumes "pages_ok i n"
  shows "is_page j \<Longrightarrow> page_used b (bitmap_set_bits b i v n 1 m) j =
      (if i \<le> j \<and> j < i + n then v \<noteq> 0 else page_used b m j)"
    and "\<not> in_map b x \<Longrightarrow> bitmap_set_bits b i v n 1 m x = m x"
  using set_bits_loop_up [of "nat n" i 0] assms
  by (auto simp: bitmap_set_bits_def pages_ok_def is_page_def max_def)

lemma set_bits_down:
  assumes "pages_ok (i - n) n"
  shows "is_page j \<Longrightarrow> page_used b (bitmap_set_bits b i v n 0 m) j =
      (if i - n \<le> j \<and> j < i then v \<noteq> 0 else page_used b m j)"
    and "\<not> in_map b x \<Longrightarrow> bitmap_set_bits b i v n 0 m x = m x"
  using set_bits_loop_down [of "nat n" i "- 1"] assms
  by (auto simp: bitmap_set_bits_def pages_ok_def is_page_def max_def)

section \<open>Allocation is first fit\<close>

definition free_run :: "bit_map_t \<Rightarrow> mem \<Rightarrow> int \<Rightarrow> int \<Rightarrow> bool" where
  "free_run b m i n \<longleftrightarrow> (\<forall>j. i \<le> j \<and> j < i + n \<longrightarrow> \<not> page_used b m j)"

definition map_ok :: "bit_map_t \<Rightarrow> bool" where
  "map_ok b \<longleftrightarrow> 0 \<le> nbits b \<and> nbits b \<le> 2 ^ 20"

text \<open>What an allocation returns: the first free run, now in use, or -1 when there is none.\<close>

definition first_fit :: "bit_map_t \<Rightarrow> int \<Rightarrow> mem \<Rightarrow> mem \<times> int \<Rightarrow> bool" where
  "first_fit b n m r \<longleftrightarrow>
     (if snd r = - 1
      then fst r = m \<and> (\<forall>i. 0 \<le> i \<and> i + n \<le> nbits b \<longrightarrow> \<not> free_run b m i n)
      else 0 \<le> snd r \<and> snd r + n \<le> nbits b \<and> free_run b m (snd r) n
        \<and> (\<forall>i. 0 \<le> i \<and> i < snd r \<longrightarrow> \<not> free_run b m i n)
        \<and> fst r = bitmap_set_bits b (snd r) 1 n 1 m)"

lemma alloc_loop_first_fit:
  assumes "0 \<le> begn" "begn \<le> cur" "cur \<le> nbits b" "cur - begn < n" "map_ok b"
    and "free_run b m begn (cur - begn)"
    and "\<forall>i. 0 \<le> i \<and> i < begn \<longrightarrow> \<not> free_run b m i n"
  shows "first_fit b n m (bitmap_alloc_loop b n cur begn m)"
  using assms
proof (induction b n cur begn m rule: bitmap_alloc_loop.induct)
  case (1 b n cur begn m)
  have page: "is_page cur" if "cur < nbits b"
    using 1(3-) that by (auto simp: is_page_def map_ok_def)
  consider "nbits b \<le> cur" | "cur < nbits b" "page_used b m cur"
    | "cur < nbits b" "\<not> page_used b m cur" "n \<le> cur + 1 - begn"
    | "cur < nbits b" "\<not> page_used b m cur" "cur + 1 - begn < n"
    by linarith
  then show ?case
  proof cases
    case 1
    then show ?thesis
      using "1.prems" by (subst bitmap_alloc_loop.simps) (auto simp: first_fit_def)
  next
    case 2
    have "\<not> free_run b m i n" if "0 \<le> i" "i < cur + 1" for i
    proof (cases "i < begn")
      case False
      then show ?thesis using 2 that "1.prems" by (auto simp: free_run_def intro!: exI [of _ cur])
    qed (use that "1.prems" in auto)
    then have "first_fit b n m (bitmap_alloc_loop b n (cur + 1) (cur + 1) m)"
      using 2 page "1.prems" by (intro "1.IH"(1)) (auto simp: get_bit_used free_run_def)
    then show ?thesis using 2 page by (subst bitmap_alloc_loop.simps) (simp add: get_bit_used)
  next
    case 3
    have n: "n = cur + 1 - begn" using 3 "1.prems" by linarith
    have "free_run b m begn n"
      using 3 "1.prems" unfolding free_run_def n by (metis add_diff_cancel_left' diff_add_cancel
          less_add_one linorder_not_less order_le_less zless_add1_eq)
    then show ?thesis using 3 page n "1.prems"
      by (subst bitmap_alloc_loop.simps) (simp add: get_bit_used first_fit_def)
  next
    case 4
    have "free_run b m begn (cur + 1 - begn)"
      using 4 "1.prems" unfolding free_run_def by (smt (verit))
    then have "first_fit b n m (bitmap_alloc_loop b n (cur + 1) begn m)"
      using 4 page "1.prems" by (intro "1.IH"(2)) (auto simp: get_bit_used)
    then show ?thesis using 4 page by (subst bitmap_alloc_loop.simps) (simp add: get_bit_used)
  qed
qed

lemma alloc_first_fit:
  assumes "map_ok b" "0 < n"
  shows "first_fit b n m (bitmap_alloc_bits b n m)"
  unfolding bitmap_alloc_bits_def
  using assms by (intro alloc_loop_first_fit) (auto simp: map_ok_def free_run_def)

section \<open>The map the boot code builds\<close>

lemma kmemset_offset:
  assumes "0 \<le> x" "0 \<le> n" "x + n \<le> 2 ^ 32" "0 \<le> k" "k < 2 ^ 32"
  shows "unat ((b + word_of_int k :: 32 word) - (b + word_of_int x)) < nat n \<longleftrightarrow> x \<le> k \<and> k < x + n"
proof -
  have "(b + word_of_int k) - (b + word_of_int x) = (word_of_int (k - x) :: 32 word)" by simp
  then show ?thesis using uint_diff_cases [of k x] assms by (auto simp: unat_eq_nat_uint)
qed

text \<open>The map does not wrap around the address space.\<close>

definition placed :: "bit_map_t \<Rightarrow> bool" where
  "placed b \<longleftrightarrow> 0 < uint (base b) \<and> uint (base b) + 2 ^ 17 < 2 ^ 32"

lemma placed_nonzero:
  assumes "placed b" "0 \<le> x" "x \<le> 2 ^ 17"
  shows "base b + word_of_int x \<noteq> 0"
proof -
  have "uint (base b + word_of_int x) = (uint (base b) + x) mod 2 ^ 32"
    by (simp add: uint_word_ariths uint_word_of_int mod_add_right_eq)
  also have "\<dots> = uint (base b) + x"
    using assms by (intro mod_pos_pos_trivial) (auto simp: placed_def)
  finally show ?thesis using assms by (auto simp: placed_def)
qed

lemma kmemset_page:
  assumes "placed b" "0 \<le> x" "0 \<le> n" "x + n \<le> 2 ^ 17" "is_page j"
  shows "page_used b (kmemset (base b + word_of_int x) c n m) j =
      (if x \<le> j div 8 \<and> j div 8 < x + n then bit c (nat (j mod 8)) else page_used b m j)"
proof -
  have "base b + word_of_int x \<noteq> 0" "nat n \<le> 2 ^ 32"
    using placed_nonzero [of b x] assms by auto
  then have "kmemset (base b + word_of_int x) c n m (base b + word_of_int (j div 8)) =
     (if x \<le> j div 8 \<and> j div 8 < x + n then c else m (base b + word_of_int (j div 8)))"
    using kmemset_offset [of x n "j div 8" "base b"] page_byte [OF assms(5)] assms
    by (subst kmemset_eq) auto
  then show ?thesis by (simp only: page_used_def) auto
qed

lemma kmemset_outside:
  assumes "placed b" "0 \<le> x" "0 \<le> n" "x + n \<le> 2 ^ 17" "\<not> in_map b y"
  shows "kmemset (base b + word_of_int x) c n m y = m y"
proof -
  have "base b + word_of_int x \<noteq> 0" "nat n \<le> 2 ^ 32"
    using placed_nonzero [of b x] assms by auto
  moreover have "\<not> unat (y - (base b + word_of_int x)) < nat n"
  proof -
    have "2 ^ 17 \<le> uint (y - base b)" "0 \<le> uint (y - base b)" "uint (y - base b) < 2 ^ 32"
      using assms(5) uint_lt2p [of "y - base b"] by (simp_all add: in_map_def)
    moreover from this have "\<not> uint (y - base b) < x + n" "x + n \<le> 2 ^ 32"
      using assms(4) by linarith+
    ultimately show ?thesis
      using kmemset_offset [of x n "uint (y - base b)" "base b"] assms(2,3) by simp
  qed
  ultimately show ?thesis using assms by (subst kmemset_eq) auto
qed

text \<open>The pages an entry of the layout table offers: RAM, whole, above the kernel.\<close>

definition offers :: "mem_layout_t \<Rightarrow> int \<Rightarrow> bool" where
  "offers e j \<longleftrightarrow> kind e = 1 \<and> FREE_MEM_START \<le> j * PAGE_SIZE \<and> start e \<le> j * PAGE_SIZE
     \<and> (j + 1) * PAGE_SIZE \<le> start e + size_of e"

text \<open>A region below 4 GB that the map can describe: nothing to free, or a whole byte of pages.\<close>

definition first_page :: "mem_layout_t \<Rightarrow> int" where
  "first_page e = (max (start e) FREE_MEM_START + (PAGE_SIZE - 1)) div PAGE_SIZE"

definition entry_ok :: "mem_layout_t \<Rightarrow> bool" where
  "entry_ok e \<longleftrightarrow> kind e = 1 \<and> FREE_MEM_START < start e + size_of e \<longrightarrow>
     0 \<le> start e \<and> start e + size_of e \<le> 2 ^ 32 \<and>
     (first_page e + 7) div 8 \<le> (start e + size_of e) div PAGE_SIZE div 8"


lemma small_words:
  assumes "0 \<le> s" "s \<le> 2 ^ 20"
  defines "w \<equiv> word_of_int s :: uint"
  shows "sint w = s" "w mod 8 = 0 \<longleftrightarrow> s mod 8 = 0" "sint (w mod 8) = s mod 8"
    "sint (8 - w mod 8) = 8 - s mod 8" "sint (w div 8) = s div 8" "sint ((w + 7) div 8) = (s + 7) div 8"
proof -
  have w: "uint w = s" using assms by (auto intro!: uint_of_small)
  show "sint w = s" using w assms(2) by (subst sint_of_small) auto
  have m: "uint (w mod 8) = s mod 8" by (simp add: uint_mod w)
  show "w mod 8 = 0 \<longleftrightarrow> s mod 8 = 0"
    using m by (metis uint_0_iff)
  have ms: "s mod 8 < 8" "0 \<le> s mod 8" by simp_all
  show "sint (w mod 8) = s mod 8" using m ms by (subst sint_of_small) auto
  have "w mod 8 = word_of_int (s mod 8)" by (metis m word_of_int_uint)
  then have "8 - w mod 8 = word_of_int (8 - s mod 8)" by simp
  then have "uint (8 - w mod 8) = 8 - s mod 8"
    using ms uint_of_small [of "8 - s mod 8"] by simp
  then show "sint (8 - w mod 8) = 8 - s mod 8" using ms by (subst sint_of_small) auto
  have d: "uint (w div 8) = s div 8" by (simp add: uint_div w)
  show "sint (w div 8) = s div 8" using d assms(2) by (subst sint_of_small) auto
  have "w + 7 = word_of_int (s + 7)" by (simp add: w_def)
  then have "uint (w + 7) = s + 7" using assms by (simp only:) (rule uint_of_small, auto)
  then have "uint ((w + 7) div 8) = (s + 7) div 8" by (simp add: uint_div)
  then show "sint ((w + 7) div 8) = (s + 7) div 8" using assms(2) by (subst sint_of_small) auto
qed

lemma sint_diff_small:
  fixes x y :: uint
  assumes "sint x \<le> sint y" "0 \<le> sint x" "sint y < 2 ^ 30"
  shows "sint (y - x) = sint y - sint x"
proof -
  have "sint (y - x) = signed_take_bit 31 (sint y - sint x)"
    by (simp add: sint_word_ariths)
  also have "\<dots> = sint y - sint x"
    using assms by (intro signed_take_bit_int_eq_self) auto
  finally show ?thesis .
qed

text \<open>Bytes of eight pages.\<close>

lemma split8: "x = 8 * (x div 8) + x mod 8" "0 \<le> x mod 8" "x mod 8 < (8 :: int)"
  by simp_all

lemma ceil8: "(s + 7) div 8 = (if s mod 8 = 0 then s div 8 else s div 8 + (1 :: int))"
proof -
  have "(r + 7) div 8 = (if r = 0 then 0 else 1)" if "0 \<le> r" "r < 8" for r :: int
    using that by (auto simp: div_pos_geq)
  from this [of "s mod 8"] have "(s mod 8 + 7) div 8 = (if s mod 8 = 0 then 0 else 1)" by simp
  moreover have "(s + 7) div 8 = s div 8 + (s mod 8 + 7) div 8"
    using div_add1_eq [of s 7 8] by simp
  ultimately show ?thesis by simp
qed

lemma offers_iff:
  "offers e j \<longleftrightarrow> kind e = 1 \<and> first_page e \<le> j \<and> j < (start e + size_of e) div PAGE_SIZE"
  by (auto simp: offers_def first_page_def FREE_MEM_START_def PAGE_SIZE_def)

lemma region_bounds:
  assumes "kind e = 1" "FREE_MEM_START < start e + size_of e" "entry_ok e"
  shows "0 \<le> first_page e" "(first_page e + 7) div 8 \<le> (start e + size_of e) div PAGE_SIZE div 8"
    "(start e + size_of e) div PAGE_SIZE \<le> 2 ^ 20" "first_page e \<le> 2 ^ 20"
proof -
  show "0 \<le> first_page e" using assms
    by (auto simp: entry_ok_def first_page_def FREE_MEM_START_def PAGE_SIZE_def)
  show 1: "(first_page e + 7) div 8 \<le> (start e + size_of e) div PAGE_SIZE div 8"
    using assms by (auto simp: entry_ok_def)
  show 2: "(start e + size_of e) div PAGE_SIZE \<le> 2 ^ 20"
    using assms by (auto simp: entry_ok_def PAGE_SIZE_def)
  have "first_page e \<le> 8 * ((first_page e + 7) div 8)" by simp
  then show "first_page e \<le> 2 ^ 20" using 1 2 by linarith
qed

text \<open>Freeing the pages from \<open>s\<close> to \<open>t\<close> in three parts: the rest of the first byte, the
  beginning of the last one, and the whole bytes between them.\<close>

lemma free_region_eq:
  assumes "kind e = 1" "FREE_MEM_START < start e + size_of e" "entry_ok e"
    and s: "s = first_page e" and t: "t = (start e + size_of e) div PAGE_SIZE"
  shows "free_region b e m =
    (let m1 = (if s mod 8 \<noteq> 0 then bitmap_set_bits b s 0 (8 - s mod 8) 1 m else m);
         m2 = (if t mod 8 \<noteq> 0 then bitmap_set_bits b t 0 (t mod 8) 0 m1 else m1)
     in kmemset (base b + word_of_int ((s + 7) div 8)) 0 (t div 8 - (s + 7) div 8) m2)"
proof -
  have first: "(if start e < FREE_MEM_START
              then word_of_int (cdiv (FREE_MEM_START + (PAGE_SIZE - 1)) PAGE_SIZE)
              else word_of_int (cdiv (start e + (PAGE_SIZE - 1)) PAGE_SIZE)) = (word_of_int s :: uint)"
    using assms by (auto simp: s first_page_def FREE_MEM_START_def PAGE_SIZE_def max_def)
  have last: "word_of_int (cdiv (start e + size_of e) PAGE_SIZE) = (word_of_int t :: uint)"
    using assms by (simp add: FREE_MEM_START_def PAGE_SIZE_def)
  have st: "0 \<le> s" "s \<le> 2 ^ 20" "0 \<le> t" "t \<le> 2 ^ 20" "(s + 7) div 8 \<le> t div 8"
    using region_bounds [OF assms(1-3)] assms by (auto simp: FREE_MEM_START_def PAGE_SIZE_def)
  note ws = small_words [OF st(1,2)] and wt = small_words [OF st(3,4)]
  let ?f = "if word_of_int s mod 8 \<noteq> (0 :: uint) then (word_of_int s + 7) div 8 else word_of_int s div 8 :: uint"
  have f: "sint ?f = (s + 7) div 8"
    using ws ceil8 [of s] by (simp split: if_split)
  have n: "sint (word_of_int t div 8 - ?f) = t div 8 - (s + 7) div 8"
    using f wt(5) st sint_diff_small [of ?f "word_of_int t div 8"] by simp
  have m: "\<And>x y (q :: mem). (if word_of_int s mod 8 \<noteq> (0 :: uint) then (x, (word_of_int s + 7) div 8)
      else (y, word_of_int s div 8 :: uint)) = (if s mod 8 \<noteq> 0 then x else y :: mem, ?f)"
    using ws(2) by simp
  show ?thesis
    using assms(1,2) f n ws wt
    unfolding free_region_def Let_def first last m prod.case bitmap_set_bytes_def
    by (simp only: if_False if_True not_True_eq_False simp_thms) simp
qed

lemma up_to_byte:
  "(s + 7) div 8 \<le> t div 8 \<Longrightarrow> s + (8 - s mod 8) \<le> (t :: int) \<or> s mod 8 = 0"
proof (cases "s mod 8 = 0")
  case False
  assume "(s + 7) div 8 \<le> t div 8"
  then have "s div 8 + 1 \<le> t div 8" using ceil8 [of s] False by simp
  then show ?thesis using split8 [of s] split8 [of t] by linarith
qed simp

lemma down_to_byte: "0 \<le> s \<Longrightarrow> (s + 7) div 8 \<le> t div 8 \<Longrightarrow> 0 \<le> (t :: int) - t mod 8 \<and> 0 \<le> t mod 8"
proof -
  assume "0 \<le> s" "(s + 7) div 8 \<le> t div 8"
  then have "0 \<le> t div 8" using pos_imp_zdiv_nonneg_iff [of 8 "s + 7"] by linarith
  then show ?thesis using split8 [of t] by linarith
qed

lemma three_parts:
  assumes "0 \<le> s" "(s + 7) div 8 \<le> t div 8"
  shows "(s \<le> j \<and> j < s + (8 - s mod 8) \<and> s mod 8 \<noteq> 0) \<or> (t - t mod 8 \<le> j \<and> j < t)
    \<or> ((s + 7) div 8 \<le> j div 8 \<and> j div 8 < t div 8) \<longleftrightarrow> s \<le> j \<and> j < (t :: int)"
proof -
  let ?S = "(s + 7) div 8"
  have S: "(if s mod 8 \<noteq> 0 then s + (8 - s mod 8) else s) = 8 * ?S" "s \<le> 8 * ?S"
  proof -
    have "s - s mod 8 = 8 * (s div 8)" using split8 [of s] by linarith
    then show "(if s mod 8 \<noteq> 0 then s + (8 - s mod 8) else s) = 8 * ?S"
      by (cases "s mod 8 = 0") (simp_all add: ceil8)
    then show "s \<le> 8 * ?S" using split8 [of s] by (simp split: if_splits)
  qed
  have T: "t - t mod 8 = 8 * (t div 8)" "8 * (t div 8) \<le> t" using split8 [of t] by linarith+
  have J: "?S \<le> j div 8 \<longleftrightarrow> 8 * ?S \<le> j" "j div 8 < t div 8 \<longleftrightarrow> j < 8 * (t div 8)"
    using split8 [of j] by linarith+
  show ?thesis unfolding T J using S T assms by (auto split: if_splits)
qed

lemma free_region_offers:
  assumes "entry_ok e" "placed b"
  shows "is_page j \<Longrightarrow> page_used b (free_region b e m) j \<longleftrightarrow> page_used b m j \<and> \<not> offers e j"
    and "\<not> in_map b x \<Longrightarrow> free_region b e m x = m x"
proof -
  let ?s = "first_page e" and ?t = "(start e + size_of e) div PAGE_SIZE"
  have trivial: "free_region b e m = m \<and> \<not> offers e j"
    if "\<not> (kind e = 1 \<and> FREE_MEM_START < start e + size_of e)"
    using that by (auto simp: free_region_def offers_def PAGE_SIZE_def FREE_MEM_START_def)
  note eq = free_region_eq [OF _ _ assms(1) refl refl, of b m]
  note r = region_bounds [OF _ _ assms(1)]
  have region: "(is_page j \<longrightarrow> page_used b (free_region b e m) j \<longleftrightarrow> page_used b m j \<and> \<not> offers e j)
      \<and> (\<not> in_map b x \<longrightarrow> free_region b e m x = m x)"
    if k: "kind e = 1" "FREE_MEM_START < start e + size_of e"
  proof -
    have s: "0 \<le> ?s" "(?s + 7) div 8 \<le> ?t div 8" "?t \<le> 2 ^ 20" "?s \<le> 2 ^ 20" using r k by auto
    have p1: "pages_ok ?s (8 - ?s mod 8)" if "?s mod 8 \<noteq> 0"
      using s that up_to_byte [of ?s ?t] by (simp add: pages_ok_def)
    have p2: "pages_ok (?t - ?t mod 8) (?t mod 8)" if "?t mod 8 \<noteq> 0"
      using s that down_to_byte [of ?s ?t] by (simp add: pages_ok_def)
    have z: "0 \<le> (?s + 7) div 8" "0 \<le> ?t div 8 - (?s + 7) div 8"
      "(?s + 7) div 8 + (?t div 8 - (?s + 7) div 8) \<le> 2 ^ 17"
      using s by auto
    define m1 where "m1 = (if ?s mod 8 \<noteq> 0 then bitmap_set_bits b ?s 0 (8 - ?s mod 8) 1 m else m)"
    define m2 where "m2 = (if ?t mod 8 \<noteq> 0 then bitmap_set_bits b ?t 0 (?t mod 8) 0 m1 else m1)"
    have whole: "free_region b e m
        = kmemset (base b + word_of_int ((?s + 7) div 8)) 0 (?t div 8 - (?s + 7) div 8) m2"
      using eq k by (simp add: m1_def m2_def Let_def)
    have m1: "page_used b m1 j \<longleftrightarrow> page_used b m j \<and>
        \<not> (?s \<le> j \<and> j < ?s + (8 - ?s mod 8) \<and> ?s mod 8 \<noteq> 0)" if "is_page j" for j
      using set_bits_up(1) [OF p1 that, of b 0 m] by (auto simp: m1_def)
    have m2: "page_used b m2 j \<longleftrightarrow> page_used b m1 j \<and> \<not> (?t - ?t mod 8 \<le> j \<and> j < ?t)"
      if "is_page j" for j
      using set_bits_down(1) [OF p2 that] by (auto simp: m2_def)
    have m3: "page_used b (free_region b e m) j \<longleftrightarrow> page_used b m2 j \<and>
        \<not> ((?s + 7) div 8 \<le> j div 8 \<and> j div 8 < ?t div 8)" if "is_page j" for j
      unfolding whole using kmemset_page [OF assms(2) z that] by simp
    have "page_used b (free_region b e m) j \<longleftrightarrow> page_used b m j \<and> \<not> (?s \<le> j \<and> j < ?t)"
      if "is_page j" for j
      unfolding m3 [OF that] m2 [OF that] m1 [OF that] three_parts [OF s(1,2), of j, symmetric] by argo
    moreover have "m1 x = m x" "m2 x = m1 x" "free_region b e m x = m2 x" if "\<not> in_map b x" for x
      using set_bits_up(2) [OF p1 that] set_bits_down(2) [OF p2 that]
        kmemset_outside [OF assms(2) z that] by (simp_all add: m1_def m2_def whole)
    ultimately show ?thesis using k by (simp add: offers_iff)
  qed
  from trivial region show "is_page j \<Longrightarrow> page_used b (free_region b e m) j \<longleftrightarrow> page_used b m j \<and> \<not> offers e j"
    and "\<not> in_map b x \<Longrightarrow> free_region b e m x = m x"
    by (cases "kind e = 1 \<and> FREE_MEM_START < start e + size_of e"; force)+
qed

lemma layout_entry_cong:
  assumes "\<And>i. i < 20 \<Longrightarrow> m (a + of_nat i) = m' (a + of_nat i)"
  shows "layout_entry m a = layout_entry m' a"
proof -
  have "load32 m (a + of_nat k) = load32 m' (a + of_nat k)" if "k \<le> 16" for k
    using assms [of "k + _"] that by (intro load32_cong) (simp add: add.assoc flip: of_nat_add)
  from this [of 0] this [of 4] this [of 8] this [of 12] this [of 16]
  show ?thesis by (simp add: layout_entry_def load64_def add.assoc)
qed

text \<open>The table at \<open>a\<close> holds the entries \<open>es\<close> and ends at the entry whose start is 0.\<close>

fun entries_from :: "mem \<Rightarrow> addr \<Rightarrow> mem_layout_t list \<Rightarrow> bool" where
  "entries_from m a [] \<longleftrightarrow> start (layout_entry m a) = 0"
| "entries_from m a (e # es) \<longleftrightarrow> layout_entry m a = e \<and> start e \<noteq> 0 \<and> entries_from m (a + 20) es"

definition layout_table :: "mem \<Rightarrow> addr \<Rightarrow> mem_layout_t list \<Rightarrow> bool" where
  "layout_table m a es \<longleftrightarrow> es \<noteq> [] \<and> layout_entry m a = hd es \<and> entries_from m (a + 20) (tl es)"

definition clear_of_map :: "bit_map_t \<Rightarrow> addr \<Rightarrow> nat \<Rightarrow> bool" where
  "clear_of_map b a n \<longleftrightarrow> list_all (\<lambda>i. \<not> in_map b (a + of_nat i)) [0..<n]"

lemma clear_of_map_iff: "clear_of_map b a n \<longleftrightarrow> (\<forall>i < n. \<not> in_map b (a + of_nat i))"
  by (auto simp: clear_of_map_def list_all_iff)

lemma clear_of_map_shift:
  assumes "clear_of_map b a (20 + n)"
  shows "clear_of_map b (a + 20) n" "clear_of_map b a 20"
proof -
  have "\<not> in_map b (a + 20 + of_nat i)" if "i < n" for i
    using assms that unfolding clear_of_map_iff
    by (metis add.assoc nat_add_left_cancel_less of_nat_add of_nat_numeral)
  then show "clear_of_map b (a + 20) n" by (simp add: clear_of_map_iff)
  show "clear_of_map b a 20" using assms by (simp add: clear_of_map_iff)
qed

lemma entries_from_cong:
  assumes "clear_of_map b a (20 + 20 * length es)" "\<And>x. \<not> in_map b x \<Longrightarrow> m' x = m x"
  shows "entries_from m' a es = entries_from m a es"
  using assms
proof (induction es arbitrary: a)
  case Nil
  then have "layout_entry m' a = layout_entry m a"
    by (intro layout_entry_cong) (simp add: clear_of_map_iff)
  then show ?case by simp
next
  case (Cons e es)
  have "clear_of_map b (a + 20) (20 + 20 * length es)" "clear_of_map b a 20"
    using clear_of_map_shift [of b a "20 + 20 * length es"] Cons.prems(1) by simp_all
  then have "layout_entry m' a = layout_entry m a" "entries_from m' (a + 20) es = entries_from m (a + 20) es"
    using Cons by (auto intro!: layout_entry_cong simp: clear_of_map_iff)
  then show ?case by simp
qed

lemma layout_loop_frees:
  assumes "layout_entry m a = e" "entries_from m (a + 20) es" "list_all entry_ok (e # es)" "placed b"
    and "clear_of_map b a (20 + 20 * length (e # es))"
  shows "\<exists>m'. layout_loop b a ns m = Some (m', ns + word_of_int (sum_list (map size_of (e # es))))
     \<and> (\<forall>j. is_page j \<longrightarrow> (page_used b m' j \<longleftrightarrow> page_used b m j \<and> (\<forall>d \<in> set (e # es). \<not> offers d j)))
     \<and> (\<forall>x. \<not> in_map b x \<longrightarrow> m' x = m x)"
  using assms
proof (induction es arbitrary: a e ns m)
  case Nil
  let ?m = "free_region b e m"
  have clr: "clear_of_map b (a + 20) 20"
    using clear_of_map_shift [of b a 20] Nil.prems(5) by simp
  have keep: "\<not> in_map b x \<Longrightarrow> ?m x = m x" for x
    using free_region_offers(2) [of e b x m] Nil.prems by simp
  have "start (layout_entry ?m (a + 20)) = 0"
    using entries_from_cong [of b "a + 20" "[]" ?m m] keep clr Nil.prems(2) by simp
  then have "layout_loop b a ns m = Some (?m, ns + word_of_int (size_of e))"
    using Nil.prems(1) by (simp add: layout_loop.simps)
  then show ?case using free_region_offers [of e b] Nil.prems by auto
next
  case (Cons d ds)
  let ?m = "free_region b e m"
  have clr: "clear_of_map b (a + 20) (20 + 20 * length (d # ds))" "clear_of_map b a 20"
    using clear_of_map_shift [of b a "20 + 20 * length (d # ds)"] Cons.prems(5) by simp_all
  have keep: "\<not> in_map b x \<Longrightarrow> ?m x = m x" for x
    using free_region_offers(2) [of e b x m] Cons.prems by simp
  have "entries_from ?m (a + 20) (d # ds)"
    using entries_from_cong [OF clr(1), of ?m m] keep Cons.prems(2) by blast
  then have d: "layout_entry ?m (a + 20) = d" "start d \<noteq> 0" "entries_from ?m (a + 20 + 20) ds" by auto
  then have "layout_loop b a ns m = layout_loop b (a + 20) (ns + word_of_int (size_of e)) ?m"
    using Cons.prems(1) by (subst layout_loop.simps) simp
  with Cons.IH [OF d(1,3) _ Cons.prems(4) clr(1), where ns = "ns + word_of_int (size_of e)"]
    Cons.prems(3,4) keep free_region_offers(1) [of e b]
  show ?case by (simp add: add.assoc)
qed

text \<open>The map of all pages set, with which \<open>bitmap_init\<close> begins.\<close>

lemma page_used_full:
  assumes "placed b" "is_page j"
  shows "page_used b (bitmap_set_bytes b 0 (128 * 1024) 1 m) j"
proof -
  have "(0xff :: uchar) = - 1" by simp
  then have "bit (0xff :: uchar) (nat (j mod 8))" 
    by (simp only: bit_minus_1_iff) (simp add: possible_bit_word nat_less_iff)
  then show ?thesis
    using kmemset_page [OF assms(1) _ _ _ assms(2), where x = 0 and n = "128 * 1024" and c = "0xff" and m = m]
    page_byte [OF assms(2)]
    by (auto simp: bitmap_set_bytes_def)
qed

lemma clear_of_map_mono: "clear_of_map b a k \<Longrightarrow> n \<le> k \<Longrightarrow> clear_of_map b a n"
  by (auto simp: clear_of_map_iff)

lemma low_memory_clear: "clear_of_map boot_bitmap 0x10000 1024"
proof -
  have "2 ^ 17 \<le> uint (0x10000 + of_nat i - BITMAP_START)" if "i < 1024" for i
  proof -
    have "0x10000 + of_nat i - BITMAP_START = (word_of_int (int i - 0x400) :: 32 word)"
      by (simp add: BITMAP_START_def)
    then show ?thesis using uint_diff_cases [of "int i" "0x400"] that by (simp only:) simp
  qed
  then show ?thesis by (auto simp: clear_of_map_iff in_map_def boot_bitmap_def not_less)
qed

lemma layout_table_cong:
  assumes "clear_of_map b a (20 + 20 * length es)" "\<And>x. \<not> in_map b x \<Longrightarrow> m' x = m x"
    and "layout_table m a es"
  shows "layout_table m' a es"
proof -
  obtain d ds where es: "es = d # ds" using assms(3) by (auto simp: layout_table_def neq_Nil_conv)
  have "clear_of_map b (a + 20) (20 + 20 * length ds)" "clear_of_map b a 20"
    using clear_of_map_shift [of b a "20 + 20 * length ds"] assms(1) es by simp_all
  then have "entries_from m' (a + 20) ds = entries_from m (a + 20) ds" "layout_entry m' a = layout_entry m a"
    using assms(2) entries_from_cong [of b "a + 20" ds m' m]
    by (auto intro!: layout_entry_cong simp: clear_of_map_iff)
  then show ?thesis using assms(3) es by (simp add: layout_table_def)
qed

lemma bitmap_init_frees:
  assumes "layout_table m 0x10000 es" "list_all entry_ok es" "placed b"
    and "clear_of_map b 0x10000 (20 + 20 * length es)"
    and "0 \<le> sum_list (map size_of es)" "sum_list (map size_of es) + PAGE_SIZE \<le> 2 ^ 32"
  shows "\<exists>m'. bitmap_init b m
      = Some (b\<lparr>nbits := (sum_list (map size_of es) + (PAGE_SIZE - 1)) div PAGE_SIZE\<rparr>, m')
    \<and> (\<forall>j. is_page j \<longrightarrow> (page_used b m' j \<longleftrightarrow> (\<forall>e \<in> set es. \<not> offers e j)))
    \<and> (\<forall>x. \<not> in_map b x \<longrightarrow> m' x = m x)"
proof -
  let ?m = "bitmap_set_bytes b 0 (128 * 1024) 1 m"
  let ?s = "sum_list (map size_of es)"
  have keep: "\<not> in_map b x \<Longrightarrow> ?m x = m x" for x
    using kmemset_outside [OF assms(3), of 0 "128 * 1024"] by (simp add: bitmap_set_bytes_def)
  obtain d ds where es: "es = d # ds" using assms(1) by (auto simp: layout_table_def neq_Nil_conv)
  have "layout_table ?m 0x10000 es" using layout_table_cong [OF assms(4) _ assms(1)] keep by blast
  then have tab: "layout_entry ?m 0x10000 = d" "entries_from ?m (0x10000 + 20) ds"
    by (simp_all add: layout_table_def es)
  obtain m' where m': "layout_loop b 0x10000 0 ?m = Some (m', word_of_int ?s)"
    "\<And>j. is_page j \<Longrightarrow> page_used b m' j \<longleftrightarrow> page_used b ?m j \<and> (\<forall>e \<in> set es. \<not> offers e j)"
    "\<And>x. \<not> in_map b x \<Longrightarrow> m' x = ?m x"
    using layout_loop_frees [OF tab _ assms(3), of 0] assms(2,4) es by auto
  have s: "uint (word_of_int ?s :: uint) = ?s"
    using assms(5,6) by (intro uint_of_small) (auto simp: PAGE_SIZE_def)
  have s': "uint (word_of_int ?s + word_of_int (PAGE_SIZE - 1) :: uint) = ?s + (PAGE_SIZE - 1)"
    using assms(5,6) uint_of_small [of "?s + (PAGE_SIZE - 1)"] by (simp add: PAGE_SIZE_def)
  have "bitmap_init b m = Some (b\<lparr>nbits := (?s + (PAGE_SIZE - 1)) div PAGE_SIZE\<rparr>, m')"
    unfolding bitmap_init_def Let_def m'(1) using s' by (auto simp: s PAGE_SIZE_def)
  then show ?thesis using m'(2,3) keep page_used_full [OF assms(3)] by auto
qed


section \<open>Properties\<close>

text \<open>C25: allocation is first fit.  If \<open>bitmap_alloc_bits\<close> returns -1, nothing changed and
  the map has no run of \<open>count\<close> free pages; otherwise it returns the lowest such run, whose
  pages are now in use while every other page, and every byte outside the map, is as before.\<close>

theorem alloc_bits_first_fit:
  assumes "map_ok b" "0 < count"
  shows "case bitmap_alloc_bits b count m of (m', r) \<Rightarrow>
    if r = - 1 then m' = m \<and> (\<forall>i. 0 \<le> i \<and> i + count \<le> nbits b \<longrightarrow> \<not> free_run b m i count)
    else 0 \<le> r \<and> r + count \<le> nbits b \<and> free_run b m r count
      \<and> (\<forall>i. 0 \<le> i \<and> i < r \<longrightarrow> \<not> free_run b m i count)
      \<and> (\<forall>j. is_page j \<longrightarrow> page_used b m' j = (r \<le> j \<and> j < r + count \<or> page_used b m j))
      \<and> (\<forall>x. \<not> in_map b x \<longrightarrow> m' x = m x)"
proof -
  obtain m' r where r: "bitmap_alloc_bits b count m = (m', r)" by fastforce
  then have ff: "first_fit b count m (m', r)" using alloc_first_fit [OF assms, of m] by simp
  then have "pages_ok r count" if "r \<noteq> - 1"
    using that assms by (auto simp: first_fit_def map_ok_def pages_ok_def)
  then show ?thesis
    using ff set_bits_up [of r count, where b = b and v = 1 and m = m]
    by (auto simp: r first_fit_def split: if_splits)
qed

text \<open>Pages 0 to 2 in use, page 4 too: a run of two starts at page 5.\<close>

definition demo_bitmap :: bit_map_t where
  "demo_bitmap = \<lparr>nbits = 32, base = BITMAP_START\<rparr>"

definition demo_map :: mem where
  "demo_map = (\<lambda>_. 0)(BITMAP_START := 0b10111)"

lemma alloc_bits_first_fit_witness:
  "snd (bitmap_alloc_bits demo_bitmap 2 demo_map) = 5 \<and> \<not> free_run demo_bitmap demo_map 3 2"
proof -
  have v: "snd (bitmap_alloc_bits demo_bitmap 2 demo_map) = 5" by code_simp
  have "map_ok demo_bitmap" by (simp add: map_ok_def demo_bitmap_def)
  from alloc_bits_first_fit [OF this, of 2 demo_map] v
  show ?thesis by (cases "bitmap_alloc_bits demo_bitmap 2 demo_map") auto
qed

text \<open>freeing what was allocated gives back the map as it was: every page is in use
  exactly if it was before the allocation.\<close>

theorem free_bits_undoes_alloc:
  assumes "map_ok b" "0 < count" "bitmap_alloc_bits b count m = (m', r)" "r \<noteq> - 1"
    and "is_page j"
  shows "page_used b (bitmap_free_bits b (word_of_int (r * PAGE_SIZE)) count m') j = page_used b m j"
proof -
  have ff: "first_fit b count m (m', r)" using alloc_first_fit [OF assms(1,2), of m] assms(3) by simp
  then have p: "pages_ok r count" and free: "free_run b m r count"
    using assms by (auto simp: first_fit_def map_ok_def pages_ok_def)
  have "uint (word_of_int (r * PAGE_SIZE) :: uint) = r * PAGE_SIZE"
    using p by (intro uint_of_small) (auto simp: pages_ok_def PAGE_SIZE_def)
  then have "uint (word_of_int (r * PAGE_SIZE) :: uint) div PAGE_SIZE = r"
    by (simp add: PAGE_SIZE_def)
  then show ?thesis
    using ff free assms(4) set_bits_up(1) [OF p assms(5)]
    by (auto simp: bitmap_free_bits_def first_fit_def free_run_def)
qed

lemma free_bits_undoes_alloc_witness:
  "case bitmap_alloc_bits demo_bitmap 2 demo_map of (m', r) \<Rightarrow>
     page_used demo_bitmap m' 5
     \<and> \<not> page_used demo_bitmap (bitmap_free_bits demo_bitmap (word_of_int (r * PAGE_SIZE)) 2 m') 5"
proof -
  obtain m' r where r: "bitmap_alloc_bits demo_bitmap 2 demo_map = (m', r)" by fastforce
  have v: "r = 5" "page_used demo_bitmap m' 5"
  proof -
    have "(\<lambda>(m', r). r = 5 \<and> page_used demo_bitmap m' 5) (bitmap_alloc_bits demo_bitmap 2 demo_map)"
      by code_simp
    then show "r = 5" "page_used demo_bitmap m' 5" by (simp_all add: r)
  qed
  have "map_ok demo_bitmap" by (simp add: map_ok_def demo_bitmap_def)
  moreover have "\<not> page_used demo_bitmap demo_map 5" by code_simp
  ultimately show ?thesis
    using free_bits_undoes_alloc [of demo_bitmap 2 demo_map m' r 5] r v by (simp add: is_page_def)
qed


text \<open>Two entries: low memory below 640 KB and 6 MB from 4 MB on.\<close>

definition demo_layout :: mem where
  "demo_layout = store32 (store32 (store32 (store32 (store32 (\<lambda>_. 0)
     0x10008 0x9f000) 0x10010 1) 0x10014 0x400000) 0x1001c 0x600000) 0x10024 1"


end
