(* ===== verification/Arch.thy ===== *)
theory Arch
  imports Prelude
begin

text \<open>
  The processor tables and the interrupt controller: \<open>source/kernel/arch.c\<close>,
  \<open>source/kernel/irq.c\<close> and the port and flag primitives of \<open>source/include/arch.h\<close>.
  The output to ports is a log, newest first; what a port read returns is decided by the
  device, a function of that log, which is a parameter of the operations that read.
\<close>

section \<open>The state\<close>

record gdt_desc_t =
  llimit :: ushort
  lbase :: ushort
  mbase :: uchar
  g_attribute :: ushort
  hbase :: uchar

record gate_desc_t =
  loffset :: ushort
  selector :: ushort
  attribute :: ushort
  hoffset :: ushort

definition GDT_TABLE_SIZE :: nat where "GDT_TABLE_SIZE = 128"
definition IDT_TABLE_SIZE :: nat where "IDT_TABLE_SIZE = 256"
definition KERNEL_SELECTOR_CS :: ushort where "KERNEL_SELECTOR_CS = 0x08"
definition KERNEL_SELECTOR_DS :: ushort where "KERNEL_SELECTOR_DS = 0x10"
definition USER_SELECTOR_CS :: ushort where "USER_SELECTOR_CS = 0x1b"
definition USER_SELECTOR_DS :: ushort where "USER_SELECTOR_DS = 0x23"
definition TSS_SELECTOR :: ushort where "TSS_SELECTOR = 0x28"

type_synonym out_log = "(ushort \<times> uchar) list"
type_synonym device = "out_log \<Rightarrow> ushort \<Rightarrow> uchar"

record cpu =
  gdt_table :: "gdt_desc_t list"
  idt_table :: "gate_desc_t list"
  gdtr :: "(uint \<times> ushort) option"
  idtr :: "(uint \<times> ushort) option"
  eflags :: uint
  outs :: out_log
  halted :: bool

definition outb :: "ushort \<Rightarrow> uchar \<Rightarrow> cpu \<Rightarrow> cpu" where
  "outb port v c = c\<lparr>outs := (port, v) # outs c\<rparr>"

definition inb :: "device \<Rightarrow> ushort \<Rightarrow> cpu \<Rightarrow> uchar" where
  "inb dev port c = dev (outs c) port"

section \<open>Descriptors\<close>

definition gdt_desc :: "uint \<Rightarrow> uint \<Rightarrow> ushort \<Rightarrow> gdt_desc_t" where
  "gdt_desc bas limit attr =
     (let (attr, limit) = (if limit > 0xfffff then (attr OR 0x8000, limit div 0x1000) else (attr, limit))
      in \<lparr>llimit = ucast (limit AND 0xffff), lbase = ucast (bas AND 0xffff),
          mbase = ucast (drop_bit 16 bas AND 0xff),
          g_attribute = attr OR ucast (push_bit 8 (drop_bit 16 limit AND 0xf)),
          hbase = ucast (drop_bit 24 bas AND 0xff)\<rparr>)"

text \<open>A write outside the table hits whatever lies there: no result.\<close>

definition set_gdt_desc :: "int \<Rightarrow> uint \<Rightarrow> uint \<Rightarrow> ushort \<Rightarrow> cpu \<Rightarrow> cpu option" where
  "set_gdt_desc index bas limit attr c =
     (if 0 \<le> index \<and> index < int GDT_TABLE_SIZE
      then Some (c\<lparr>gdt_table := (gdt_table c)[nat index := gdt_desc bas limit attr]\<rparr>) else None)"

definition gate_desc :: "ushort \<Rightarrow> uint \<Rightarrow> ushort \<Rightarrow> gate_desc_t" where
  "gate_desc sel offset attr =
     \<lparr>loffset = ucast (offset AND 0xffff), selector = sel, attribute = attr,
      hoffset = ucast (drop_bit 16 offset AND 0xffff)\<rparr>"

definition set_gate_desc :: "ushort \<Rightarrow> ushort \<Rightarrow> uint \<Rightarrow> ushort \<Rightarrow> cpu \<Rightarrow> cpu option" where
  "set_gate_desc index sel offset attr c =
     (if unat index < IDT_TABLE_SIZE
      then Some (c\<lparr>idt_table := (idt_table c)[unat index := gate_desc sel offset attr]\<rparr>) else None)"

text \<open>A loop over table indices, each round a call that may not return.\<close>

fun each :: "('i \<Rightarrow> 's \<Rightarrow> 's option) \<Rightarrow> 'i list \<Rightarrow> 's \<Rightarrow> 's option" where
  "each f [] s = Some s"
| "each f (i # is) s = f i s \<bind> each f is"

definition sizeof_tss :: uint where "sizeof_tss = 104"

text \<open>The descriptor table registers hold the address and the last byte of a table.\<close>

definition load_gdt :: "uint \<Rightarrow> ushort \<Rightarrow> cpu \<Rightarrow> cpu" where
  [simp]: "load_gdt addr limit c = c\<lparr>gdtr := Some (addr, limit - 1)\<rparr>"

definition load_idt :: "uint \<Rightarrow> ushort \<Rightarrow> cpu \<Rightarrow> cpu" where
  [simp]: "load_idt addr limit c = c\<lparr>idtr := Some (addr, limit - 1)\<rparr>"

text \<open>The addresses of the tables and of the boot TSS are the linker's: parameters.\<close>

definition init_gdt :: "uint \<Rightarrow> uint \<Rightarrow> cpu \<Rightarrow> cpu option" where
  "init_gdt gdt_addr tss_addr c = do {
     c \<leftarrow> each (\<lambda>i. set_gdt_desc (int i) 0 0 0) [0..<GDT_TABLE_SIZE] c;
     c \<leftarrow> set_gdt_desc (uint (drop_bit 3 KERNEL_SELECTOR_CS)) 0 0xffffffff
            (0x80 OR 0 OR 0x10 OR 0x0A OR 0x4000) c;
     c \<leftarrow> set_gdt_desc (uint (drop_bit 3 KERNEL_SELECTOR_DS)) 0 0xffffffff
            (0x80 OR 0 OR 0x10 OR 0x2 OR 0x4000) c;
     c \<leftarrow> set_gdt_desc (uint (drop_bit 3 USER_SELECTOR_CS)) 0 0xffffffff
            (0x80 OR 0x20 OR 0x10 OR 0x0A OR 0x60 OR 0x4000) c;
     c \<leftarrow> set_gdt_desc (uint (drop_bit 3 USER_SELECTOR_DS)) 0 0xffffffff
            (0x80 OR 0x20 OR 0x10 OR 0x2 OR 0x60 OR 0x4000) c;
     c \<leftarrow> set_gdt_desc (uint (drop_bit 3 TSS_SELECTOR)) tss_addr sizeof_tss (0x80 OR 0 OR 9) c;
     Some (load_gdt gdt_addr (of_nat (8 * GDT_TABLE_SIZE)) c) }"

definition set_tss_desc :: "uint \<Rightarrow> int \<Rightarrow> cpu \<Rightarrow> cpu option" where
  "set_tss_desc tss index c = set_gdt_desc index tss sizeof_tss (0x80 OR 0 OR 9) c"

section \<open>Interrupt vectors\<close>

definition irq_install :: "int \<Rightarrow> uint \<Rightarrow> cpu \<Rightarrow> (cpu \<times> int) option" where
  "irq_install irq_num handler c =
     (if irq_num > int IDT_TABLE_SIZE then Some (c, - 1)
      else do {
        c \<leftarrow> (if irq_num = 0x80
              then set_gate_desc (word_of_int irq_num) KERNEL_SELECTOR_CS handler (0x8000 OR 0x6000 OR 0xE00) c
              else set_gate_desc (word_of_int irq_num) KERNEL_SELECTOR_CS handler (0x8000 OR 0 OR 0xE00) c);
        Some (c, 0) })"

definition init_8259 :: "cpu \<Rightarrow> cpu" where
  "init_8259 c = fold (\<lambda>(p, v). outb p v)
     [(0x20, 0x11), (0x21, 0x20), (0x21, 0x04), (0x21, 1),
      (0xa0, 0x11), (0xa1, 0x28), (0xa1, 0x02), (0xa1, 1),
      (0x21, 0xff AND NOT 0x04), (0xa1, 0xff)] c"

text \<open>The vectors \<open>init_idt\<close> installs, by the name of the handler in \<open>start.S\<close>.\<close>

datatype handler = Default | Divide | Debug | Nmi | Bp | Of | Br | Io | Du | Df | It | Snp | Ssf
  | Gp | Pf | Fe | Ac | Mc | Simd | Virtual | Control

definition exception_vectors :: "(int \<times> handler) list" where
  "exception_vectors = [(0, Divide), (1, Debug), (2, Nmi), (3, Bp), (4, Of), (5, Br), (6, Io), (7, Du),
     (8, Df), (10, It), (11, Snp), (12, Ssf), (13, Gp), (14, Pf), (16, Fe), (17, Ac), (18, Mc), (19, Simd),
     (20, Virtual), (21, Control)]"

definition init_idt :: "(handler \<Rightarrow> uint) \<Rightarrow> uint \<Rightarrow> cpu \<Rightarrow> cpu option" where
  "init_idt entry idt_addr c = do {
     c \<leftarrow> each (\<lambda>i. set_gate_desc (of_nat i) KERNEL_SELECTOR_CS (entry Default) (0x8000 OR 0 OR 0xE00))
            [0..<IDT_TABLE_SIZE] c;
     c \<leftarrow> each (\<lambda>(n, h) c. map_option fst (irq_install n (entry h) c)) exception_vectors c;
     Some (init_8259 (load_idt idt_addr (of_nat (8 * IDT_TABLE_SIZE)) c)) }"

definition arch_init :: "uint \<Rightarrow> uint \<Rightarrow> (handler \<Rightarrow> uint) \<Rightarrow> uint \<Rightarrow> cpu \<Rightarrow> cpu option" where
  "arch_init gdt_addr tss_addr entry idt_addr c =
     init_gdt gdt_addr tss_addr c \<bind> init_idt entry idt_addr"

text \<open>Every exception handler stops the processor; the message is not printed.\<close>

definition do_default_handler :: "string \<Rightarrow> cpu \<Rightarrow> cpu" where
  "do_default_handler message c = c\<lparr>halted := True\<rparr>"

primrec do_handler :: "handler \<Rightarrow> cpu \<Rightarrow> cpu" where
  "do_handler Default = do_default_handler ''unknow exception''"
| "do_handler Divide = do_default_handler ''div zero exception''"
| "do_handler Debug = do_default_handler ''debug exception''"
| "do_handler Nmi = do_default_handler ''nmi exception''"
| "do_handler Bp = do_default_handler ''backpoint exception''"
| "do_handler Of = do_default_handler ''over flow exception''"
| "do_handler Br = do_default_handler ''bound range exception''"
| "do_handler Io = do_default_handler ''invalid opcode exception''"
| "do_handler Du = do_default_handler ''device unabavliable exception''"
| "do_handler Df = do_default_handler ''double fault exception''"
| "do_handler It = do_default_handler ''invalid tss exception''"
| "do_handler Snp = do_default_handler ''segment not present exception''"
| "do_handler Ssf = do_default_handler ''stack segment fault exception''"
| "do_handler Gp = do_default_handler ''general protection exception''"
| "do_handler Pf = do_default_handler ''page fault exception''"
| "do_handler Fe = do_default_handler ''fpu error exception''"
| "do_handler Ac = do_default_handler ''aligment check exception''"
| "do_handler Mc = do_default_handler ''machine check exception''"
| "do_handler Simd = do_default_handler ''simd exception''"
| "do_handler Virtual = do_default_handler ''virtual exception''"
| "do_handler Control = do_default_handler ''control exception''"

section \<open>The interrupt controller\<close>

text \<open>\<open>~(1 << n)\<close> and \<open>1 << n\<close> in 32 bits; the port takes the low byte.\<close>

definition enable_8259 :: "device \<Rightarrow> int \<Rightarrow> cpu \<Rightarrow> cpu" where
  "enable_8259 dev num c =
     (if num < 0x20 \<or> num > 0x30 then c
      else let num = num - 0x20 in
        if num < 8
        then let mask = ucast (inb dev 0x21 c) AND NOT (push_bit (nat num) (1 :: uint))
             in outb 0x21 (ucast mask) c
        else let num = num - 8; mask = ucast (inb dev 0xa1 c) AND NOT (push_bit (nat num) (1 :: uint))
             in outb 0xa1 (ucast mask) c)"

definition disable_8259 :: "device \<Rightarrow> int \<Rightarrow> cpu \<Rightarrow> cpu" where
  "disable_8259 dev num c =
     (if num < 0x20 \<or> num > 0x30 then c
      else let num = num - 0x20 in
        if num < 8
        then let mask = ucast (inb dev 0x21 c) OR push_bit (nat num) (1 :: uint)
             in outb 0x21 (ucast mask) c
        else let num = num - 8; mask = ucast (inb dev 0xa1 c) OR push_bit (nat num) (1 :: uint)
             in outb 0xa1 (ucast mask) c)"

definition pic_done :: "int \<Rightarrow> cpu \<Rightarrow> cpu" where
  "pic_done num c =
     (let num = num - 0x20;
          c = (if num \<ge> 8 then outb 0xa0 0x20 c else c)
      in outb 0x20 0x20 c)"

section \<open>Critical sections\<close>

definition cli :: "cpu \<Rightarrow> cpu" where
  "cli c = c\<lparr>eflags := eflags c AND NOT 0x200\<rparr>"

definition sti :: "cpu \<Rightarrow> cpu" where
  "sti c = c\<lparr>eflags := eflags c OR 0x200\<rparr>"

definition enter_critical :: "cpu \<Rightarrow> cpu \<times> uint" where
  "enter_critical c = (cli c, eflags c)"

definition leave_critical :: "uint \<Rightarrow> cpu \<Rightarrow> cpu" where
  "leave_critical fl c = c\<lparr>eflags := fl\<rparr>"

section \<open>What the processor reads from a descriptor\<close>

definition desc_base :: "gdt_desc_t \<Rightarrow> uint" where
  "desc_base d = ucast (lbase d) OR push_bit 16 (ucast (mbase d)) OR push_bit 24 (ucast (hbase d))"

definition desc_limit :: "gdt_desc_t \<Rightarrow> uint" where
  "desc_limit d =
     (let l = ucast (llimit d) OR push_bit 16 (ucast (drop_bit 8 (g_attribute d) AND 0xf)) :: uint
      in if bit (g_attribute d) 15 then push_bit 12 l OR 0xfff else l)"

definition gate_offset :: "gate_desc_t \<Rightarrow> uint" where
  "gate_offset d = ucast (loffset d) OR push_bit 16 (ucast (hoffset d))"

lemma div_page_bits: "(w :: uint) div 0x1000 = drop_bit 12 w"
  by (simp add: drop_bit_eq_div)

lemma mask_16: "(w :: uint) AND 0xffff = take_bit 16 w"
  by (simp add: take_bit_eq_mask mask_eq_exp_minus_1)

lemma mask_8: "(w :: uint) AND 0xff = take_bit 8 w"
  by (simp add: take_bit_eq_mask mask_eq_exp_minus_1)

lemma mask_4: "(w :: 'a :: len word) AND 0xf = take_bit 4 w"
  by (simp add: take_bit_eq_mask mask_eq_exp_minus_1)

lemma mask_12: "(0xfff :: uint) = mask 12"
  by (simp add: mask_eq_exp_minus_1)

lemma desc_base_gdt_desc: "desc_base (gdt_desc b l a) = b"
proof (rule bit_word_eqI)
  fix n :: nat
  assume "n < LENGTH(32)"
  then show "bit (desc_base (gdt_desc b l a)) n = bit b n"
    by (cases "n < 16"; cases "n < 24")
      (auto simp: desc_base_def gdt_desc_def Let_def mask_16 mask_8 bit_simps split: prod.splits if_splits)
qed

lemma gate_offset_gate_desc: "gate_offset (gate_desc s off a) = off"
  by (rule bit_word_eqI) (auto simp: gate_offset_def gate_desc_def mask_16 bit_simps)

text \<open>The attribute bits that \<open>set_gdt_desc\<close> owns: the limit's high part and the granularity.\<close>

definition plain_attribute :: "ushort \<Rightarrow> bool" where
  "plain_attribute a \<longleftrightarrow> a AND 0x8f00 = 0"

lemma plain_bits:
  assumes "plain_attribute a"
  shows "\<not> bit a 15" "8 \<le> n \<Longrightarrow> n < 12 \<Longrightarrow> \<not> bit a n"
proof -
  have z: "\<not> (bit a k \<and> bit (0x8f00 :: ushort) k)" for k
    using assms unfolding plain_attribute_def by (metis bit_and_iff bit_0_eq bot_apply bot_bool_def)
  show "\<not> bit a 15" using z [of 15] by simp
  assume "8 \<le> n" "n < 12"
  then have "n = 8 \<or> n = 9 \<or> n = 10 \<or> n = 11" by auto
  then show "\<not> bit a n" using z [of n] by auto
qed

lemma small_limit_bits: "(l :: uint) \<le> 0xfffff \<Longrightarrow> 20 \<le> n \<Longrightarrow> \<not> bit l n"
proof -
  assume "l \<le> 0xfffff" "20 \<le> n"
  then have "l < 2 ^ 20" by (simp add: word_le_nat_alt word_less_nat_alt)
  then have "take_bit 20 l = l" using less_mask_eq [of l 20] by (simp add: take_bit_eq_mask)
  then show ?thesis using \<open>20 \<le> n\<close> by (metis bit_take_bit_iff not_le)
qed

lemma desc_limit_gdt_desc:
  assumes "plain_attribute a"
  shows "desc_limit (gdt_desc b l a) = (if l > 0xfffff then l OR 0xfff else l)"
proof (cases "l > 0xfffff")
  case True
  show ?thesis
  proof (rule bit_word_eqI)
    fix n :: nat
    assume n: "n < LENGTH(32)"
    have "bit (g_attribute (gdt_desc b l a)) 15"
      using True by (simp add: gdt_desc_def bit_simps)
    then show "bit (desc_limit (gdt_desc b l a)) n = bit (if l > 0xfffff then l OR 0xfff else l) n"
      using n True plain_bits(2) [OF assms, of "n - 20"]
      by (cases "n < 12"; cases "n < 28")
        (auto simp: desc_limit_def gdt_desc_def Let_def mask_16 mask_4 mask_12 div_page_bits bit_simps)
  qed
next
  case False
  show ?thesis
  proof (rule bit_word_eqI)
    fix n :: nat
    assume n: "n < LENGTH(32)"
    have "\<not> bit (g_attribute (gdt_desc b l a)) 15"
      using False plain_bits(1) [OF assms] by (simp add: gdt_desc_def bit_simps mask_4)
    then show "bit (desc_limit (gdt_desc b l a)) n = bit (if l > 0xfffff then l OR 0xfff else l) n"
      using n False plain_bits(2) [OF assms, of "n - 8"] small_limit_bits [of l n]
      by (cases "n < 16"; cases "n < 20")
        (auto simp: desc_limit_def gdt_desc_def Let_def mask_16 mask_4 bit_simps not_less)
  qed
qed

section \<open>Filling the tables\<close>

lemma each_append: "each f (xs @ ys) s = each f xs s \<bind> each f ys"
  by (induction xs arbitrary: s) (auto split: Option.bind_split)

definition null_desc :: gdt_desc_t where
  "null_desc = gdt_desc 0 0 0"

lemma fill_gdt:
  "n \<le> GDT_TABLE_SIZE \<Longrightarrow> length (gdt_table c) = GDT_TABLE_SIZE \<Longrightarrow>
   each (\<lambda>i. set_gdt_desc (int i) 0 0 0) [0..<n] c
     = Some (c\<lparr>gdt_table := replicate n null_desc @ drop n (gdt_table c)\<rparr>)"
proof (induction n)
  case (Suc n)
  have "(replicate n null_desc @ drop n (gdt_table c))[n := null_desc]
      = replicate (Suc n) null_desc @ drop (Suc n) (gdt_table c)"
    using Suc.prems by (simp add: list_update_append replicate_append_same [symmetric]
        Cons_nth_drop_Suc [symmetric])
  then show ?case using Suc by (simp add: each_append set_gdt_desc_def null_desc_def)
qed simp

lemma fill_idt:
  "n \<le> IDT_TABLE_SIZE \<Longrightarrow> length (idt_table c) = IDT_TABLE_SIZE \<Longrightarrow>
   each (\<lambda>i. set_gate_desc (of_nat i) sel off a) [0..<n] c
     = Some (c\<lparr>idt_table := replicate n (gate_desc sel off a) @ drop n (idt_table c)\<rparr>)"
proof (induction n)
  case (Suc n)
  have u: "unat (of_nat n :: ushort) = n"
    using Suc.prems by (simp add: unat_of_nat IDT_TABLE_SIZE_def)
  have "(replicate n (gate_desc sel off a) @ drop n (idt_table c))[n := gate_desc sel off a]
      = replicate (Suc n) (gate_desc sel off a) @ drop (Suc n) (idt_table c)"
    using Suc.prems by (simp add: list_update_append replicate_append_same [symmetric]
        Cons_nth_drop_Suc [symmetric])
  then show ?case using Suc u by (simp add: each_append set_gate_desc_def)
qed simp

text \<open>An interrupt gate of the kernel, callable from the ring \<open>dpl\<close>.\<close>

definition int_gate :: "uint \<Rightarrow> uint \<Rightarrow> gate_desc_t" where
  "int_gate dpl h = gate_desc KERNEL_SELECTOR_CS h (0x8e00 OR push_bit 13 (ucast dpl))"

definition dpl_of :: "ushort \<Rightarrow> ushort" where
  "dpl_of a = drop_bit 5 a AND 3"

lemma irq_install_ok:
  assumes "0 \<le> n" "n < 256"
  shows "irq_install n h c = Some (c\<lparr>idt_table := (idt_table c)[nat n := int_gate (if n = 0x80 then 3 else 0) h]\<rparr>, 0)"
proof -
  have "uint (word_of_int n :: ushort) = n"
    using assms by (simp add: uint_word_of_int_eq take_bit_int_eq_self)
  then have "unat (word_of_int n :: ushort) = nat n" by (simp add: unat_eq_nat_uint)
  then show ?thesis using assms
    by (simp add: irq_install_def set_gate_desc_def IDT_TABLE_SIZE_def int_gate_def nat_less_iff)
qed

definition vector_handler :: "nat \<Rightarrow> handler" where
  "vector_handler i = (case map_of exception_vectors (int i) of Some h \<Rightarrow> h | None \<Rightarrow> Default)"

lemma install_vectors:
  assumes "length (idt_table c) = 256" "\<forall>(n, h) \<in> set vs. 0 \<le> n \<and> n < 0x80" "distinct (map fst vs)"
  shows "\<exists>c'. each (\<lambda>(n, h) c. map_option fst (irq_install n (entry h) c)) vs c = Some c'
    \<and> length (idt_table c') = 256 \<and> c' = c\<lparr>idt_table := idt_table c'\<rparr>
    \<and> (\<forall>i < 256. idt_table c' ! i = (case map_of vs (int i) of
         Some h \<Rightarrow> int_gate 0 (entry h) | None \<Rightarrow> idt_table c ! i))"
  using assms
proof (induction vs arbitrary: c)
  case (Cons v vs)
  obtain n h where v: "v = (n, h)" by fastforce
  let ?c = "c\<lparr>idt_table := (idt_table c)[nat n := int_gate 0 (entry h)]\<rparr>"
  have n: "0 \<le> n" "n < 0x80" using Cons.prems(2) v by auto
  have step: "map_option fst (irq_install n (entry h) c) = Some ?c"
    using irq_install_ok [of n "entry h" c] n by simp
  obtain c' where c': "each (\<lambda>(n, h) c. map_option fst (irq_install n (entry h) c)) vs ?c = Some c'"
    "length (idt_table c') = 256" "c' = ?c\<lparr>idt_table := idt_table c'\<rparr>"
    "\<forall>i < 256. idt_table c' ! i = (case map_of vs (int i) of
         Some h \<Rightarrow> int_gate 0 (entry h) | None \<Rightarrow> idt_table ?c ! i)"
    using Cons.IH [of ?c] Cons.prems by auto
  have fresh: "map_of vs n = None" using Cons.prems(3) v by (simp add: map_of_eq_None_iff)
  have "idt_table c' ! i = (case map_of (v # vs) (int i) of
         Some h \<Rightarrow> int_gate 0 (entry h) | None \<Rightarrow> idt_table c ! i)" if "i < 256" for i
    using c'(4) that fresh n Cons.prems(1) by (cases "int i = n") (auto simp: v nth_list_update split: option.splits)
  moreover have "c' = c\<lparr>idt_table := idt_table c'\<rparr>" using c'(3) by simp
  ultimately show ?case using c'(1,2) step v by auto
qed simp

lemma vectors_ok: "\<forall>(n, h) \<in> set exception_vectors. 0 \<le> n \<and> n < 0x80" "distinct (map fst exception_vectors)"
  by (simp_all add: exception_vectors_def)

lemma init_8259_tables [simp]:
  "gdt_table (init_8259 c) = gdt_table c" "idt_table (init_8259 c) = idt_table c"
  by (simp_all add: init_8259_def outb_def)

text \<open>The segments of \<open>init_gdt\<close>.\<close>

definition flat_desc :: "ushort \<Rightarrow> gdt_desc_t" where
  "flat_desc a = gdt_desc 0 0xffffffff a"

definition boot_gdt :: "uint \<Rightarrow> gdt_desc_t list" where
  "boot_gdt tss_addr = [null_desc, flat_desc 0x409a, flat_desc 0x4092, flat_desc 0x40fa, flat_desc 0x40f2,
     gdt_desc tss_addr sizeof_tss 0x89] @ replicate 122 null_desc"

lemma init_gdt_table:
  assumes "length (gdt_table c) = GDT_TABLE_SIZE"
  shows "init_gdt ga ta c = Some (c\<lparr>gdt_table := boot_gdt ta, gdtr := Some (ga, 1023)\<rparr>)"
proof -
  let ?r = "replicate GDT_TABLE_SIZE null_desc"
  have r: "?r = null_desc # null_desc # null_desc # null_desc # null_desc # null_desc # replicate 122 null_desc"
    by (simp add: GDT_TABLE_SIZE_def numeral_eq_Suc)
  have ix: "uint (drop_bit 3 KERNEL_SELECTOR_CS) = 1" "uint (drop_bit 3 KERNEL_SELECTOR_DS) = 2"
    "uint (drop_bit 3 USER_SELECTOR_CS) = 3" "uint (drop_bit 3 USER_SELECTOR_DS) = 4"
    "uint (drop_bit 3 TSS_SELECTOR) = 5"
    by (simp_all add: KERNEL_SELECTOR_CS_def KERNEL_SELECTOR_DS_def USER_SELECTOR_CS_def
        USER_SELECTOR_DS_def TSS_SELECTOR_def)
  have nat: "nat 1 = Suc 0" "nat 2 = Suc (Suc 0)" "nat 3 = Suc (Suc (Suc 0))"
    "nat 4 = Suc (Suc (Suc (Suc 0)))" "nat 5 = Suc (Suc (Suc (Suc (Suc 0))))" by simp_all
  have fill: "each (\<lambda>i. set_gdt_desc (int i) 0 0 0) [0..<GDT_TABLE_SIZE] c = Some (c\<lparr>gdt_table := ?r\<rparr>)"
    using fill_gdt [OF order.refl assms] assms by simp
  have lt: "(1 :: int) < int GDT_TABLE_SIZE" "(2 :: int) < int GDT_TABLE_SIZE" "(3 :: int) < int GDT_TABLE_SIZE"
    "(4 :: int) < int GDT_TABLE_SIZE" "(5 :: int) < int GDT_TABLE_SIZE" by (simp_all add: GDT_TABLE_SIZE_def)
  show ?thesis
    unfolding init_gdt_def fill r
    by (simp add: set_gdt_desc_def ix lt nat flat_desc_def boot_gdt_def del: replicate.simps)
      (simp add: GDT_TABLE_SIZE_def)
qed

definition callable :: "cpu \<Rightarrow> nat \<Rightarrow> ushort" where
  "callable c i = drop_bit 13 (attribute (idt_table c ! i)) AND 3"

lemma callable_int_gate: "drop_bit 13 (attribute (int_gate 0 h)) AND 3 = 0" "drop_bit 13 (attribute (int_gate 3 h)) AND 3 = 3"
  by (simp_all add: int_gate_def gate_desc_def)

section \<open>Properties\<close>


definition demo_cpu :: cpu where
  "demo_cpu = \<lparr>gdt_table = replicate 128 null_desc, idt_table = replicate 256 (gate_desc 0 0 0),
     gdtr = None, idtr = None, eflags = 0x202, outs = [], halted = False\<rparr>"




text \<open>The mask registers of the controller: what was written last to their ports is read back.\<close>

definition reads_back :: "device \<Rightarrow> bool" where
  "reads_back dev \<longleftrightarrow> (\<forall>log p v. p \<in> {0x21, 0xa1} \<longrightarrow> dev ((p, v) # log) p = v
     \<and> (\<forall>q \<in> {0x21, 0xa1}. q \<noteq> p \<longrightarrow> dev ((p, v) # log) q = dev log q))"

definition masked :: "device \<Rightarrow> cpu \<Rightarrow> int \<Rightarrow> bool" where
  "masked dev c k = bit (inb dev (if k < 0x28 then 0x21 else 0xa1) c) (nat ((k - 0x20) mod 8))"

lemma ucast_mask:
  "bit (ucast (ucast (v :: uchar) AND NOT (push_bit n (1 :: uint))) :: uchar) j \<longleftrightarrow> j \<noteq> n \<and> bit v j"
  "n < 8 \<Longrightarrow> bit (ucast (ucast (v :: uchar) OR push_bit n (1 :: uint)) :: uchar) j \<longleftrightarrow> j = n \<or> bit v j"
  by (auto simp: bit_simps dest: bit_imp_le_length)

lemma line_bits:
  fixes k :: int
  assumes "0x20 \<le> k" "k < 0x30"
  shows "(k - 0x20) mod 8 = (if k < 0x28 then k - 0x20 else k - 0x28)"
proof (cases "k < 0x28")
  case False
  have "k - 0x20 = (k - 0x28) + 8" by simp
  then have "(k - 0x20) mod 8 = (k - 0x28) mod 8" by (metis mod_add_self2)
  then show ?thesis using assms False by simp
qed (use assms in simp)

text \<open>The port and the bit of a line.\<close>

definition line_port :: "int \<Rightarrow> ushort" where
  "line_port k = (if k < 0x28 then 0x21 else 0xa1)"

definition line_bit :: "int \<Rightarrow> nat" where
  "line_bit k = nat (if k < 0x28 then k - 0x20 else k - 0x28)"

lemma line_eq:
  "0x20 \<le> k \<Longrightarrow> k < 0x30 \<Longrightarrow> 0x20 \<le> n \<Longrightarrow> n < 0x30 \<Longrightarrow> line_port k = line_port n \<Longrightarrow>
   line_bit k = line_bit n \<longleftrightarrow> k = n"
  by (auto simp: line_port_def line_bit_def split: if_splits)

lemma masked_line: "0x20 \<le> k \<Longrightarrow> k < 0x30 \<Longrightarrow> masked dev c k = bit (inb dev (line_port k) c) (line_bit k)"
  by (simp add: masked_def line_port_def line_bit_def line_bits)

lemma enable_line:
  "0x20 \<le> n \<Longrightarrow> n < 0x30 \<Longrightarrow> enable_8259 dev n c =
   outb (line_port n) (ucast (ucast (inb dev (line_port n) c) AND NOT (push_bit (line_bit n) (1 :: uint)))) c"
  by (auto simp: enable_8259_def line_port_def line_bit_def Let_def)

lemma disable_line:
  "0x20 \<le> n \<Longrightarrow> n < 0x30 \<Longrightarrow> disable_8259 dev n c =
   outb (line_port n) (ucast (ucast (inb dev (line_port n) c) OR push_bit (line_bit n) (1 :: uint))) c"
  by (auto simp: disable_8259_def line_port_def line_bit_def Let_def)

lemma inb_outb:
  assumes "reads_back dev"
  shows "inb dev (line_port k) (outb (line_port n) v c)
    = (if line_port k = line_port n then v else inb dev (line_port k) c)"
  using assms by (auto simp: reads_back_def inb_def outb_def line_port_def)

text \<open>interrupt lines are masked one by one.  For a controller that reads back its mask
  registers, \<open>enable_8259\<close> opens exactly the given line of the two controllers and
  \<open>disable_8259\<close> closes it; every other line keeps its state, and a number that is no
  line of theirs changes nothing.\<close>

theorem pic_masks_lines:
  assumes "reads_back dev" "0x20 \<le> k" "k < 0x30" "n \<noteq> 0x30"
  shows "(masked dev (enable_8259 dev n c) k \<longleftrightarrow> k \<noteq> n \<and> masked dev c k)
    \<and> (masked dev (disable_8259 dev n c) k \<longleftrightarrow> k = n \<or> masked dev c k)"
proof (cases "0x20 \<le> n \<and> n < 0x30")
  case True
  have b: "line_bit n < 8" using True by (auto simp: line_bit_def)
  show ?thesis
    using True assms(2,3) line_eq [of k n]
    by (auto simp: masked_line enable_line disable_line inb_outb [OF assms(1)] ucast_mask [simplified] b)
next
  case False
  then show ?thesis using assms by (auto simp: enable_8259_def disable_8259_def)
qed

definition demo_pic :: device where
  "demo_pic log p = (case map_of log p of Some v \<Rightarrow> v | None \<Rightarrow> 0xff)"

lemma pic_masks_lines_witness:
  "\<not> masked demo_pic (enable_8259 demo_pic 0x2e demo_cpu) 0x2e
   \<and> masked demo_pic (enable_8259 demo_pic 0x2e demo_cpu) 0x2f"
proof -
  have "reads_back demo_pic" by (auto simp: reads_back_def demo_pic_def)
  moreover have "masked demo_pic demo_cpu 0x2f" by code_simp
  ultimately show ?thesis
    using pic_masks_lines [of demo_pic "0x2e" "0x2e" demo_cpu]
      pic_masks_lines [of demo_pic "0x2f" "0x2e" demo_cpu] by simp
qed

text \<open>the bounds of \<open>irq_install\<close>.  A vector of the table is installed and 0 returned, a
  number above 256 is refused with -1 and no change; the number 256 passes the test and is
  written one entry past the end of the table.\<close>

theorem irq_install_bounds:
  assumes "0 \<le> n" "n < 2 ^ 16"
  shows "irq_install n h c =
    (if n < 256 then Some (c\<lparr>idt_table := (idt_table c)[nat n := int_gate (if n = 0x80 then 3 else 0) h]\<rparr>, 0)
     else if n = 256 then None else Some (c, - 1))"
proof -
  have "irq_install 256 h c = None"
    by (simp add: irq_install_def set_gate_desc_def IDT_TABLE_SIZE_def)
  moreover have "irq_install n h c = Some (c, - 1)" if "n > 256"
    using that by (simp add: irq_install_def IDT_TABLE_SIZE_def)
  ultimately show ?thesis using irq_install_ok [OF assms(1)] by (cases "n < 256"; cases "n = 256") auto
qed

lemma irq_install_bounds_witness:
  "irq_install 256 7 demo_cpu = None \<and> irq_install 300 7 demo_cpu = Some (demo_cpu, - 1)"
  using irq_install_bounds [of 256 7 demo_cpu] irq_install_bounds [of 300 7 demo_cpu] by simp

end
