(* ===== verification/Time.thy ===== *)
theory Time
  imports Arch Task
begin

text \<open>
  The clock of \<open>source/kernel/time.c\<close>: the conversion of a calendar time to seconds, the
  reading of the real-time clock, the programming of the timer and the timer interrupt, with a
  reference calendar for the conversion.
\<close>

section \<open>The code\<close>

record time_t =
  tm_sec :: int
  tm_min :: int
  tm_hour :: int
  tm_day :: int
  tm_mon :: int
  tm_year :: int

definition MINUTE :: int where "MINUTE = 60"
definition HOUR :: int where "HOUR = 60 * MINUTE"
definition DAY :: int where "DAY = 24 * HOUR"
definition YEAR :: int where "YEAR = 365 * DAY"

definition month :: "int list" where
  "month = [0,
     DAY * 31,
     DAY * (31 + 29),
     DAY * (31 + 29 + 31),
     DAY * (31 + 29 + 31 + 30),
     DAY * (31 + 29 + 31 + 30 + 31),
     DAY * (31 + 29 + 31 + 30 + 31 + 30),
     DAY * (31 + 29 + 31 + 30 + 31 + 30 + 31),
     DAY * (31 + 29 + 31 + 30 + 31 + 30 + 31 + 31),
     DAY * (31 + 29 + 31 + 30 + 31 + 30 + 31 + 31 + 30),
     DAY * (31 + 29 + 31 + 30 + 31 + 30 + 31 + 31 + 30 + 31),
     DAY * (31 + 29 + 31 + 30 + 31 + 30 + 31 + 31 + 30 + 31 + 30)]"

text \<open>The sums are taken modulo 2 ^ 32, as the unsigned result is; a month outside the table has none.\<close>

definition kernel_mktime :: "time_t \<Rightarrow> uint option" where
  "kernel_mktime tm =
     (if 0 \<le> tm_mon tm \<and> tm_mon tm < 12
      then let year = tm_year tm - 1970;
               res = word_of_int (YEAR * year + DAY * cdiv (year + 1) 4) :: uint;
               res = res + word_of_int (month ! nat (tm_mon tm));
               res = (if tm_mon tm > 1 \<and> cmod (year + 2) 4 \<noteq> 0 then res - word_of_int DAY else res);
               res = res + word_of_int (DAY * (tm_day tm - 1));
               res = res + word_of_int (HOUR * tm_hour tm);
               res = res + word_of_int (MINUTE * tm_min tm);
               res = res + word_of_int (tm_sec tm)
           in Some res
      else None)"

definition init_8253 :: "device \<Rightarrow> uint \<Rightarrow> cpu \<Rightarrow> cpu option" where
  "init_8253 dev entry c = do {
     let reload_count = (word_of_int (1193182 div (1000 div 10)) :: uint);
     let c = outb 0x43 (0 OR 0x30 OR 0x06) c;
     let c = outb 0x40 (ucast (reload_count AND 0xFF)) c;
     let c = outb 0x40 (ucast (drop_bit 8 reload_count AND 0xFF)) c;
     (c, _) \<leftarrow> irq_install 0x20 entry c;
     Some (enable_8259 dev 0x20 c) }"

definition get_rtc_reg :: "device \<Rightarrow> uchar \<Rightarrow> cpu \<Rightarrow> cpu \<times> uchar" where
  "get_rtc_reg dev reg c = (let c = outb 0x70 reg c in (c, inb dev 0x71 c))"

text \<open>A binary-coded decimal byte.\<close>

definition from_bcd :: "uint \<Rightarrow> uint" where
  "from_bcd b = (b AND 0x0F) + drop_bit 4 b * 10"

definition get_rtc_time :: "device \<Rightarrow> cpu \<Rightarrow> cpu \<times> time_t" where
  "get_rtc_time dev c =
     (let (c, second) = get_rtc_reg dev 0x00 c;
          (c, minute) = get_rtc_reg dev 0x02 c;
          (c, hour) = get_rtc_reg dev 0x04 c;
          (c, day) = get_rtc_reg dev 0x07 c;
          (c, mon) = get_rtc_reg dev 0x08 c;
          (c, year) = get_rtc_reg dev 0x09 c
      in (c, \<lparr>tm_sec = sint (from_bcd (ucast second)), tm_min = sint (from_bcd (ucast minute)),
              tm_hour = sint (from_bcd (ucast hour)), tm_day = sint (from_bcd (ucast day)),
              tm_mon = sint (from_bcd (ucast mon) - 1), tm_year = sint (from_bcd (ucast year) + 2000)\<rparr>))"

text \<open>The clock's own variables, beside the kernel's process state and the processor's.\<close>

record clock = kernel +
  sys_tick :: uint
  timestamp :: uint
  tick_loop :: uchar

definition time_init :: "device \<Rightarrow> uint \<Rightarrow> cpu \<times> 'a clock_scheme \<Rightarrow> (cpu \<times> 'a clock_scheme) option" where
  "time_init dev entry = (\<lambda>(c, s). do {
     let s = s\<lparr>sys_tick := 0\<rparr>;
     c \<leftarrow> init_8253 dev entry c;
     let (c, tm) = get_rtc_time dev c;
     t \<leftarrow> kernel_mktime tm;
     Some (c, s\<lparr>timestamp := t\<rparr>) })"

definition update_timestamp :: "'a clock_scheme \<Rightarrow> 'a clock_scheme" where
  "update_timestamp s =
     (let s = s\<lparr>tick_loop := tick_loop s + 1\<rparr>
      in if tick_loop s = 100 then s\<lparr>timestamp := timestamp s + 1, tick_loop := 0\<rparr> else s)"

definition do_handler_time :: "cpu \<times> 'a clock_scheme \<Rightarrow> (cpu \<times> 'a clock_scheme) option" where
  "do_handler_time = (\<lambda>(c, s). do {
     let s = s\<lparr>sys_tick := sys_tick s + 1\<rparr>;
     let c = pic_done 0x20 c;
     s \<leftarrow> task_tick s;
     Some (c, update_timestamp s) })"

section \<open>The reference calendar\<close>

definition leap :: "int \<Rightarrow> bool" where
  "leap y \<longleftrightarrow> y mod 4 = 0 \<and> (y mod 100 \<noteq> 0 \<or> y mod 400 = 0)"

definition month_days :: "int \<Rightarrow> nat \<Rightarrow> int" where
  "month_days y m = (if m = 1 then if leap y then 29 else 28
     else if m \<in> {3, 5, 8, 10} then 30 else 31)"

text \<open>Days from 1 January 1970 to the first of the year \<open>1970 + n\<close>, and within a year.\<close>

primrec days_to_year :: "nat \<Rightarrow> int" where
  "days_to_year 0 = 0"
| "days_to_year (Suc n) = days_to_year n + (if leap (1970 + int n) then 366 else 365)"

definition days_to_month :: "int \<Rightarrow> nat \<Rightarrow> int" where
  "days_to_month y m = (\<Sum>k < m. month_days y k)"

definition epoch_seconds :: "time_t \<Rightarrow> int" where
  "epoch_seconds tm =
     (days_to_year (nat (tm_year tm - 1970)) + days_to_month (tm_year tm) (nat (tm_mon tm)) + (tm_day tm - 1)) * 86400
     + tm_hour tm * 3600 + tm_min tm * 60 + tm_sec tm"

definition valid_time :: "time_t \<Rightarrow> bool" where
  "valid_time tm \<longleftrightarrow> 1970 \<le> tm_year tm \<and> tm_year tm < 2100 \<and> 0 \<le> tm_mon tm \<and> tm_mon tm < 12
     \<and> 1 \<le> tm_day tm \<and> tm_day tm \<le> month_days (tm_year tm) (nat (tm_mon tm))
     \<and> 0 \<le> tm_hour tm \<and> tm_hour tm < 24 \<and> 0 \<le> tm_min tm \<and> tm_min tm < 60 \<and> 0 \<le> tm_sec tm \<and> tm_sec tm < 60"

lemma leap_1970:
  assumes "1970 \<le> y" "y < 2100"
  shows "leap y \<longleftrightarrow> y mod 4 = 0"
proof (cases "y = 2000")
  case False
  then have "y < 2000 \<or> 2000 < y" by linarith
  then have "y mod 100 \<noteq> 0"
  proof
    assume "y < 2000"
    then have "y mod 100 = (y - 1900) mod 100" using mod_diff_right_eq [of y 1900 100] by simp
    also have "\<dots> = y - 1900" using assms \<open>y < 2000\<close> by simp
    finally show ?thesis using assms by simp
  next
    assume "2000 < y"
    then have "y mod 100 = (y - 2000) mod 100" using mod_diff_right_eq [of y 2000 100] by simp
    also have "\<dots> = y - 2000" using assms \<open>2000 < y\<close> by simp
    finally show ?thesis using \<open>2000 < y\<close> by simp
  qed
  then show ?thesis by (simp add: leap_def)
qed (simp add: leap_def)

lemma quarter_step: "(x + 3) div 4 = (x + 2) div 4 + (if (x + 3) mod 4 = 0 then 1 else (0 :: int))"
  by presburger

lemma days_to_year_eq: "n \<le> 130 \<Longrightarrow> days_to_year n = 365 * int n + (int n + 1) div 4"
proof (induction n)
  case (Suc n)
  have "(1970 + int n) mod 4 = (int n + 2) mod 4" using mod_add_right_eq by presburger
  then have "leap (1970 + int n) \<longleftrightarrow> (int n + 2) mod 4 = 0" using leap_1970 Suc.prems by simp
  then show ?case using Suc quarter_step [of "int n - 1"] by (simp add: algebra_simps)
qed simp

text \<open>The code's table counts 29 days for February; the correction makes it the calendar's.\<close>

definition table_days :: "nat \<Rightarrow> int" where
  "table_days m = month ! m div 86400"

lemma month_table: "m < 12 \<Longrightarrow> month ! m = 86400 *
    (\<Sum>k < m. if k = 1 then 29 else if k \<in> {3, 5, 8, 10} then 30 else 31)"
proof -
  have "list_all (\<lambda>m. month ! m = 86400 * (\<Sum>k\<leftarrow>[0..<m]. if k = 1 then 29 else if k \<in> {3, 5, 8, 10} then 30 else 31)) [0..<12]"
    by code_simp
  then show "m < 12 \<Longrightarrow> ?thesis"
    by (auto simp: list_all_iff sum_list_distinct_conv_sum_set atLeast0LessThan)
qed

lemma days_to_month_eq:
  assumes "m < 12"
  shows "days_to_month y m * 86400 = month ! m - (if 1 < m \<and> \<not> leap y then 86400 else 0)"
proof -
  have "(\<Sum>k < m. if k = 1 then 29 else if k \<in> {3, 5, 8, 10} then 30 else 31)
      = days_to_month y m + (\<Sum>k < m. if k = 1 \<and> \<not> leap y then 1 else (0 :: int))"
    unfolding days_to_month_def sum.distrib [symmetric] by (intro sum.cong) (auto simp: month_days_def)
  moreover have "(\<Sum>k < m. if k = 1 \<and> \<not> leap y then 1 else (0 :: int)) = (if 1 < m \<and> \<not> leap y then 1 else 0)"
    by (cases "leap y") (auto simp: sum.delta)
  ultimately show ?thesis using month_table [OF assms] by (simp add: algebra_simps)
qed

lemma seconds_sum:
  fixes y :: int
  assumes "dy = 365 * y + q" "dm * 86400 = t - c"
  shows "(dy + dm + (d - 1)) * 86400 + h * 3600 + mi * 60 + s
    = 31536000 * y + 86400 * q + t - c + 86400 * (d - 1) + 3600 * h + 60 * mi + s"
  using assms by (simp add: algebra_simps)

lemma epoch_seconds_eq:
  assumes "valid_time tm"
  shows "epoch_seconds tm = YEAR * (tm_year tm - 1970) + DAY * ((tm_year tm - 1970 + 1) div 4)
     + month ! nat (tm_mon tm) - (if tm_mon tm > 1 \<and> (tm_year tm - 1970 + 2) mod 4 \<noteq> 0 then DAY else 0)
     + DAY * (tm_day tm - 1) + HOUR * tm_hour tm + MINUTE * tm_min tm + tm_sec tm"
proof -
  let ?y = "tm_year tm" and ?m = "nat (tm_mon tm)"
  have y: "1970 \<le> ?y" "?y < 2100" "?m < 12" using assms by (auto simp: valid_time_def)
  have "(?y - 1970 + 2) mod 4 = ?y mod 4" using mod_add_right_eq by presburger
  then have leap: "leap ?y \<longleftrightarrow> (?y - 1970 + 2) mod 4 = 0" using leap_1970 y by simp
  have "1 < ?m \<longleftrightarrow> 1 < tm_mon tm" by auto
  with days_to_month_eq [OF y(3), of ?y] leap
  have month: "days_to_month ?y ?m * 86400
      = month ! ?m - (if tm_mon tm > 1 \<and> (?y - 1970 + 2) mod 4 \<noteq> 0 then 86400 else 0)"
    by simp
  have "days_to_year (nat (?y - 1970)) = 365 * (?y - 1970) + (?y - 1970 + 1) div 4"
    using days_to_year_eq [of "nat (?y - 1970)"] y by simp
  moreover have units: "YEAR = 31536000" "DAY = 86400" "HOUR = 3600" "MINUTE = 60"
    by (simp_all add: YEAR_def DAY_def HOUR_def MINUTE_def)
  ultimately show ?thesis
    unfolding epoch_seconds_def units using month by (intro seconds_sum) simp_all
qed

lemma days_to_month_bounds:
  assumes "m < 12"
  shows "0 \<le> days_to_month y m" "days_to_month y m + month_days y m \<le> 366"
proof -
  have "0 \<le> month_days y k" "month_days y k \<le> (if k = 1 then 29 else if k \<in> {3, 5, 8, 10} then 30 else 31)" for k
    by (auto simp: month_days_def)
  then show "0 \<le> days_to_month y m" by (simp add: days_to_month_def sum_nonneg)
  have "days_to_month y m + month_days y m = (\<Sum>k < Suc m. month_days y k)" by (simp add: days_to_month_def)
  also have "\<dots> \<le> (\<Sum>k < 12. month_days y k)"
    using assms \<open>\<And>k. 0 \<le> month_days y k\<close> by (intro sum_mono2) auto
  also have "\<dots> \<le> 366" by (simp add: month_days_def eval_nat_numeral)
  finally show "days_to_month y m + month_days y m \<le> 366" .
qed

lemma epoch_seconds_bounds:
  assumes "valid_time tm"
  shows "0 \<le> epoch_seconds tm" "epoch_seconds tm < 2 ^ 32"
proof -
  let ?n = "nat (tm_year tm - 1970)" and ?m = "nat (tm_mon tm)"
  have v: "?n \<le> 129" "?m < 12" "1 \<le> tm_day tm" "tm_day tm \<le> month_days (tm_year tm) ?m"
    "0 \<le> tm_hour tm" "tm_hour tm < 24" "0 \<le> tm_min tm" "tm_min tm < 60" "0 \<le> tm_sec tm" "tm_sec tm < 60"
    using assms by (auto simp: valid_time_def)
  have "days_to_year ?n = 365 * int ?n + (int ?n + 1) div 4" using v by (intro days_to_year_eq) simp
  then have y: "0 \<le> days_to_year ?n" "days_to_year ?n \<le> 47117" using v(1) by (auto; linarith)+
  define D where "D = days_to_year ?n + days_to_month (tm_year tm) ?m + (tm_day tm - 1)"
  have D: "0 \<le> D" "D \<le> 47117 + 365"
    using y v(3,4) days_to_month_bounds [OF v(2), of "tm_year tm"] by (auto simp: D_def)
  have e: "epoch_seconds tm = D * 86400 + tm_hour tm * 3600 + tm_min tm * 60 + tm_sec tm"
    by (simp add: epoch_seconds_def D_def)
  show "0 \<le> epoch_seconds tm" using e D v by simp
  have "epoch_seconds tm \<le> 47482 * 86400 + 23 * 3600 + 59 * 60 + 59" using e D v by linarith
  then show "epoch_seconds tm < 2 ^ 32" by simp
qed

lemma kernel_mktime_epoch:
  assumes "valid_time tm"
  shows "kernel_mktime tm = Some (word_of_int (epoch_seconds tm))"
proof -
  have "0 \<le> tm_mon tm" "tm_mon tm < 12" "0 \<le> tm_year tm - 1970 + 1" "0 \<le> tm_year tm - 1970 + 2"
    using assms by (auto simp: valid_time_def)
  then show ?thesis
    unfolding kernel_mktime_def epoch_seconds_eq [OF assms]
    by (simp add: Let_def algebra_simps)
qed

section \<open>The real-time clock\<close>

text \<open>The clock chip answers a read of port \<open>0x71\<close> with the register last selected at \<open>0x70\<close>.\<close>

definition clock_chip :: "(uchar \<Rightarrow> uchar) \<Rightarrow> device \<Rightarrow> bool" where
  "clock_chip reg dev \<longleftrightarrow> (\<forall>log r. dev ((0x70, r) # log) 0x71 = reg r)"

definition bcd :: "int \<Rightarrow> uchar" where
  "bcd n = word_of_int (16 * (n div 10) + n mod 10)"

lemma from_bcd_bcd:
  assumes "0 \<le> n" "n < 100"
  shows "from_bcd (ucast (bcd n)) = word_of_int n"
proof -
  have "list_all (\<lambda>k. from_bcd (ucast (bcd k)) = word_of_int k) [0..99]"
    by (simp add: upto.simps from_bcd_def bcd_def)
  then show ?thesis using assms by (simp add: list_all_iff)
qed

lemma sint_small_int: "0 \<le> n \<Longrightarrow> n < 2 ^ 31 \<Longrightarrow> sint (word_of_int n :: uint) = n"
  by (subst sint_of_small; simp add: uint_of_small)

lemma get_rtc_time_regs:
  assumes "clock_chip reg dev"
  shows "snd (get_rtc_time dev c) = \<lparr>tm_sec = sint (from_bcd (ucast (reg 0))), tm_min = sint (from_bcd (ucast (reg 2))),
      tm_hour = sint (from_bcd (ucast (reg 4))), tm_day = sint (from_bcd (ucast (reg 7))),
      tm_mon = sint (from_bcd (ucast (reg 8)) - 1), tm_year = sint (from_bcd (ucast (reg 9)) + 2000)\<rparr>"
  using assms by (simp add: get_rtc_time_def get_rtc_reg_def clock_chip_def inb_def outb_def Let_def)

section \<open>What a tick leaves to the clock\<close>

lemma more_upd [simp]:
  "kernel.more (upd_task t f s) = kernel.more s" "kernel.more (upd_links g s) = kernel.more s"
  by (simp_all add: upd_task_def upd_links_def)

lemma more_schedule: "schedule s = Some s' \<Longrightarrow> kernel.more s' = kernel.more s"
  by (auto simp: schedule_def switch_tss_def switch_mm_def switch_to_def Let_def split: Option.bind_splits)

lemma more_wake_sleepers: "wake_sleepers q s = Some s' \<Longrightarrow> kernel.more s' = kernel.more s"
proof (rule wake_sleepers.raw_induct [where P = "\<lambda>q s s'. kernel.more s' = kernel.more s"])
  fix w q s s'
  assume IH: "\<And>q (s :: 'a kernel_scheme) s'. w q s = Some s' \<Longrightarrow> kernel.more s' = kernel.more s"
    and eq: "(if q = SleepHead then Some s
      else let next = nxt (links s) q
           in case rq_task q of None \<Rightarrow> None
              | Some t \<Rightarrow> (let s = upd_task t (\<lambda>k. k\<lparr>t_sleep_ticks := t_sleep_ticks k - 1\<rparr>) s;
                       s = (if t_sleep_ticks (tasks s t) = 0 then task_wakeup t s else s)
                   in w next s)) = Some s'"
  show "kernel.more s' = kernel.more s"
    using eq by (auto simp: Let_def task_wakeup_def split: if_splits option.splits dest!: IH)
qed

lemma more_task_tick: "task_tick s = Some s' \<Longrightarrow> kernel.more s' = kernel.more s"
  by (auto simp: task_tick_def Let_def dest!: more_schedule more_wake_sleepers split: Option.bind_splits if_splits)

lemma clock_fields:
  assumes "kernel.more s' = kernel.more (s :: 'a clock_scheme)"
  shows "sys_tick s' = sys_tick s" "timestamp s' = timestamp s" "tick_loop s' = tick_loop s"
  using assms by (cases s; cases s'; simp)+

text \<open>A sequence of timer interrupts.\<close>

primrec timer_interrupts :: "nat \<Rightarrow> cpu \<times> 'a clock_scheme \<Rightarrow> (cpu \<times> 'a clock_scheme) option" where
  "timer_interrupts 0 s = Some s"
| "timer_interrupts (Suc n) s = timer_interrupts n s \<bind> do_handler_time"

lemma timer_interrupts_clock:
  assumes "sched_ok s Q" "unat (tick_loop s) < 100"
  shows "\<exists>c' s'. timer_interrupts n (c, s) = Some (c', s')
    \<and> sys_tick s' = sys_tick s + of_nat n
    \<and> timestamp s' = timestamp s + of_nat ((unat (tick_loop s) + n) div 100)
    \<and> unat (tick_loop s') = (unat (tick_loop s) + n) mod 100 \<and> (\<exists>Q'. sched_ok s' Q')"
proof (induction n)
  case 0
  then show ?case using assms by auto
next
  case (Suc n)
  let ?L = "unat (tick_loop s) + n"
  obtain c1 s1 Q1 where s1: "timer_interrupts n (c, s) = Some (c1, s1)" "sys_tick s1 = sys_tick s + of_nat n"
    "timestamp s1 = timestamp s + of_nat (?L div 100)" "unat (tick_loop s1) = ?L mod 100" "sched_ok s1 Q1"
    using Suc by auto
  let ?s2 = "s1\<lparr>sys_tick := sys_tick s1 + 1\<rparr>"
  have ok2: "sched_ok ?s2 Q1" using s1(5) by (simp add: sched_ok_def)
  then obtain t where cur: "current ?s2 = Some t" by (auto simp: sched_ok_def)
  obtain s3 Q3 where s3: "task_tick ?s2 = Some s3" "sched_ok s3 Q3"
    using task_tick_spec [OF ok2 cur] by blast
  note keep = clock_fields [OF more_task_tick [OF s3(1)], simplified]
  have tl: "unat (tick_loop s3 + 1) = Suc (?L mod 100)"
  proof -
    have "?L mod 100 < 100" by simp
    then show ?thesis using keep(3) s1(4) by (simp add: unat_word_ariths)
  qed
  have hundred: "tick_loop s3 + 1 = 100 \<longleftrightarrow> ?L mod 100 = 99"
  proof -
    have "tick_loop s3 + 1 = 100 \<longleftrightarrow> unat (tick_loop s3 + 1) = unat (100 :: uchar)"
      by (simp only: word_unat_eq_iff)
    then show ?thesis using tl by simp
  qed
  have run: "timer_interrupts (Suc n) (c, s) = Some (pic_done 0x20 c1, update_timestamp s3)"
    using s1(1) s3(1) by (simp add: do_handler_time_def)
  have ok: "sched_ok (update_timestamp s3) Q3"
    using s3(2) by (simp add: update_timestamp_def Let_def sched_ok_def)
  show ?case
  proof (cases "?L mod 100 = 99")
    case True
    then have "Suc ?L div 100 = Suc (?L div 100)" "Suc ?L mod 100 = 0"
      by (simp_all add: div_Suc mod_Suc)
    then show ?thesis using run ok True keep s1 hundred
      by (auto simp: update_timestamp_def Let_def)
  next
    case False
    then have "Suc ?L div 100 = ?L div 100" "Suc ?L mod 100 = Suc (?L mod 100)"
      by (simp_all add: div_Suc mod_Suc)
    then show ?thesis using run ok False keep s1 hundred tl
      by (auto simp: update_timestamp_def Let_def)
  qed
qed

section \<open>Properties\<close>

text \<open>C30: the conversion of a calendar time.  For every valid time from 1970 to the end of 2099,
  \<open>kernel_mktime\<close> gives the number of seconds since 1970 of the Gregorian calendar, without
  overflow.\<close>

theorem mktime_counts_seconds:
  assumes "valid_time tm"
  shows "\<exists>t. kernel_mktime tm = Some t \<and> uint t = epoch_seconds tm"
  using kernel_mktime_epoch [OF assms] epoch_seconds_bounds [OF assms] by (simp add: uint_of_small)

lemma mktime_counts_seconds_witness:
  "\<exists>t. kernel_mktime \<lparr>tm_sec = 7, tm_min = 5, tm_hour = 4, tm_day = 29, tm_mon = 1, tm_year = 2000\<rparr> = Some t
     \<and> uint t = 951797107"
proof -
  let ?tm = "\<lparr>tm_sec = 7, tm_min = 5, tm_hour = 4, tm_day = 29, tm_mon = 1, tm_year = 2000\<rparr>"
  have "valid_time ?tm" "epoch_seconds ?tm = 951797107" by code_simp+
  with mktime_counts_seconds [of ?tm] show ?thesis by simp
qed

text \<open>the clock at boot.  With a clock chip whose registers hold a valid time of this century in
  binary-coded decimal, \<open>time_init\<close> returns with the timestamp of that time and the tick
  count zero.\<close>

theorem time_init_reads_clock:
  assumes "clock_chip reg dev" "valid_time tm" "2000 \<le> tm_year tm"
    and "reg 0 = bcd (tm_sec tm)" "reg 2 = bcd (tm_min tm)" "reg 4 = bcd (tm_hour tm)"
    and "reg 7 = bcd (tm_day tm)" "reg 8 = bcd (tm_mon tm + 1)" "reg 9 = bcd (tm_year tm - 2000)"
    and "length (idt_table c) = 256"
  shows "\<exists>c' s'. time_init dev entry (c, s) = Some (c', s')
    \<and> uint (timestamp s') = epoch_seconds tm \<and> sys_tick s' = 0"
proof -
  have v: "0 \<le> tm_sec tm" "tm_sec tm < 60" "0 \<le> tm_min tm" "tm_min tm < 60" "0 \<le> tm_hour tm" "tm_hour tm < 24"
    "1 \<le> tm_day tm" "tm_day tm \<le> 31" "0 \<le> tm_mon tm" "tm_mon tm < 12" "tm_year tm < 2100"
    using assms(2) by (auto simp: valid_time_def month_days_def split: if_splits)
  have "word_of_int (tm_mon tm + 1) - 1 = (word_of_int (tm_mon tm) :: uint)"
    "word_of_int (tm_year tm - 2000) + 2000 = (word_of_int (tm_year tm) :: uint)" by simp_all
  then have tm: "snd (get_rtc_time dev c1) = tm" for c1
    unfolding get_rtc_time_regs [OF assms(1)] assms(4-9)
    using v assms(3) by (cases tm) (simp add: from_bcd_bcd sint_small_int)
  define e :: uint where "e = word_of_int (epoch_seconds tm)"
  have e: "kernel_mktime tm = Some e" "uint e = epoch_seconds tm"
    using kernel_mktime_epoch [OF assms(2)] epoch_seconds_bounds [OF assms(2)]
    by (simp_all add: e_def uint_of_small)
  obtain c1 where c1: "init_8253 dev entry c = Some c1"
    by (auto simp: init_8253_def irq_install_ok Let_def)
  obtain c2 where "get_rtc_time dev c1 = (c2, tm)" using tm [of c1] by (metis prod.collapse)
  then show ?thesis using c1 e by (simp add: time_init_def)
qed

definition demo_clock :: clock where
  "demo_clock = kernel.extend (boot_kernel 2) \<lparr>sys_tick = 0, timestamp = 0, tick_loop = 0\<rparr>"

definition demo_rtc :: "uchar \<Rightarrow> uchar" where
  "demo_rtc r = (case map_of [(0, 0x59), (2, 0x30), (4, 0x12), (7, 0x23), (8, 0x11), (9, 0x24)] r of
     Some v \<Rightarrow> v | None \<Rightarrow> 0)"

definition demo_chip :: device where
  "demo_chip log p = (case log of (q, r) # _ \<Rightarrow> if q = 0x70 \<and> p = 0x71 then demo_rtc r else 0 | [] \<Rightarrow> 0)"

lemma time_init_reads_clock_witness:
  "\<exists>c' s'. time_init demo_chip 0x1234 (demo_cpu, demo_clock) = Some (c', s') \<and> uint (timestamp s') = 1732365059"
proof -
  let ?tm = "\<lparr>tm_sec = 59, tm_min = 30, tm_hour = 12, tm_day = 23, tm_mon = 10, tm_year = 2024\<rparr>"
  have "clock_chip demo_rtc demo_chip" by (simp add: clock_chip_def demo_chip_def)
  moreover have "valid_time ?tm" "epoch_seconds ?tm = 1732365059" by code_simp+
  moreover have "demo_rtc 0 = bcd 59" "demo_rtc 2 = bcd 30" "demo_rtc 4 = bcd 12" "demo_rtc 7 = bcd 23"
    "demo_rtc 8 = bcd (10 + 1)" "demo_rtc 9 = bcd (2024 - 2000)" by code_simp+
  ultimately show ?thesis
    using time_init_reads_clock [of demo_rtc demo_chip ?tm demo_cpu "0x1234" demo_clock]
    by (auto simp: demo_cpu_def)
qed

text \<open>a second is a hundred ticks.  From a kernel with its queues in order, any number of
  timer interrupts return, the tick count is up by their number and the timestamp by the
  number of hundreds passed, whatever the processes do.\<close>

theorem hundred_ticks_a_second:
  assumes "sched_ok s Q" "unat (tick_loop s) < 100"
  shows "\<exists>c' s'. timer_interrupts n (c, s) = Some (c', s')
    \<and> sys_tick s' = sys_tick s + of_nat n
    \<and> timestamp s' = timestamp s + of_nat ((unat (tick_loop s) + n) div 100)"
  using timer_interrupts_clock [OF assms] by blast

lemma hundred_ticks_a_second_witness:
  "\<exists>c' s'. timer_interrupts 250 (demo_cpu, demo_clock) = Some (c', s') \<and> timestamp s' = 2"
proof -
  have "sched_ok (boot_kernel 2) (boot_queues 2)" by (rule sched_ok_boot) simp
  then have "sched_ok demo_clock (boot_queues 2)"
    by (simp add: sched_ok_def demo_clock_def kernel.defs)
  moreover have c: "tick_loop demo_clock = 0" "timestamp demo_clock = 0"
    by (simp_all add: demo_clock_def kernel.defs)
  ultimately obtain c' s' where "timer_interrupts 250 (demo_cpu, demo_clock) = Some (c', s')"
    "timestamp s' = of_nat ((0 + 250) div 100)"
    using hundred_ticks_a_second [of demo_clock "boot_queues 2" 250 demo_cpu] by auto
  then show ?thesis by simp
qed

end
