(* ===== verification/Page.thy ===== *)
theory Page
  imports Bitmap Ipc Time
begin

text \<open>
  Physical pages and page tables: \<open>source/mm/page.c\<close>, and the routines of
  \<open>source/kernel/task.c\<close> that walk the tables (\<open>trans_vtop\<close>, the copies between user and kernel
  space, the copy of an address space).  The kernel maps physical memory one to one, so a page
  directory or a page table is a physical address, and its entries are little-endian words in
  the memory of the model; the page map lies in the same memory.
\<close>

section \<open>The state\<close>

text \<open>The machine: the kernel's process state, physical memory and the page map.\<close>

record phys = clock +
  pmem :: mem
  bitmap :: bit_map_t

text \<open>The kernel's static mutexes are numbered.\<close>

definition PAGE_MUTEX :: nat where "PAGE_MUTEX = 0"

definition ENOMEM :: int where "ENOMEM = 9"

text \<open>
  An operation of \<open>ipc.c\<close> after which the caller goes on at once: the mutex was free, so there
  was no switch to another process.  A call that has to wait is \<open>None\<close> here; what happens then
  is the subject of the theory \<open>Ipc\<close>.
\<close>

definition at_once :: "('a kernel_scheme \<Rightarrow> 'a kernel_scheme option) \<Rightarrow>
    'a kernel_scheme \<Rightarrow> 'a kernel_scheme option" where
  "at_once f s = do { s' \<leftarrow> f s; if current s' = current s then Some s' else None }"

definition upd_mem :: "(mem \<Rightarrow> mem) \<Rightarrow> 'a phys_scheme \<Rightarrow> 'a phys_scheme" where
  "upd_mem f s = s\<lparr>pmem := f (pmem s)\<rparr>"

section \<open>Pages\<close>

definition page_init :: "'a phys_scheme \<Rightarrow> 'a phys_scheme option" where
  "page_init s = do {
     (b, m) \<leftarrow> bitmap_init (bitmap s) (pmem s);
     Some (mutex_init PAGE_MUTEX (s\<lparr>bitmap := b, pmem := m\<rparr>)) }"

definition alloc_pages :: "int \<Rightarrow> 'a phys_scheme \<Rightarrow> ('a phys_scheme \<times> uint) option" where
  "alloc_pages count s = do {
     s \<leftarrow> at_once (mutex_lock PAGE_MUTEX) s;
     let (m, index) = bitmap_alloc_bits (bitmap s) count (pmem s);
     let s = s\<lparr>pmem := m\<rparr>;
     let a = (if index > 0 then word_of_int (index * PAGE_SIZE) else 0);
     s \<leftarrow> at_once (mutex_unlock PAGE_MUTEX) s;
     Some (s, a) }"

definition free_pages :: "uint \<Rightarrow> int \<Rightarrow> 'a phys_scheme \<Rightarrow> 'a phys_scheme option" where
  "free_pages a count s = do {
     s \<leftarrow> at_once (mutex_lock PAGE_MUTEX) s;
     let s = upd_mem (bitmap_free_bits (bitmap s) a count) s;
     at_once (mutex_unlock PAGE_MUTEX) s }"

section \<open>Page tables\<close>

definition PAGE_PRESENT :: uint where "PAGE_PRESENT = 1"
definition PAGE_DIRTY :: uint where "PAGE_DIRTY = 0x40"
definition PAGE_SHARED :: uint where "PAGE_SHARED = 0x227"
definition USER_MEMORY_BEGIN :: uint where "USER_MEMORY_BEGIN = 0x40000000"
definition KERNEL_PAGE_DIR :: addr where "KERNEL_PAGE_DIR = 0x200000"

definition align_down :: "uint \<Rightarrow> uint \<Rightarrow> uint" where
  "align_down a align = a AND NOT (align - 1)"

definition pde_index :: "uint \<Rightarrow> uint" where
  "pde_index a = drop_bit 22 a"

definition pte_index :: "uint \<Rightarrow> uint" where
  "pte_index a = drop_bit 12 a AND 0x3FF"

text \<open>The bit fields of an entry that the code tests.\<close>

definition present :: "uint \<Rightarrow> bool" where
  "present e \<longleftrightarrow> e AND PAGE_PRESENT \<noteq> 0"

definition dirty :: "uint \<Rightarrow> bool" where
  "dirty e \<longleftrightarrow> e AND PAGE_DIRTY \<noteq> 0"

definition pages_of :: "uint \<Rightarrow> uint" where
  "pages_of sz = (sz + 4096 - 1) div 4096"

text \<open>
  \<open>do ... while (--count)\<close> counts to zero, and from 0 through the wrap-around;
  \<open>do ... while (count--)\<close> takes one round more than \<open>count\<close>.
\<close>

definition rounds_pre :: "uint \<Rightarrow> nat" where
  "rounds_pre count = (if count = 0 then 2 ^ 32 else unat count)"

primrec map_pages :: "nat \<Rightarrow> addr \<Rightarrow> 'a phys_scheme \<Rightarrow> ('a phys_scheme \<times> int) option" where
  "map_pages 0 pte s = Some (s, 0)"
| "map_pages (Suc n) pte s = do {
     (s, pg) \<leftarrow> alloc_pages 1 s;
     if pg = 0 then Some (s, - ENOMEM)
     else map_pages n (pte + 4) (upd_mem (\<lambda>m. store32 m pte (pg OR PAGE_SHARED)) s) }"

definition alloc_vpages :: "addr \<Rightarrow> uint \<Rightarrow> uint \<Rightarrow> 'a phys_scheme \<Rightarrow> ('a phys_scheme \<times> int) option" where
  "alloc_vpages pde a sz s = do {
     let dindex = pde_index a;
     let index = pte_index a;
     let count = pages_of sz;
     let page = load32 (pmem s) (pde + 4 * dindex);
     (s, page) \<leftarrow> (if page = 0 then do {
         (s, page) \<leftarrow> alloc_pages 1 s;
         if page = 0 then Some (s, 0)
         else Some (upd_mem (\<lambda>m. store32 m (pde + 4 * dindex) (page OR PAGE_SHARED)) s, page) }
       else Some (s, page));
     if page = 0 then Some (s, - ENOMEM)
     else do {
       let page = align_down page 4096;
       let pte = page + 4 * index;
       let e = load32 (pmem s) pte;
       if present e \<and> \<not> dirty e then Some (s, 0)
       else map_pages (rounds_pre count) pte s } }"

primrec unmap_pages :: "nat \<Rightarrow> addr \<Rightarrow> 'a phys_scheme \<Rightarrow> 'a phys_scheme option" where
  "unmap_pages 0 pte s = Some s"
| "unmap_pages (Suc n) pte s = do {
     s \<leftarrow> free_pages (align_down (load32 (pmem s) pte) 4096) 1 s;
     unmap_pages n (pte + 4) (upd_mem (\<lambda>m. store32 m pte 0) s) }"

text \<open>The check whether the table is empty looks at \<open>pte[0]\<close> 1024 times.\<close>

primrec table_empty_loop :: "nat \<Rightarrow> addr \<Rightarrow> mem \<Rightarrow> bool" where
  "table_empty_loop 0 pte m = True"
| "table_empty_loop (Suc n) pte m = (if load32 m pte \<noteq> 0 then False else table_empty_loop n pte m)"

definition free_vpages :: "addr \<Rightarrow> uint \<Rightarrow> uint \<Rightarrow> 'a phys_scheme \<Rightarrow> 'a phys_scheme option" where
  "free_vpages pde a sz s = (
     let dindex = pde_index a;
         index = pte_index a;
         count = pages_of sz;
         page = load32 (pmem s) (pde + 4 * dindex)
     in if page AND PAGE_PRESENT = 0 then Some s
        else do {
          let page = align_down page 4096;
          s \<leftarrow> unmap_pages (unat count + 1) (page + 4 * index) s;
          if \<not> table_empty_loop 1024 page (pmem s) then Some s
          else free_pages page 1 (upd_mem (\<lambda>m. store32 m pde 0) s) })"

text \<open>The loop of \<open>create_pde\<close>: the kernel's entries are copied, the user's cleared.\<close>

definition copy_kernel_entry :: "addr \<Rightarrow> mem \<Rightarrow> uint \<Rightarrow> mem" where
  "copy_kernel_entry pde m i = store32 m (pde + 4 * i)
     (if i < pde_index USER_MEMORY_BEGIN then load32 m (KERNEL_PAGE_DIR + 4 * i) else 0)"

definition create_pde :: "'a phys_scheme \<Rightarrow> ('a phys_scheme \<times> uint) option" where
  "create_pde s = do {
     (s, pde) \<leftarrow> alloc_pages 1 s;
     if pde = 0 then Some (s, 0)
     else do {
       let s = upd_mem (kmemset pde 0 PAGE_SIZE) s;
       let s = upd_mem (\<lambda>m. foldl (copy_kernel_entry pde) m (map of_nat [0..<1024])) s;
       Some (s, pde) } }"

primrec destroy_ptes :: "nat \<Rightarrow> addr \<Rightarrow> 'a phys_scheme \<Rightarrow> 'a phys_scheme option" where
  "destroy_ptes 0 pte s = Some s"
| "destroy_ptes (Suc n) pte s = do {
     let e = load32 (pmem s) pte;
     s \<leftarrow> (if present e then do {
         s \<leftarrow> free_pages (align_down e 4096) 1 s;
         Some (upd_mem (\<lambda>m. store32 m pte 0) s) }
       else Some s);
     destroy_ptes n (pte + 4) s }"

primrec destroy_pdes :: "nat \<Rightarrow> addr \<Rightarrow> 'a phys_scheme \<Rightarrow> 'a phys_scheme option" where
  "destroy_pdes 0 pde s = Some s"
| "destroy_pdes (Suc n) pde s = do {
     let e = load32 (pmem s) pde;
     s \<leftarrow> (if present e then do {
         s \<leftarrow> destroy_ptes 1024 (align_down e 4096) s;
         s \<leftarrow> free_pages (align_down (load32 (pmem s) pde) 4096) 1 s;
         Some (upd_mem (\<lambda>m. store32 m pde 0) s) }
       else Some s);
     destroy_pdes n (pde + 4) s }"

definition destroy_pde :: "uint \<Rightarrow> 'a phys_scheme \<Rightarrow> 'a phys_scheme option" where
  "destroy_pde page_dir s = do {
     let user_start = pde_index USER_MEMORY_BEGIN;
     s \<leftarrow> destroy_pdes (1024 - unat user_start) (page_dir + 4 * user_start) s;
     free_pages page_dir 1 s }"

section \<open>Walking the tables\<close>

definition trans_vtop :: "mem \<Rightarrow> addr \<Rightarrow> uint \<Rightarrow> uint" where
  "trans_vtop m pde vaddr =
     (let page = load32 m (pde + 4 * pde_index vaddr)
      in if page = 0 then 0
         else let pg = align_down page 4096 + 4 * pte_index vaddr
              in align_down (load32 m pg) 4096 + (vaddr AND (4096 - 1)))"

text \<open>How much of a transfer of \<open>size\<close> bytes fits into the page of \<open>a\<close>.\<close>

definition to_copy :: "uint \<Rightarrow> uint \<Rightarrow> uint" where
  "to_copy a sz = (let rest = 4096 - (a AND (4096 - 1)) in if sz < rest then sz else rest)"

lemma to_copy_bounds: "0 < sz \<Longrightarrow> 0 < to_copy a sz" "to_copy a sz \<le> sz"
proof -
  have "a AND 4095 \<le> 4095" by (rule word_and_le1)
  then have "unat (a AND 4095) \<le> 4095" by (simp add: word_le_nat_alt)
  then have "unat (4096 - (a AND 4095)) = 4096 - unat (a AND 4095)"
    by (subst unat_sub) (auto simp: word_le_nat_alt)
  then have "0 < 4096 - (a AND 4095)" using \<open>unat (a AND 4095) \<le> 4095\<close> by (simp add: word_less_nat_alt)
  then show "0 < sz \<Longrightarrow> 0 < to_copy a sz" "to_copy a sz \<le> sz"
    by (auto simp: to_copy_def Let_def)
qed

lemma to_copy_nonzero: "0 < sz \<Longrightarrow> to_copy a sz \<noteq> 0"
  using to_copy_bounds(1) [of sz a] by auto

function copy_from_loop :: "addr \<Rightarrow> addr \<Rightarrow> addr \<Rightarrow> uint \<Rightarrow> mem \<Rightarrow> mem" where
  "copy_from_loop pde dest src sz m =
     (if 0 < sz
      then let n = to_copy src sz; paddr = trans_vtop m pde src
           in copy_from_loop pde (dest + n) (src + n) (sz - n) (kmemcpy dest paddr (uint n) m)
      else m)"
  by pat_completeness auto
termination
  by (relation "measure (\<lambda>(pde, d, s, sz, m). unat sz)")
    (auto simp: to_copy_bounds to_copy_nonzero unat_sub Let_def word_less_nat_alt [symmetric] unat_gt_0
      intro!: diff_less)

text \<open>The second test of the guard, on an unsigned maximum, never holds.\<close>

definition copy_from_user_n :: "addr \<Rightarrow> addr \<Rightarrow> addr \<Rightarrow> uint \<Rightarrow> mem \<Rightarrow> mem \<times> int" where
  "copy_from_user_n pde dest src sz m =
     (if sint src < 0x40000000 \<or> src + sz > 0xFFFFFFFF then (m, - 1)
      else (copy_from_loop pde dest src sz m, 0))"

function copy_to_loop :: "addr \<Rightarrow> addr \<Rightarrow> addr \<Rightarrow> uint \<Rightarrow> mem \<Rightarrow> mem" where
  "copy_to_loop pde dest src sz m =
     (if 0 < sz
      then let n = to_copy dest sz; paddr = trans_vtop m pde dest
           in copy_to_loop pde (dest + n) (src + n) (sz - n) (kmemcpy paddr src (uint n) m)
      else m)"
  by pat_completeness auto
termination
  by (relation "measure (\<lambda>(pde, d, s, sz, m). unat sz)")
    (auto simp: to_copy_bounds to_copy_nonzero unat_sub Let_def word_less_nat_alt [symmetric] unat_gt_0
      intro!: diff_less)

definition copy_to_user_n :: "addr \<Rightarrow> addr \<Rightarrow> addr \<Rightarrow> uint \<Rightarrow> mem \<Rightarrow> mem \<times> int" where
  "copy_to_user_n pde dest src sz m =
     (if dest < 0x40000000 \<or> dest + sz > 0xFFFFFFFF then (m, - 1)
      else (copy_to_loop pde dest src sz m, 0))"

declare copy_from_loop.simps [simp del] copy_to_loop.simps [simp del]

definition copy_from_user :: "addr \<Rightarrow> addr \<Rightarrow> uint \<Rightarrow> 'a phys_scheme \<Rightarrow> ('a phys_scheme \<times> int) option" where
  "copy_from_user dest src sz s = do {
     cur \<leftarrow> current s;
     let (m, r) = copy_from_user_n (t_cr3 (tasks s cur)) dest src sz (pmem s);
     Some (s\<lparr>pmem := m\<rparr>, r) }"

definition copy_to_user :: "addr \<Rightarrow> addr \<Rightarrow> uint \<Rightarrow> 'a phys_scheme \<Rightarrow> ('a phys_scheme \<times> int) option" where
  "copy_to_user dest src sz s = do {
     cur \<leftarrow> current s;
     let (m, r) = copy_to_user_n (t_cr3 (tasks s cur)) dest src sz (pmem s);
     Some (s\<lparr>pmem := m\<rparr>, r) }"

section \<open>Copying an address space\<close>

text \<open>
  \<open>distory_memory\<close>: the inner loop advances the outer loop's \<open>i\<close>, so it starts at the first
  present directory entry and runs to the end; the entry's flag bits stay in the table's address.
\<close>

primrec distory_ptes :: "nat \<Rightarrow> addr \<Rightarrow> 'a phys_scheme \<Rightarrow> 'a phys_scheme option" where
  "distory_ptes 0 pte s = Some s"
| "distory_ptes (Suc n) pte s = do {
     let e = load32 (pmem s) pte;
     s \<leftarrow> (if present e then if e \<noteq> 0 then free_pages e 1 s else Some s else Some s);
     distory_ptes n (pte + 4) s }"

primrec distory_pdes :: "nat \<Rightarrow> addr \<Rightarrow> uint \<Rightarrow> 'a phys_scheme \<Rightarrow> 'a phys_scheme option" where
  "distory_pdes 0 pde i s = Some s"
| "distory_pdes (Suc n) pde i s =
     (let e = load32 (pmem s) (pde + 4 * i)
      in if present e then distory_ptes (Suc n) (e + 4 * i) s
         else distory_pdes n pde (i + 1) s)"

definition distory_memory :: "addr \<Rightarrow> 'a phys_scheme \<Rightarrow> 'a phys_scheme option" where
  "distory_memory pde s =
     distory_pdes (1024 - unat (pde_index USER_MEMORY_BEGIN)) pde (pde_index USER_MEMORY_BEGIN) s"

primrec copy_ptes :: "nat \<Rightarrow> addr \<Rightarrow> addr \<Rightarrow> 'a phys_scheme \<Rightarrow> ('a phys_scheme \<times> int) option" where
  "copy_ptes 0 ppte pte s = Some (s, 0)"
| "copy_ptes (Suc n) ppte pte s = do {
     let e = load32 (pmem s) ppte;
     if \<not> present e then copy_ptes n (ppte + 4) (pte + 4) s
     else do {
       (s, pg) \<leftarrow> alloc_pages 1 s;
       if pg = 0 then Some (s, - 1)
       else do {
         let s = upd_mem (\<lambda>m. store32 m pte (pg OR PAGE_SHARED)) s;
         let s = upd_mem (\<lambda>m. kmemcpy pg (align_down (load32 m ppte) 4096) PAGE_SIZE m) s;
         copy_ptes n (ppte + 4) (pte + 4) s } } }"

primrec copy_pdes :: "nat \<Rightarrow> addr \<Rightarrow> addr \<Rightarrow> 'a phys_scheme \<Rightarrow> ('a phys_scheme \<times> int) option" where
  "copy_pdes 0 ppde pde s = Some (s, 0)"
| "copy_pdes (Suc n) ppde pde s = do {
     let e = load32 (pmem s) ppde;
     if \<not> present e then copy_pdes n (ppde + 4) (pde + 4) s
     else do {
       (s, page) \<leftarrow> alloc_pages 1 s;
       if page = 0 then Some (s, - 1)
       else do {
         let s = upd_mem (\<lambda>m. store32 m pde (page OR PAGE_SHARED)) s;
         (s, r) \<leftarrow> copy_ptes 1024 (align_down (load32 (pmem s) ppde) 4096) page s;
         if r < 0 then Some (s, r) else copy_pdes n (ppde + 4) (pde + 4) s } } }"

definition copy_memory :: "addr \<Rightarrow> 'a phys_scheme \<Rightarrow> ('a phys_scheme \<times> int) option" where
  "copy_memory pde s = do {
     cur \<leftarrow> current s;
     let ppde = t_cr3 (tasks s cur);
     let i = pde_index USER_MEMORY_BEGIN;
     (s, r) \<leftarrow> copy_pdes (1024 - unat i) (ppde + 4 * i) (pde + 4 * i) s;
     if r < 0 then do { s \<leftarrow> distory_memory pde s; Some (s, - 1) } else Some (s, 0) }"


section \<open>The page lock\<close>

text \<open>No one holds or waits for the page mutex: the usual state outside the critical section.\<close>

definition page_idle :: "'a phys_scheme \<Rightarrow> bool" where
  "page_idle s \<longleftrightarrow> mutexes s PAGE_MUTEX = \<lparr>lock_times = 0, owner = None\<rparr>
     \<and> queue_empty (links s) (MutexHead PAGE_MUTEX)"

lemma page_idle_upd [simp]:
  "page_idle (s\<lparr>pmem := m\<rparr>) = page_idle s" "page_idle (upd_mem f s) = page_idle s"
  by (simp_all add: page_idle_def upd_mem_def)

lemma same_mutex: "mutexes s p = v \<Longrightarrow> (s :: 'a phys_scheme)\<lparr>pmem := m, mutexes := (mutexes s)(p := v)\<rparr> = s\<lparr>pmem := m\<rparr>"
  by (cases s) (auto simp: fun_upd_idem)

lemma lock_unlock_idle:
  assumes "page_idle s"
  shows "\<exists>s1. at_once (mutex_lock PAGE_MUTEX) s = Some s1 \<and> pmem s1 = pmem s \<and> bitmap s1 = bitmap s
    \<and> (\<forall>m. at_once (mutex_unlock PAGE_MUTEX) (s1\<lparr>pmem := m\<rparr>) = Some (s\<lparr>pmem := m\<rparr>))"
  using assms
  by (auto simp: page_idle_def at_once_def mutex_lock_def mutex_unlock_def Let_def same_mutex)

lemma alloc_pages_eq:
  assumes "page_idle s"
  shows "alloc_pages n s = (case bitmap_alloc_bits (bitmap s) n (pmem s) of (m, i) \<Rightarrow>
    Some (s\<lparr>pmem := m\<rparr>, if 0 < i then word_of_int (i * PAGE_SIZE) else 0))"
  using lock_unlock_idle [OF assms]
  by (auto simp: alloc_pages_def split: prod.splits)

lemma free_pages_eq:
  assumes "page_idle s"
  shows "free_pages a n s = Some (upd_mem (bitmap_free_bits (bitmap s) a n) s)"
  using lock_unlock_idle [OF assms] by (auto simp: free_pages_def upd_mem_def)


section \<open>Addresses\<close>

lemma uint_of_addr: "0 \<le> z \<Longrightarrow> z < 2 ^ 32 \<Longrightarrow> uint (word_of_int z :: addr) = z"
  by (rule uint_of_small)

lemma le_unat: "4 \<le> uint w \<Longrightarrow> 4 \<le> unat w"
  by transfer (simp add: le_nat_iff)

lemma apart_int:
  assumes "0 \<le> x" "x \<le> 2 ^ 32 - 4" "0 \<le> y" "y \<le> 2 ^ 32 - 4" "4 \<le> \<bar>x - y\<bar>"
  shows "apart 4 (word_of_int x) (word_of_int y)"
proof -
  have "4 \<le> uint (word_of_int (x - y) :: addr)" "4 \<le> uint (word_of_int (y - x) :: addr)"
    using uint_diff_cases [of x y] uint_diff_cases [of y x] assms by auto
  then have "4 \<le> uint (word_of_int x - word_of_int y :: addr)" "4 \<le> uint (word_of_int y - word_of_int x :: addr)"
    by (simp_all only: of_int_diff)
  then show ?thesis unfolding apart_def by (intro conjI le_unat)
qed

text \<open>The map occupies the addresses from \<open>0x10400\<close> to \<open>0x30400\<close>.\<close>

definition above_map :: "int \<Rightarrow> bool" where
  "above_map z \<longleftrightarrow> 0x30400 \<le> z \<and> z \<le> 2 ^ 32 - 4"

lemma above_map_outside:
  assumes "base b = BITMAP_START" "above_map z" "i < 4"
  shows "\<not> in_map b (word_of_int z + of_nat i)"
proof -
  have "word_of_int z + of_nat i - base b = (word_of_int (z + int i - 0x10400) :: addr)"
    using assms(1) by (simp add: BITMAP_START_def)
  then have "uint (word_of_int z + of_nat i - base b) = z + int i - 0x10400"
    using uint_of_addr [of "z + int i - 0x10400"] assms by (simp only:) (simp add: above_map_def)
  then show ?thesis using assms(2) by (simp add: in_map_def above_map_def)
qed

lemma load32_outside:
  assumes "base b = BITMAP_START" "above_map z" "\<And>x. \<not> in_map b x \<Longrightarrow> m' x = m x"
  shows "load32 m' (word_of_int z) = load32 m (word_of_int z)"
  using above_map_outside [OF assms(1,2)] assms(3) by (intro load32_cong) auto

lemma page_used_store32:
  assumes "base b = BITMAP_START" "above_map z" "is_page j"
  shows "page_used b (store32 m (word_of_int z) v) j = page_used b m j"
proof -
  have "in_map b (base b + word_of_int (j div 8))"
    using page_byte [OF assms(3)] by (intro byte_in_map) auto
  then have "store32 m (word_of_int z) v (base b + word_of_int (j div 8)) = m (base b + word_of_int (j div 8))"
    using above_map_outside [OF assms(1,2)] by (intro store32_frame) metis
  then show ?thesis by (simp add: page_used_def)
qed

lemma load32_store32_int:
  assumes "0 \<le> x" "x \<le> 2 ^ 32 - 4" "0 \<le> y" "y \<le> 2 ^ 32 - 4" "4 \<le> \<bar>x - y\<bar>"
  shows "load32 (store32 m (word_of_int x) v) (word_of_int y) = load32 m (word_of_int y)"
  using apart_int [OF assms] by simp

section \<open>Allocating pages\<close>

text \<open>The machine state in which the page functions run: a map with the kernel's own pages in use.\<close>

definition used :: "'a phys_scheme \<Rightarrow> int \<Rightarrow> bool" where
  "used s j = page_used (bitmap s) (pmem s) j"

definition phys_ok :: "'a phys_scheme \<Rightarrow> bool" where
  "phys_ok s \<longleftrightarrow> page_idle s \<and> map_ok (bitmap s) \<and> base (bitmap s) = BITMAP_START
     \<and> (\<forall>j. 0 \<le> j \<and> j < 0x601 \<longrightarrow> used s j)"

text \<open>What \<open>alloc_pages\<close> does: the address of the first free run, or 0 and no change.\<close>

lemma alloc_pages_spec:
  assumes "phys_ok s" "0 < n"
  obtains m i where
    "alloc_pages n s = Some (s\<lparr>pmem := m\<rparr>, if i = - 1 then 0 else word_of_int (i * PAGE_SIZE))"
    "i = - 1 \<Longrightarrow> m = pmem s \<and> (\<forall>k. 0 \<le> k \<and> k + n \<le> nbits (bitmap s) \<longrightarrow> \<not> free_run (bitmap s) (pmem s) k n)"
    "i \<noteq> - 1 \<Longrightarrow> 0x601 \<le> i \<and> i + n \<le> 2 ^ 20 \<and> free_run (bitmap s) (pmem s) i n"
    "\<And>j. is_page j \<Longrightarrow> page_used (bitmap s) m j \<longleftrightarrow> (i \<noteq> - 1 \<and> i \<le> j \<and> j < i + n) \<or> used s j"
    "\<And>x. \<not> in_map (bitmap s) x \<Longrightarrow> m x = pmem s x"
proof -
  let ?b = "bitmap s"
  obtain m i where r: "bitmap_alloc_bits ?b n (pmem s) = (m, i)" by fastforce
  have ok: "map_ok ?b" and idle: "page_idle s" using assms(1) by (auto simp: phys_ok_def)
  have ff: "first_fit ?b n (pmem s) (m, i)" using alloc_first_fit [OF ok assms(2), of "pmem s"] r by simp
  have low: "0x601 \<le> i" if "i \<noteq> - 1"
  proof -
    have "free_run ?b (pmem s) i n" "0 \<le> i" using ff that by (auto simp: first_fit_def)
    then have "\<not> used s i" using assms(2) by (auto simp: free_run_def used_def)
    then show ?thesis using assms(1) \<open>0 \<le> i\<close> by (auto simp: phys_ok_def not_less)
  qed
  have pages: "pages_ok i n" if "i \<noteq> - 1"
    using ff that assms(2) ok by (auto simp: first_fit_def pages_ok_def map_ok_def)
  show ?thesis
  proof (rule that [of m i])
    show "alloc_pages n s = Some (s\<lparr>pmem := m\<rparr>, if i = - 1 then 0 else word_of_int (i * PAGE_SIZE))"
      using low by (auto simp: alloc_pages_eq [OF idle] r)
    show "i = - 1 \<Longrightarrow> m = pmem s \<and> (\<forall>k. 0 \<le> k \<and> k + n \<le> nbits ?b \<longrightarrow> \<not> free_run ?b (pmem s) k n)"
      using ff by (simp add: first_fit_def)
    show "i \<noteq> - 1 \<Longrightarrow> 0x601 \<le> i \<and> i + n \<le> 2 ^ 20 \<and> free_run ?b (pmem s) i n"
      using ff low pages by (auto simp: first_fit_def pages_ok_def)
    show "page_used ?b m j \<longleftrightarrow> (i \<noteq> - 1 \<and> i \<le> j \<and> j < i + n) \<or> used s j" if "is_page j" for j
    proof (cases "i = - 1")
      case True
      then show ?thesis using ff by (simp add: first_fit_def used_def)
    next
      case False
      then show ?thesis using ff set_bits_up(1) [OF pages that, of ?b 1 "pmem s"]
        by (auto simp: first_fit_def used_def)
    qed
    show "m x = pmem s x" if "\<not> in_map ?b x" for x
    proof (cases "i = - 1")
      case False
      then show ?thesis using ff set_bits_up(2) [OF pages that, of 1 "pmem s"] by (simp add: first_fit_def)
    qed (use ff in \<open>simp add: first_fit_def\<close>)
  qed
qed

lemma phys_ok_alloc:
  assumes "phys_ok s" "\<And>j. is_page j \<Longrightarrow> used s j \<Longrightarrow> page_used (bitmap s) m j"
  shows "phys_ok (s\<lparr>pmem := m\<rparr>)"
  using assms by (auto simp: phys_ok_def used_def is_page_def)

lemma phys_ok_store:
  assumes "phys_ok s" "above_map z"
  shows "phys_ok (upd_mem (\<lambda>m. store32 m (word_of_int z) v) s)"
  using assms page_used_store32 [of "bitmap s" z]
  by (auto simp: phys_ok_def used_def upd_mem_def is_page_def page_idle_def)


section \<open>Mapping pages\<close>

definition frame :: "int \<Rightarrow> addr" where
  "frame f = word_of_int (f * PAGE_SIZE)"

lemma frame_push: "frame f = push_bit 12 (word_of_int f)"
  by (simp add: frame_def PAGE_SIZE_def push_bit_eq_mult)

lemma align_down_mask: "align_down a 4096 = a AND NOT (mask 12)"
  by (simp add: align_down_def mask_eq_exp_minus_1)

lemma low_bits_small: "take_bit 12 w = w \<Longrightarrow> bit (w :: uint) n \<Longrightarrow> n < 12"
  by (metis bit_take_bit_iff)

lemma align_down_frame:
  assumes "take_bit 12 w = w"
  shows "align_down (frame f OR w) 4096 = frame f"
  using low_bits_small [OF assms]
  by (intro bit_word_eqI) (auto simp: align_down_mask frame_push bit_simps)

lemma frame_nonzero: "0 < f \<Longrightarrow> f < 2 ^ 20 \<Longrightarrow> frame f \<noteq> 0"
  using uint_of_addr [of "f * PAGE_SIZE"] by (auto simp: frame_def PAGE_SIZE_def)

text \<open>Entry \<open>k\<close> of the table in page \<open>q\<close>.\<close>

definition cell :: "int \<Rightarrow> int \<Rightarrow> int" where
  "cell q k = q * PAGE_SIZE + 4 * k"

definition table_page :: "int \<Rightarrow> bool" where
  "table_page q \<longleftrightarrow> 0x31 \<le> q \<and> q < 2 ^ 20"

lemma cell_above: "table_page q \<Longrightarrow> 0 \<le> k \<Longrightarrow> k < 1024 \<Longrightarrow> above_map (cell q k)"
  by (auto simp: table_page_def above_map_def cell_def PAGE_SIZE_def)

lemma cell_addr: "frame q + 4 * word_of_int k = word_of_int (cell q k)"
  by (simp add: frame_def cell_def)

lemma cell_quad: "cell q k = 4 * (q * 1024 + k)"
  by (simp add: cell_def PAGE_SIZE_def)

lemma quads_apart: "4 * a \<noteq> 4 * b \<Longrightarrow> 4 \<le> \<bar>4 * a - 4 * (b :: int)\<bar>"
  by (cases "a < b") auto

lemma load_cell_store_cell:
  assumes "table_page q" "table_page q'" "0 \<le> k" "k < 1024" "0 \<le> k'" "k' < 1024" "(q, k) \<noteq> (q', k')"
  shows "load32 (store32 m (word_of_int (cell q k)) v) (word_of_int (cell q' k'))
     = load32 m (word_of_int (cell q' k'))"
proof (rule load32_store32_int)
  show "0 \<le> cell q k" "cell q k \<le> 2 ^ 32 - 4" "0 \<le> cell q' k'" "cell q' k' \<le> 2 ^ 32 - 4"
    using assms by (auto simp: table_page_def cell_def PAGE_SIZE_def)
  have "cell q k \<noteq> cell q' k'"
  proof
    assume "cell q k = cell q' k'"
    then have "q = q'" using assms by (simp add: cell_def PAGE_SIZE_def)
    then show False using \<open>cell q k = cell q' k'\<close> assms(7) by (simp add: cell_def)
  qed
  then show "4 \<le> \<bar>cell q k - cell q' k'\<bar>" unfolding cell_quad by (rule quads_apart)
qed

text \<open>
  The result of mapping: the frames taken, in order.  They were free, are different pages above
  the kernel, and nothing else in the map or in memory outside the written entries changes.
\<close>

definition mapped :: "'a phys_scheme \<Rightarrow> int \<Rightarrow> int \<Rightarrow> int list \<Rightarrow> 'a phys_scheme \<Rightarrow> bool" where
  "mapped s q j fs s' \<longleftrightarrow>
     distinct fs \<and> (\<forall>f \<in> set fs. 0x601 \<le> f \<and> f < 2 ^ 20 \<and> \<not> used s f)
     \<and> (\<forall>f. is_page f \<longrightarrow> (used s' f \<longleftrightarrow> used s f \<or> f \<in> set fs))
     \<and> (\<forall>k < length fs. load32 (pmem s') (word_of_int (cell q (j + int k))) = frame (fs ! k) OR PAGE_SHARED)
     \<and> (\<forall>q' k. table_page q' \<and> 0 \<le> k \<and> k < 1024 \<and> \<not> (q' = q \<and> j \<le> k \<and> k < j + int (length fs)) \<longrightarrow>
          load32 (pmem s') (word_of_int (cell q' k)) = load32 (pmem s) (word_of_int (cell q' k)))
     \<and> s' = s\<lparr>pmem := pmem s'\<rparr>"

text \<open>No page of the map is free.\<close>

definition exhausted :: "'a phys_scheme \<Rightarrow> bool" where
  "exhausted s \<longleftrightarrow> (\<forall>k. 0 \<le> k \<and> k < nbits (bitmap s) \<longrightarrow> used s k)"

lemma exhaustedI:
  assumes "\<forall>k. 0 \<le> k \<and> k + 1 \<le> nbits (bitmap s) \<longrightarrow> \<not> free_run (bitmap s) (pmem s) k 1"
  shows "exhausted s"
  unfolding exhausted_def
proof (intro allI impI)
  fix k assume "0 \<le> k \<and> k < nbits (bitmap s)"
  then have "\<not> free_run (bitmap s) (pmem s) k 1" using assms by auto
  then obtain l where l: "k \<le> l" "l < k + 1" "used s l" by (auto simp: free_run_def used_def)
  then have "l = k" by linarith
  with l show "used s k" by simp
qed

lemma map_pages_mapped:
  assumes "phys_ok s" "table_page q" "0 \<le> j" "j + int n \<le> 1024"
  shows "\<exists>s' r fs. map_pages n (word_of_int (cell q j)) s = Some (s', r) \<and> phys_ok s'
     \<and> (r = 0 \<and> length fs = n \<or> r = - ENOMEM \<and> length fs < n \<and> exhausted s') \<and> mapped s q j fs s'"
  using assms
proof (induction n arbitrary: j s)
  case 0
  then show ?case by (auto simp: mapped_def)
next
  case (Suc n)
  obtain m i where a:
    "alloc_pages 1 s = Some (s\<lparr>pmem := m\<rparr>, if i = - 1 then 0 else word_of_int (i * PAGE_SIZE))"
    "i = - 1 \<Longrightarrow> m = pmem s \<and> (\<forall>k. 0 \<le> k \<and> k + 1 \<le> nbits (bitmap s) \<longrightarrow> \<not> free_run (bitmap s) (pmem s) k 1)"
    "i \<noteq> - 1 \<Longrightarrow> 0x601 \<le> i \<and> i + 1 \<le> 2 ^ 20 \<and> free_run (bitmap s) (pmem s) i 1"
    "\<And>j. is_page j \<Longrightarrow> page_used (bitmap s) m j \<longleftrightarrow> (i \<noteq> - 1 \<and> i \<le> j \<and> j < i + 1) \<or> used s j"
    "\<And>x. \<not> in_map (bitmap s) x \<Longrightarrow> m x = pmem s x"
    by (rule alloc_pages_spec [OF Suc.prems(1), of 1]) auto
  show ?case
  proof (cases "i = - 1")
    case True
    then have "exhausted s" using a(2) by (intro exhaustedI) auto
    with True show ?thesis using a Suc.prems(1)
      by (intro exI [of _ s] exI [of _ "- ENOMEM"] exI [of _ "[]"]) (simp add: mapped_def)
  next
    case False
    then have i: "0x601 \<le> i" "i < 2 ^ 20" "\<not> used s i" using a(3) by (auto simp: free_run_def used_def)
    let ?a = "word_of_int (cell q j) :: addr" and ?e = "frame i OR PAGE_SHARED"
    let ?s1 = "s\<lparr>pmem := m\<rparr>"
    let ?s2 = "upd_mem (\<lambda>m. store32 m ?a ?e) ?s1"
    have above: "above_map (cell q j)" using Suc.prems by (intro cell_above) auto
    have ok1: "phys_ok ?s1" using a(4) Suc.prems(1) by (intro phys_ok_alloc) auto
    then have ok2: "phys_ok ?s2" using above by (rule phys_ok_store)
    have base: "base (bitmap s) = BITMAP_START" using Suc.prems(1) by (simp add: phys_ok_def)
    have "word_of_int (i * PAGE_SIZE) \<noteq> (0 :: addr)" using frame_nonzero [of i] i by (simp add: frame_def)
    then have run: "map_pages (Suc n) ?a s = map_pages n (word_of_int (cell q (j + 1))) ?s2"
      using False a(1) by (simp add: frame_def cell_def algebra_simps)
    obtain s' r fs where IH: "map_pages n (word_of_int (cell q (j + 1))) ?s2 = Some (s', r)" "phys_ok s'"
      "r = 0 \<and> length fs = n \<or> r = - ENOMEM \<and> length fs < n \<and> exhausted s'" "mapped ?s2 q (j + 1) fs s'"
      using Suc.IH [OF ok2 Suc.prems(2), of "j + 1"] Suc.prems(3,4) by auto
    have used2: "used ?s2 f \<longleftrightarrow> used s f \<or> f = i" if "is_page f" for f
      using page_used_store32 [OF base above that] a(4) [OF that] False by (auto simp: used_def upd_mem_def)
    have load2: "load32 (pmem ?s2) (word_of_int (cell q' k)) = load32 (pmem s) (word_of_int (cell q' k))"
      if "table_page q'" "0 \<le> k" "k < 1024" "(q, j) \<noteq> (q', k)" for q' k
      using load_cell_store_cell [of q q' j k m ?e] load32_outside [OF base cell_above a(5), of q' k] that Suc.prems
      by (simp add: upd_mem_def)
    have entry: "load32 (pmem ?s2) ?a = ?e" by (simp add: upd_mem_def)
    have "i \<notin> set fs" using IH(4) used2 [of i] i by (auto simp: mapped_def is_page_def)
    moreover have "0x601 \<le> f \<and> f < 2 ^ 20 \<and> \<not> used s f" if "f \<in> set fs" for f
      using IH(4) used2 [of f] that by (auto simp: mapped_def is_page_def)
    moreover have "used s' f \<longleftrightarrow> used s f \<or> f \<in> set (i # fs)" if "is_page f" for f
      using IH(4) used2 [OF that] that by (auto simp: mapped_def)
    moreover have "load32 (pmem s') (word_of_int (cell q (j + int k))) = frame ((i # fs) ! k) OR PAGE_SHARED"
      if k: "k < length (i # fs)" for k
    proof (cases k)
      case 0
      have "load32 (pmem s') ?a = load32 (pmem ?s2) ?a"
        using IH(4) Suc.prems by (auto simp: mapped_def)
      then show ?thesis using 0 entry by simp
    next
      case (Suc k')
      then show ?thesis using IH(4) k by (auto simp: mapped_def algebra_simps)
    qed
    moreover have "load32 (pmem s') (word_of_int (cell q' k)) = load32 (pmem s) (word_of_int (cell q' k))"
      if "table_page q'" "0 \<le> k" "k < 1024" "\<not> (q' = q \<and> j \<le> k \<and> k < j + int (length (i # fs)))" for q' k
    proof -
      have "load32 (pmem s') (word_of_int (cell q' k)) = load32 (pmem ?s2) (word_of_int (cell q' k))"
        using IH(4) that by (auto simp: mapped_def)
      then show ?thesis using load2 [OF that(1-3)] that(4) by auto
    qed
    moreover have "s' = s\<lparr>pmem := pmem s'\<rparr>"
    proof -
      have "s' = ?s2\<lparr>pmem := pmem s'\<rparr>" using IH(4) by (simp add: mapped_def)
      also have "\<dots> = s\<lparr>pmem := pmem s'\<rparr>" by (simp add: upd_mem_def)
      finally show ?thesis .
    qed
    ultimately have "mapped s q j (i # fs) s'" using i IH(4) unfolding mapped_def by auto
    then show ?thesis using run IH(1-3) by (intro exI [of _ s'] exI [of _ r] exI [of _ "i # fs"]) auto
  qed
qed


section \<open>Splitting an address\<close>

lemma uint_addr_bounds: "0 \<le> uint (a :: addr)" "uint (a :: addr) < 2 ^ 32"
  using uint_lt2p [of a] by simp_all

lemma uint_drop_bit: "uint (drop_bit n (a :: addr)) = uint a div 2 ^ n"
proof -
  have "take_bit 32 (uint a) = uint a"
    using uint_addr_bounds [of a] by (intro take_bit_int_eq_self) auto
  then show ?thesis by (simp add: unsigned_drop_bit_eq drop_bit_int_def)
qed

lemma uint_pde_index: "uint (pde_index a) = uint a div 2 ^ 22"
  by (simp only: pde_index_def uint_drop_bit)

lemma uint_pte_index: "uint (pte_index a) = uint a div 4096 mod 1024"
proof -
  have "pte_index a = take_bit 10 (drop_bit 12 a)"
    by (simp add: pte_index_def take_bit_eq_mask mask_eq_exp_minus_1)
  then show ?thesis
    using uint_drop_bit [of 12 a] by (simp only: unsigned_take_bit_eq take_bit_int_def) simp
qed

lemma uint_low: "uint (a AND 4095 :: addr) = uint a mod 4096"
proof -
  have "a AND 4095 = take_bit 12 a" by (simp add: take_bit_eq_mask mask_eq_exp_minus_1)
  then show ?thesis by (simp add: unsigned_take_bit_eq take_bit_int_def)
qed

lemma page_start_bounds: "0 \<le> x \<Longrightarrow> 0 \<le> x div 4096 * 4096 \<and> x div 4096 * 4096 \<le> (x :: int)"
  by (simp add: minus_mod_eq_div_mult [symmetric] zmod_le_nonneg_dividend)

lemma uint_align_down: "uint (align_down a 4096) = uint a div 4096 * 4096"
proof -
  have "align_down a 4096 = push_bit 12 (drop_bit 12 a)"
    by (intro bit_word_eqI) (auto simp: align_down_mask bit_simps)
  also have "\<dots> = word_of_int (uint a div 4096 * 4096)"
  proof -
    have "uint (drop_bit 12 a) = uint a div 4096"
      using uint_drop_bit [of 12 a] by simp
    then have "drop_bit 12 a = word_of_int (uint a div 4096)" by (metis word_of_int_uint)
    then show ?thesis by (simp add: push_bit_eq_mult)
  qed
  finally have "align_down a 4096 = word_of_int (uint a div 4096 * 4096)" .
  moreover have "0 \<le> uint a div 4096 * 4096" "uint a div 4096 * 4096 < 2 ^ 32"
    using uint_addr_bounds [of a] page_start_bounds [of "uint a"] by linarith+
  ultimately show ?thesis using uint_of_addr by metis
qed

lemma base_1024:
  "0 \<le> r \<Longrightarrow> r < 1024 \<Longrightarrow> (q * 1024 + r) div 1024 = q" "0 \<le> r \<Longrightarrow> r < 1024 \<Longrightarrow> (q * 1024 + r) mod 1024 = (r :: int)"
  by simp_all

lemma base_4096: "0 \<le> r \<Longrightarrow> r < 4096 \<Longrightarrow> (q * 4096 + r) mod 4096 = (r :: int)"
  by simp

lemma split_address:
  assumes "uint (pte_index a) + k < 1024" "0 \<le> k" "0 \<le> off" "off < 4096"
    and v: "v = align_down a 4096 + word_of_int (k * 4096 + off)"
  shows "pde_index v = pde_index a" "uint (pte_index v) = uint (pte_index a) + k"
    "v AND 4095 = word_of_int off"
proof -
  note a = uint_addr_bounds [of a]
  define p where "p = uint a div 4096"
  have p: "p mod 1024 + k < 1024" using assms(1) by (simp add: uint_pte_index p_def)
  have p2: "0 \<le> p" "p < 2 ^ 20" using a by (simp_all add: p_def pos_imp_zdiv_nonneg_iff del: uint_addr_bounds(1))
  have pk: "(p + k) div 1024 = p div 1024" "(p + k) mod 1024 = p mod 1024 + k" "p + k < 2 ^ 20"
  proof -
    have e: "p + k = p div 1024 * 1024 + (p mod 1024 + k)" by simp
    have r: "0 \<le> p mod 1024 + k" using assms(2) by simp
    show "(p + k) div 1024 = p div 1024" "(p + k) mod 1024 = p mod 1024 + k"
      using e base_1024 [OF r p, of "p div 1024"] by simp_all
    have "p div 1024 < 1024" using p2 by auto
    then have "p + k < 1048576" using e p by linarith
    then show "p + k < 2 ^ 20" by simp
  qed
  have "align_down a 4096 = word_of_int (p * 4096)"
    by (metis uint_align_down p_def word_of_int_uint)
  then have "v = word_of_int ((p + k) * 4096 + off)" by (simp add: v algebra_simps)
  then have v': "uint v = (p + k) * 4096 + off"
    using uint_of_addr [of "(p + k) * 4096 + off"] pk(3) p2(1) assms(2-4) by simp
  show "uint (pte_index v) = uint (pte_index a) + k"
  proof -
    have "uint v div 4096 = p + k" using v' assms(3,4) by simp
    then show ?thesis using pk(2) by (simp add: uint_pte_index p_def)
  qed
  have "uint (pde_index v) = uint (pde_index a)"
  proof -
    have "uint v div 4096 = p + k" using v' assms(3,4) by simp
    then have "uint v div 4096 div 1024 = uint a div 4096 div 1024" using pk(1) by (simp add: p_def)
    then show ?thesis by (simp add: uint_pde_index zdiv_zmult2_eq [symmetric])
  qed
  then show "pde_index v = pde_index a" by (simp add: word_uint_eq_iff)
  have "uint (v AND 4095) = off" using base_4096 [OF assms(3,4), of "p + k"] v' by (simp only: uint_low)
  then show "v AND 4095 = word_of_int off" by (metis word_of_int_uint)
qed

text \<open>Translation through a directory in page \<open>d\<close> whose entry points to the table in page \<open>t\<close>.\<close>

lemma trans_vtop_table:
  assumes "load32 m (word_of_int (cell d (uint (pde_index v)))) = e" "e \<noteq> 0" "align_down e 4096 = frame t"
    and "load32 m (word_of_int (cell t (uint (pte_index v)))) = frame f OR w" "take_bit 12 w = w"
  shows "trans_vtop m (frame d) v = frame f + (v AND 4095)"
proof -
  have "frame d + 4 * pde_index v = word_of_int (cell d (uint (pde_index v)))"
    using cell_addr [of d "uint (pde_index v)"] by simp
  moreover have "frame t + 4 * pte_index v = word_of_int (cell t (uint (pte_index v)))"
    using cell_addr [of t "uint (pte_index v)"] by simp
  ultimately show ?thesis
    using assms by (simp add: trans_vtop_def Let_def align_down_frame)
qed

lemma shared_low: "take_bit 12 PAGE_SHARED = PAGE_SHARED"
  by (simp add: PAGE_SHARED_def)

lemma rounds_pre_pos: "0 < n \<Longrightarrow> unat c = n \<Longrightarrow> rounds_pre c = n"
  by (auto simp: rounds_pre_def)

lemma dir_index_small: "x < 2 ^ 32 \<Longrightarrow> x div 2 ^ 22 < (1024 :: int)"
  by simp

lemma index_bounds: "0 \<le> uint (pde_index a)" "uint (pde_index a) < 1024"
  "0 \<le> uint (pte_index a)" "uint (pte_index a) < 1024"
proof -
  show "uint (pde_index a) < 1024"
    using uint_addr_bounds [of a] dir_index_small by (simp only: uint_pde_index)
  show "uint (pte_index a) < 1024" by (simp add: uint_pte_index)
qed simp_all

section \<open>Properties\<close>



text \<open>A machine whose pages up to \<open>0x600\<close> are in use, with a directory in page \<open>0x200\<close> and a
  table for the first 4 MB of user space in page \<open>0x300\<close>.\<close>

definition demo_pages :: bit_map_t where
  "demo_pages = \<lparr>nbits = 0x800, base = BITMAP_START\<rparr>"

definition demo_mem :: mem where
  "demo_mem = store32 (bitmap_set_bits demo_pages 0x600 1 1 1
     (bitmap_set_bytes demo_pages 0 0xC0 1 (\<lambda>_. 0))) (word_of_int (cell 0x200 256)) 0x300227"

definition demo_phys :: phys where
  "demo_phys = clock.extend demo_clock \<lparr>pmem = demo_mem, bitmap = demo_pages\<rparr>"

lemma demo_fields [simp]: "pmem demo_phys = demo_mem" "bitmap demo_phys = demo_pages"
  by (simp_all add: demo_phys_def clock.defs)

lemma bit_full_byte: "bit (0xff :: uchar) (nat (j mod 8))"
proof -
  have "(0xff :: uchar) = - 1" by simp
  then show ?thesis by (simp only: bit_minus_1_iff) (simp add: possible_bit_word nat_less_iff)
qed

lemma demo_used:
  assumes "is_page j"
  shows "used demo_phys j \<longleftrightarrow> j < 0x601"
proof -
  have base: "base demo_pages = BITMAP_START" "placed demo_pages" by code_simp+
  have above: "above_map (cell 0x200 256)" by code_simp
  have "page_used demo_pages (bitmap_set_bytes demo_pages 0 0xC0 1 (\<lambda>_. 0)) j \<longleftrightarrow> j div 8 < 0xC0"
    using kmemset_page [OF base(2) _ _ _ assms, of 0 "0xC0" "0xff" "\<lambda>_. 0"] page_byte [OF assms]
      bit_full_byte [of j]
    by (auto simp: bitmap_set_bytes_def page_used_def)
  moreover have "pages_ok 0x600 1" by (simp add: pages_ok_def)
  ultimately show ?thesis
    using set_bits_up(1) [OF _ assms, of "0x600" 1 demo_pages 1] assms
    by (auto simp: used_def demo_mem_def page_used_store32 [OF base(1) above assms])
qed

lemma demo_phys_ok: "phys_ok demo_phys"
proof -
  have "page_idle demo_phys" by code_simp
  moreover have "map_ok (bitmap demo_phys)" "base (bitmap demo_phys) = BITMAP_START"
    by (simp_all add: map_ok_def demo_pages_def)
  ultimately show ?thesis using demo_used by (auto simp: phys_ok_def is_page_def)
qed

lemma demo_entries:
  "load32 demo_mem (word_of_int (cell 0x200 256)) = 0x300227"
  "load32 demo_mem (word_of_int (cell 0x300 1)) = 0"
proof -
  let ?m = "bitmap_set_bits demo_pages 0x600 1 1 1 (bitmap_set_bytes demo_pages 0 0xC0 1 (\<lambda>_. 0))"
  show "load32 demo_mem (word_of_int (cell 0x200 256)) = 0x300227" by (simp add: demo_mem_def)
  have base: "base demo_pages = BITMAP_START" "placed demo_pages" by code_simp+
  have "pages_ok 0x600 1" by (simp add: pages_ok_def)
  then have "?m x = 0" if "\<not> in_map demo_pages x" for x
    using set_bits_up(2) [OF _ that, of "0x600" 1] kmemset_outside [OF base(2) _ _ _ that, of 0 "0xC0"]
    by (simp add: bitmap_set_bytes_def)
  then have "load32 ?m (word_of_int (cell 0x300 1)) = load32 (\<lambda>_. 0) (word_of_int (cell 0x300 1))"
    by (intro load32_outside [OF base(1)]) (simp_all add: above_map_def cell_def PAGE_SIZE_def)
  then show "load32 demo_mem (word_of_int (cell 0x300 1)) = 0"
    using load_cell_store_cell [of "0x200" "0x300" 256 1 ?m]
    by (simp add: demo_mem_def table_page_def load32_def)
qed



section \<open>Whole pages\<close>

lemma kmemset_page_byte:
  assumes "0 < i" "i < 2 ^ 20" "0 \<le> z" "z < 2 ^ 32"
  shows "kmemset (frame i) c PAGE_SIZE m (word_of_int z)
     = (if i * PAGE_SIZE \<le> z \<and> z < i * PAGE_SIZE + PAGE_SIZE then c else m (word_of_int z))"
proof -
  have "frame i \<noteq> 0" using assms(1,2) by (rule frame_nonzero)
  moreover have "nat PAGE_SIZE \<le> 2 ^ 32" by (simp add: PAGE_SIZE_def)
  moreover have "unat (word_of_int z - frame i) < nat PAGE_SIZE \<longleftrightarrow> i * PAGE_SIZE \<le> z \<and> z < i * PAGE_SIZE + PAGE_SIZE"
    using kmemset_offset [of "i * PAGE_SIZE" PAGE_SIZE z 0] assms
    by (simp add: frame_def PAGE_SIZE_def)
  ultimately show ?thesis by (simp add: kmemset_eq)
qed

lemma load32_kmemset_other:
  assumes "0 < i" "i < 2 ^ 20" "table_page q" "q \<noteq> i" "0 \<le> k" "k < 1024"
  shows "load32 (kmemset (frame i) c PAGE_SIZE m) (word_of_int (cell q k)) = load32 m (word_of_int (cell q k))"
proof (rule load32_cong)
  fix t :: nat
  assume t: "t < 4"
  let ?z = "cell q k + int t"
  have "word_of_int (cell q k) + of_nat t = (word_of_int ?z :: addr)" by simp
  moreover have "0 \<le> ?z" "?z < 2 ^ 32" "\<not> (i * PAGE_SIZE \<le> ?z \<and> ?z < i * PAGE_SIZE + PAGE_SIZE)"
    using assms t by (auto simp: cell_def PAGE_SIZE_def table_page_def)
  ultimately show "kmemset (frame i) c PAGE_SIZE m (word_of_int (cell q k) + of_nat t)
      = m (word_of_int (cell q k) + of_nat t)"
    using kmemset_page_byte [OF assms(1,2), of ?z] by (simp only: if_False)
qed

lemma page_used_kmemset:
  assumes "base b = BITMAP_START" "0x31 \<le> i" "i < 2 ^ 20" "is_page j"
  shows "page_used b (kmemset (frame i) c PAGE_SIZE m) j = page_used b m j"
proof -
  have "base b + word_of_int (j div 8) = word_of_int (0x10400 + j div 8)"
    by (simp add: assms(1) BITMAP_START_def)
  moreover have "kmemset (frame i) c PAGE_SIZE m (word_of_int (0x10400 + j div 8)) = m (word_of_int (0x10400 + j div 8))"
    using page_byte [OF assms(4)] assms(2,3)
    by (subst kmemset_page_byte) (auto simp: PAGE_SIZE_def)
  ultimately show ?thesis by (simp add: page_used_def)
qed

section \<open>Page directories\<close>

lemma user_start: "pde_index USER_MEMORY_BEGIN = 256"
  by (simp add: pde_index_def USER_MEMORY_BEGIN_def)

lemma below_user:
  "k < 1024 \<Longrightarrow> of_nat k < pde_index USER_MEMORY_BEGIN \<longleftrightarrow> k < 256"
  by (simp add: user_start word_less_nat_alt unat_of_nat)

lemma copy_kernel_entry_cell:
  assumes "k < 1024"
  shows "copy_kernel_entry (frame i) m (of_nat k) = store32 m (word_of_int (cell i (int k)))
     (if k < 256 then load32 m (word_of_int (cell 0x200 (int k))) else 0)"
proof -
  have "frame i + 4 * of_nat k = word_of_int (cell i (int k))" using cell_addr [of i "int k"] by simp
  moreover have "KERNEL_PAGE_DIR + 4 * of_nat k = word_of_int (cell 0x200 (int k))"
    using cell_addr [of "0x200" "int k"] by (simp add: KERNEL_PAGE_DIR_def frame_def PAGE_SIZE_def)
  ultimately show ?thesis using below_user [OF assms] by (simp add: copy_kernel_entry_def)
qed

lemma copy_kernel_entries:
  assumes "table_page i" "i \<noteq> 0x200" "distinct ks" "\<forall>k \<in> set ks. k < 1024" "table_page q" "k < 1024"
  shows "load32 (foldl (copy_kernel_entry (frame i)) m (map of_nat ks)) (word_of_int (cell q (int k))) =
    (if q = i \<and> k \<in> set ks
     then if k < 256 then load32 m (word_of_int (cell 0x200 (int k))) else 0
     else load32 m (word_of_int (cell q (int k))))"
  using assms(3,4)
proof (induction ks arbitrary: m)
  case (Cons x xs)
  let ?m = "copy_kernel_entry (frame i) m (of_nat x)"
  have t: "table_page 0x200" by (simp add: table_page_def)
  have step: "load32 ?m (word_of_int (cell q' (int k'))) = load32 m (word_of_int (cell q' (int k')))"
    if "table_page q'" "k' < 1024" "(i, x) \<noteq> (q', k')" for q' k'
    using load_cell_store_cell [OF assms(1) that(1), of "int x" "int k'"] that(2,3) Cons.prems
    by (auto simp: copy_kernel_entry_cell)
  have same: "load32 ?m (word_of_int (cell i (int x)))
      = (if x < 256 then load32 m (word_of_int (cell 0x200 (int x))) else 0)"
    using Cons.prems by (simp add: copy_kernel_entry_cell)
  have "load32 ?m (word_of_int (cell 0x200 (int k))) = load32 m (word_of_int (cell 0x200 (int k)))"
    using step [OF t assms(6)] assms(2) by auto
  then show ?case
    using Cons step [OF assms(5,6)] same by auto
qed simp

lemma page_used_copy_kernel:
  assumes "base b = BITMAP_START" "table_page i" "is_page j" "\<forall>k \<in> set ks. k < 1024"
  shows "page_used b (foldl (copy_kernel_entry (frame i)) m (map of_nat ks)) j = page_used b m j"
  using assms(4)
proof (induction ks arbitrary: m)
  case (Cons x xs)
  then show ?case
    using page_used_store32 [OF assms(1) cell_above [OF assms(2), of "int x"] assms(3)]
    by (simp add: copy_kernel_entry_cell)
qed simp

text \<open>C19: a new page directory.  \<open>create_pde\<close> returns 0 only when no page is left, and changes
  nothing then; otherwise the address of a page that was free, whose entries below user space
  are the kernel's own and whose user entries are empty.  No other page changes hands, and the
  entries of every other table keep their values.\<close>

theorem create_pde_kernel_half:
  assumes "phys_ok s"
  shows "\<exists>s' pde. create_pde s = Some (s', pde) \<and>
    (if pde = 0 then s' = s \<and> exhausted s
     else \<exists>d. 0x601 \<le> d \<and> d < 2 ^ 20 \<and> pde = frame d \<and> \<not> used s d
       \<and> (\<forall>k < 1024. load32 (pmem s') (pde + 4 * of_nat k)
            = (if k < 256 then load32 (pmem s) (KERNEL_PAGE_DIR + 4 * of_nat k) else 0))
       \<and> (\<forall>j. 0 \<le> j \<and> j < 2 ^ 20 \<longrightarrow> (used s' j \<longleftrightarrow> used s j \<or> j = d))
       \<and> (\<forall>q k. table_page q \<and> q \<noteq> d \<and> k < 1024 \<longrightarrow>
            load32 (pmem s') (word_of_int (cell q (int k))) = load32 (pmem s) (word_of_int (cell q (int k)))))"
proof -
  obtain m d where a:
    "alloc_pages 1 s = Some (s\<lparr>pmem := m\<rparr>, if d = - 1 then 0 else word_of_int (d * PAGE_SIZE))"
    "d = - 1 \<Longrightarrow> m = pmem s \<and> (\<forall>k. 0 \<le> k \<and> k + 1 \<le> nbits (bitmap s) \<longrightarrow> \<not> free_run (bitmap s) (pmem s) k 1)"
    "d \<noteq> - 1 \<Longrightarrow> 0x601 \<le> d \<and> d + 1 \<le> 2 ^ 20 \<and> free_run (bitmap s) (pmem s) d 1"
    "\<And>j. is_page j \<Longrightarrow> page_used (bitmap s) m j \<longleftrightarrow> (d \<noteq> - 1 \<and> d \<le> j \<and> j < d + 1) \<or> used s j"
    "\<And>x. \<not> in_map (bitmap s) x \<Longrightarrow> m x = pmem s x"
    by (rule alloc_pages_spec [OF assms, of 1]) auto
  have base: "base (bitmap s) = BITMAP_START" using assms by (simp add: phys_ok_def)
  show ?thesis
  proof (cases "d = - 1")
    case True
    then have "exhausted s" using a(2) by (intro exhaustedI) auto
    then show ?thesis using True a(1,2) by (simp add: create_pde_def)
  next
    case False
    then have d: "0x601 \<le> d" "d < 2 ^ 20" "\<not> used s d" using a(3) by (auto simp: free_run_def used_def)
    then have td: "table_page d" by (simp add: table_page_def)
    have nz: "frame d \<noteq> 0" using frame_nonzero [of d] d by simp
    let ?m1 = "kmemset (frame d) 0 PAGE_SIZE m"
    let ?m2 = "foldl (copy_kernel_entry (frame d)) ?m1 (map of_nat [0..<1024])"
    have run: "create_pde s = Some (s\<lparr>pmem := ?m2\<rparr>, frame d)"
      using a(1) False nz by (simp add: create_pde_def frame_def upd_mem_def)
    have m: "load32 m (word_of_int (cell q (int k))) = load32 (pmem s) (word_of_int (cell q (int k)))"
      if "table_page q" "k < 1024" for q k
      using load32_outside [OF base cell_above a(5)] that by simp
    have m1: "load32 ?m1 (word_of_int (cell q (int k))) = load32 m (word_of_int (cell q (int k)))"
      if "table_page q" "q \<noteq> d" "k < 1024" for q k
      using load32_kmemset_other [of d q "int k"] d that by simp
    have m2: "load32 ?m2 (word_of_int (cell q (int k))) =
        (if q = d then if k < 256 then load32 (pmem s) (word_of_int (cell 0x200 (int k))) else 0
         else load32 (pmem s) (word_of_int (cell q (int k))))" if "table_page q" "k < 1024" for q k
    proof -
      have "table_page 0x200" by (simp add: table_page_def)
      then show ?thesis
        using copy_kernel_entries [OF td _ distinct_upt _ that, of 0 1024 ?m1] m1 m that d
        by auto
    qed
    have u: "page_used (bitmap s) ?m2 j \<longleftrightarrow> used s j \<or> j = d" if "is_page j" for j
      using page_used_copy_kernel [OF base td that, of "[0..<1024]" ?m1]
        page_used_kmemset [OF base _ d(2) that, of 0 m] d(1) a(4) [OF that] False by auto
    have dir: "frame d + 4 * of_nat k = word_of_int (cell d (int k))"
      "KERNEL_PAGE_DIR + 4 * of_nat k = word_of_int (cell 0x200 (int k))" for k
      using cell_addr [of d "int k"] cell_addr [of "0x200" "int k"]
      by (simp_all add: KERNEL_PAGE_DIR_def frame_def PAGE_SIZE_def)
    show ?thesis
      using run nz d u m2 td dir by (auto simp: used_def is_page_def intro!: exI [of _ d])
  qed
qed

lemma create_pde_kernel_half_witness:
  "\<exists>s' pde. create_pde demo_phys = Some (s', pde) \<and> pde \<noteq> 0 \<and> load32 (pmem s') (pde + 4 * 300) = 0"
proof -
  have "\<not> exhausted demo_phys"
    using demo_used [of "0x601"]
    by (auto simp: exhausted_def demo_pages_def is_page_def intro!: exI [of _ "0x601"])
  then show ?thesis
    using create_pde_kernel_half [OF demo_phys_ok]
    by (auto split: if_splits dest: spec [of _ 300])
qed


section \<open>Copying from user space\<close>

lemma unat_low: "unat (a AND 4095 :: addr) \<le> 4095"
  using word_and_le1 [of a 4095] by (simp add: word_le_nat_alt)

lemma unat_to_copy: "unat (to_copy a sz) = min (unat sz) (4096 - unat (a AND 4095))"
proof -
  have "unat (4096 - (a AND 4095)) = 4096 - unat (a AND 4095)"
    using unat_low [of a] by (subst unat_sub) (auto simp: word_le_nat_alt)
  then show ?thesis by (auto simp: to_copy_def Let_def word_less_nat_alt min_def)
qed

lemma align_down_split: "align_down a 4096 + (a AND 4095) = (a :: addr)"
proof -
  have "uint a = uint a div 4096 * 4096 + uint a mod 4096" by simp
  then have "word_of_int (uint a) = word_of_int (uint (align_down a 4096)) + (word_of_int (uint (a AND 4095)) :: addr)"
    by (simp only: uint_align_down uint_low of_int_add [symmetric])
  then show ?thesis by simp
qed

lemma same_page:
  assumes "i < unat (to_copy v sz)"
  shows "pde_index (v + of_nat i) = pde_index v" "pte_index (v + of_nat i) = pte_index v"
    "(v + of_nat i) AND 4095 = (v AND 4095) + of_nat i"
proof -
  let ?off = "uint (v AND 4095) + int i"
  have off: "0 \<le> ?off" "?off < 4096"
  proof -
    have "unat (to_copy v sz) \<le> 4096 - unat (v AND 4095)" by (simp only: unat_to_copy min.cobounded2)
    then have "int (unat (v AND 4095)) + int i < 4096" using assms by linarith
    then show "?off < 4096" by (simp only: of_nat_unat)
  qed simp_all
  have "v + of_nat i = align_down v 4096 + word_of_int (0 * 4096 + ?off)"
  proof -
    have "v + of_nat i = align_down v 4096 + (v AND 4095) + of_nat i" by (simp only: align_down_split)
    then show ?thesis by (simp add: add.assoc)
  qed
  note sp = split_address [OF _ _ off this]
  show "pde_index (v + of_nat i) = pde_index v" by (rule sp(1)) (use index_bounds in auto)
  have "uint (pte_index (v + of_nat i)) = uint (pte_index v) + 0" by (rule sp(2)) (use index_bounds in auto)
  then show "pte_index (v + of_nat i) = pte_index v" by (simp add: word_uint_eq_iff)
  have "(v + of_nat i) AND 4095 = word_of_int ?off" by (rule sp(3)) (use index_bounds in auto)
  then show "(v + of_nat i) AND 4095 = (v AND 4095) + of_nat i" by simp
qed

lemma trans_vtop_linear:
  assumes "i < unat (to_copy v sz)" "trans_vtop m pde v \<noteq> 0"
  shows "trans_vtop m pde (v + of_nat i) = trans_vtop m pde v + of_nat i"
  using assms same_page [OF assms(1)] by (auto simp: trans_vtop_def Let_def split: if_splits)

text \<open>The bytes the table walk for \<open>v\<close> reads.\<close>

definition walk :: "mem \<Rightarrow> addr \<Rightarrow> uint \<Rightarrow> addr set" where
  "walk m pde v =
     (let e = pde + 4 * pde_index v; t = align_down (load32 m e) 4096 + 4 * pte_index v
      in (\<lambda>i. e + of_nat i) ` {..<4} \<union> (\<lambda>i. t + of_nat i) ` {..<4})"

lemma trans_vtop_cong:
  assumes "\<And>x. x \<in> walk m pde v \<Longrightarrow> m' x = m x"
  shows "trans_vtop m' pde v = trans_vtop m pde v" "walk m' pde v = walk m pde v"
proof -
  let ?e = "pde + 4 * pde_index v"
  have e: "load32 m' ?e = load32 m ?e"
    using assms by (intro load32_cong) (auto simp: walk_def Let_def)
  moreover have "load32 m' (align_down (load32 m ?e) 4096 + 4 * pte_index v)
      = load32 m (align_down (load32 m ?e) 4096 + 4 * pte_index v)"
    using assms by (intro load32_cong) (auto simp: walk_def Let_def)
  ultimately show "trans_vtop m' pde v = trans_vtop m pde v" by (simp add: trans_vtop_def Let_def)
  show "walk m' pde v = walk m pde v" using e by (simp add: walk_def)
qed

definition in_buf :: "addr \<Rightarrow> uint \<Rightarrow> addr \<Rightarrow> bool" where
  "in_buf d sz x \<longleftrightarrow> x - d < sz"

lemma in_buf_unat: "in_buf d sz x \<longleftrightarrow> unat (x - d) < unat sz"
  by (simp add: in_buf_def word_less_nat_alt)

lemma in_buf_tail:
  assumes "n \<le> sz" "in_buf (d + n) (sz - n) x"
  shows "in_buf d sz x" "\<not> in_buf d n x"
proof -
  have "unat (x - (d + n)) < unat sz - unat n" using assms by (simp add: in_buf_unat unat_sub)
  moreover have "x - d = (x - (d + n)) + n" by simp
  ultimately have "unat (x - (d + n)) + unat n < unat sz" by linarith
  then have "unat (x - (d + n)) + unat n < 2 ^ LENGTH(32)"
    using unsigned_less [of sz, where 'a = nat] by (rule less_trans)
  then have "unat (x - d) = unat (x - (d + n)) + unat n"
    using \<open>x - d = x - (d + n) + n\<close> unat_add_lem [of "x - (d + n)" n] by metis
  with \<open>unat (x - (d + n)) < unat sz - unat n\<close> show "in_buf d sz x" "\<not> in_buf d n x"
    by (auto simp: in_buf_unat)
qed

lemma kmemcpy_block:
  assumes "n \<noteq> 0" "d \<noteq> 0" "p \<noteq> 0" "\<And>i. i < unat n \<Longrightarrow> \<not> in_buf d n (p + of_nat i)"
  shows "kmemcpy d p (uint n) m x = (if in_buf d n x then m (p + (x - d)) else m x)"
proof -
  have "unat n \<le> 2 ^ 32" using unsigned_less [of n, where 'a = nat] by simp
  then have "memcpy_loop (unat n) d p m x = (if unat (x - d) < unat n then m (p + (x - d)) else m x)"
    using assms(4) by (intro memcpy_loop_eq) (auto simp: in_buf_unat not_less)
  moreover have "\<not> uint n \<le> 0" using assms(1) by (simp add: uint_0_iff order_antisym_conv)
  ultimately show ?thesis
    using assms(2,3) by (simp only: kmemcpy_def in_buf_unat nat_uint_eq if_False simp_thms)
qed

text \<open>A transfer that the table walks allow: every page is mapped, and neither the tables nor
  the frames lie in the kernel's buffer.\<close>

definition readable :: "mem \<Rightarrow> addr \<Rightarrow> addr \<Rightarrow> addr \<Rightarrow> uint \<Rightarrow> bool" where
  "readable m pde dest src sz \<longleftrightarrow> (\<forall>i < unat sz. dest + of_nat i \<noteq> 0 \<and>
     trans_vtop m pde (src + of_nat i) \<noteq> 0 \<and> \<not> in_buf dest sz (trans_vtop m pde (src + of_nat i)) \<and>
     (\<forall>x \<in> walk m pde (src + of_nat i). \<not> in_buf dest sz x))"

lemma copy_from_loop_bytes:
  assumes "readable m pde dest src sz"
  shows "\<forall>x. copy_from_loop pde dest src sz m x = (if in_buf dest sz x
     then m (trans_vtop m pde (src + (x - dest))) else m x)"
  using assms
proof (induction pde dest src sz m rule: copy_from_loop.induct)
  case (1 pde dest src sz m)
  show ?case
  proof (cases "0 < sz")
    case False
    then have "sz = 0" by (simp add: word_gt_0)
    then show ?thesis by (subst copy_from_loop.simps) (simp add: in_buf_def)
  next
    case True
    let ?n = "to_copy src sz" and ?p = "trans_vtop m pde src"
    let ?m = "kmemcpy dest ?p (uint ?n) m"
    have n: "?n \<noteq> 0" "?n \<le> sz" using to_copy_bounds(2) [of src sz] to_copy_nonzero True by auto
    have un: "0 < unat ?n" "unat ?n \<le> unat sz" using n by (simp_all add: unat_gt_0 word_le_nat_alt)
    have r: "dest + of_nat i \<noteq> 0" "trans_vtop m pde (src + of_nat i) \<noteq> 0"
      "\<not> in_buf dest sz (trans_vtop m pde (src + of_nat i))"
      "x \<in> walk m pde (src + of_nat i) \<Longrightarrow> \<not> in_buf dest sz x" if "i < unat sz" for i x
      using "1.prems" that by (auto simp: readable_def)
    have p: "?p \<noteq> 0" "dest \<noteq> 0" using r(1,2) [of 0] un by simp_all
    have head: "in_buf dest ?n x \<Longrightarrow> in_buf dest sz x" for x using un by (simp add: in_buf_unat)
    have lin: "trans_vtop m pde (src + of_nat i) = ?p + of_nat i" if "i < unat ?n" for i
      using trans_vtop_linear [OF that p(1)] .
    have "\<not> in_buf dest ?n (?p + of_nat i)" if "i < unat ?n" for i
      using r(3) [of i] lin [OF that] head that un by fastforce
    then have m1: "?m x = (if in_buf dest ?n x then m (?p + (x - dest)) else m x)" for x
      using kmemcpy_block [OF n(1) p(2,1)] by blast
    have tail: "trans_vtop ?m pde (src + ?n + of_nat i) = trans_vtop m pde (src + ?n + of_nat i)"
      "walk ?m pde (src + ?n + of_nat i) = walk m pde (src + ?n + of_nat i)"
      "src + ?n + of_nat i = src + of_nat (unat ?n + i)" "dest + ?n + of_nat i = dest + of_nat (unat ?n + i)"
      if "i < unat (sz - ?n)" for i
    proof -
      show e: "src + ?n + of_nat i = src + of_nat (unat ?n + i)" "dest + ?n + of_nat i = dest + of_nat (unat ?n + i)"
        by (simp_all add: add.assoc)
      have i: "unat ?n + i < unat sz" using that n(2) by (simp add: unat_sub)
      have "?m x = m x" if "x \<in> walk m pde (src + ?n + of_nat i)" for x
        using r(4) [OF i, of x] that head [of x] m1 e(1) by auto
      then show "trans_vtop ?m pde (src + ?n + of_nat i) = trans_vtop m pde (src + ?n + of_nat i)"
        "walk ?m pde (src + ?n + of_nat i) = walk m pde (src + ?n + of_nat i)"
        using trans_vtop_cong by metis+
    qed
    have "readable ?m pde (dest + ?n) (src + ?n) (sz - ?n)"
      unfolding readable_def
    proof (intro allI impI conjI ballI)
      fix i assume i': "i < unat (sz - ?n)"
      then have i: "unat ?n + i < unat sz" using n(2) by (simp add: unat_sub)
      show "dest + ?n + of_nat i \<noteq> 0" using r(1) [OF i] tail(4) [OF i'] by metis
      show "trans_vtop ?m pde (src + ?n + of_nat i) \<noteq> 0" using r(2) [OF i] tail(1,3) [OF i'] by metis
      show "\<not> in_buf (dest + ?n) (sz - ?n) (trans_vtop ?m pde (src + ?n + of_nat i))"
        using r(3) [OF i] tail(1,3) [OF i'] in_buf_tail(1) [OF n(2)] by metis
      show "\<not> in_buf (dest + ?n) (sz - ?n) x" if "x \<in> walk ?m pde (src + ?n + of_nat i)" for x
        using r(4) [OF i] that tail(2,3) [OF i'] in_buf_tail(1) [OF n(2)] by metis
    qed
    then have IH: "copy_from_loop pde (dest + ?n) (src + ?n) (sz - ?n) ?m x =
      (if in_buf (dest + ?n) (sz - ?n) x then ?m (trans_vtop ?m pde (src + ?n + (x - (dest + ?n)))) else ?m x)" for x
      using "1.IH" [OF True refl refl] by blast
    have run: "copy_from_loop pde dest src sz m = copy_from_loop pde (dest + ?n) (src + ?n) (sz - ?n) ?m"
      using True by (subst copy_from_loop.simps) (simp add: Let_def)
    show ?thesis
    proof
      fix x
      consider "in_buf (dest + ?n) (sz - ?n) x" | "\<not> in_buf (dest + ?n) (sz - ?n) x" "in_buf dest ?n x"
        | "\<not> in_buf (dest + ?n) (sz - ?n) x" "\<not> in_buf dest ?n x" by blast
      then show "copy_from_loop pde dest src sz m x = (if in_buf dest sz x
        then m (trans_vtop m pde (src + (x - dest))) else m x)"
      proof cases
        case 1
        define i where "i = unat (x - (dest + ?n))"
        have i: "i < unat (sz - ?n)" "src + ?n + (x - (dest + ?n)) = src + ?n + of_nat i"
          using 1 by (simp_all add: i_def in_buf_unat)
        then have isz: "unat ?n + i < unat sz" using n(2) by (simp add: unat_sub)
        have "\<not> in_buf dest ?n (trans_vtop m pde (src + ?n + of_nat i))"
          using r(3) [OF isz] tail(3) [OF i(1)] head by metis
        then have "?m (trans_vtop ?m pde (src + ?n + (x - (dest + ?n)))) = m (trans_vtop m pde (src + (x - dest)))"
          using m1 tail(1) [OF i(1)] i(2) by (simp add: algebra_simps)
        then show ?thesis using run IH [of x] 1 in_buf_tail(1) [OF n(2) 1] by simp
      next
        case 2
        have "?p + (x - dest) = trans_vtop m pde (src + (x - dest))"
          using lin [of "unat (x - dest)"] 2(2) by (simp add: in_buf_unat)
        then show ?thesis using run IH [of x] 2 m1 [of x] head [of x] by simp
      next
        case 3
        have "\<not> in_buf dest sz x"
        proof
          assume "in_buf dest sz x"
          then have a: "unat (x - dest) < unat sz" "unat ?n \<le> unat (x - dest)"
            using 3(2) by (simp_all add: in_buf_unat)
          then have "unat (x - dest - ?n) = unat (x - dest) - unat ?n" by (simp add: unat_sub word_le_nat_alt)
          then have "in_buf (dest + ?n) (sz - ?n) x"
            using a n(2) by (simp add: in_buf_unat unat_sub algebra_simps)
          then show False using 3(1) by simp
        qed
        then show ?thesis using run IH [of x] 3 m1 [of x] by simp
      qed
    qed
  qed
qed

lemma copy_from_user_bytes:
  assumes "current s = Some t" "pde = t_cr3 (tasks s t)"
    and "0x40000000 \<le> uint src" "uint src < 2 ^ 31"
    and "readable (pmem s) pde dest src sz"
  shows "\<exists>s'. copy_from_user dest src sz s = Some (s', 0)
    \<and> (\<forall>i < unat sz. pmem s' (dest + of_nat i) = pmem s (trans_vtop (pmem s) pde (src + of_nat i)))
    \<and> (\<forall>x. unat sz \<le> unat (x - dest) \<longrightarrow> pmem s' x = pmem s x) \<and> s' = s\<lparr>pmem := pmem s'\<rparr>"
proof -
  have "sint src = uint src" using assms(4) by (rule sint_of_small)
  then have guard: "\<not> (sint src < 0x40000000 \<or> src + sz > 0xFFFFFFFF)"
  proof -
    have "(0xFFFFFFFF :: addr) = - 1" by simp
    then have "src + sz \<le> 0xFFFFFFFF" by (simp only: word_order.extremum)
    then show ?thesis using assms(3) \<open>sint src = uint src\<close> by (simp only: not_less) simp
  qed
  have "unat (of_nat i :: addr) = i" if "i < unat sz" for i
    using that unsigned_less [of sz, where 'a = nat] by (simp add: unat_of_nat)
  then show ?thesis
    using copy_from_loop_bytes [OF assms(5)] guard assms(1,2)
    by (simp add: copy_from_user_def copy_from_user_n_def in_buf_unat)
qed


lemma all_less_two: "(\<forall>i < (2 :: nat). P i) \<longleftrightarrow> P 0 \<and> P 1"
  by (auto simp: numeral_2_eq_2 All_less_Suc)

text \<open>Two pages of user memory in the frames \<open>0x700\<close> and \<open>0x702\<close>.\<close>

definition demo_user :: mem where
  "demo_user = (store32 (store32 (store32 (\<lambda>_. 0) (word_of_int (cell 0x200 256)) 0x300227)
     (word_of_int (cell 0x300 1)) 0x700227) (word_of_int (cell 0x300 2)) 0x702227)
     (0x700fff := 65, 0x702000 := 66)"

definition demo_reader :: phys where
  "demo_reader = upd_task 0 (\<lambda>t. t\<lparr>t_cr3 := frame 0x200\<rparr>) (demo_phys\<lparr>pmem := demo_user\<rparr>)"


text \<open>C16: physical pages are handed out exclusively and come back.  \<open>alloc_pages\<close> either returns 0,
  with the state unchanged and no run of \<open>n\<close> free pages in the map, or the page-aligned address
  of \<open>n\<close> pages above the kernel that nobody had and that are now in use, all other pages keeping
  their owners; \<open>free_pages\<close> with that address makes every page's state what it was before.\<close>

theorem alloc_pages_exclusive:
  assumes "phys_ok s" "0 < n"
  shows "\<exists>s' a. alloc_pages n s = Some (s', a) \<and> phys_ok s' \<and>
    (if a = 0
     then s' = s \<and> (\<forall>k. 0 \<le> k \<and> k + n \<le> nbits (bitmap s) \<longrightarrow> (\<exists>j. k \<le> j \<and> j < k + n \<and> used s j))
     else \<exists>f. 0x601 \<le> f \<and> f + n \<le> 2 ^ 20 \<and> a = frame f
       \<and> (\<forall>j. f \<le> j \<and> j < f + n \<longrightarrow> \<not> used s j)
       \<and> (\<forall>j. 0 \<le> j \<and> j < 2 ^ 20 \<longrightarrow> (used s' j \<longleftrightarrow> f \<le> j \<and> j < f + n \<or> used s j))
       \<and> (\<exists>s''. free_pages a n s' = Some s'' \<and> (\<forall>j. 0 \<le> j \<and> j < 2 ^ 20 \<longrightarrow> used s'' j = used s j)))"
proof -
  obtain m f where a:
    "alloc_pages n s = Some (s\<lparr>pmem := m\<rparr>, if f = - 1 then 0 else word_of_int (f * PAGE_SIZE))"
    "f = - 1 \<Longrightarrow> m = pmem s \<and> (\<forall>k. 0 \<le> k \<and> k + n \<le> nbits (bitmap s) \<longrightarrow> \<not> free_run (bitmap s) (pmem s) k n)"
    "f \<noteq> - 1 \<Longrightarrow> 0x601 \<le> f \<and> f + n \<le> 2 ^ 20 \<and> free_run (bitmap s) (pmem s) f n"
    "\<And>j. is_page j \<Longrightarrow> page_used (bitmap s) m j \<longleftrightarrow> (f \<noteq> - 1 \<and> f \<le> j \<and> j < f + n) \<or> used s j"
    "\<And>x. \<not> in_map (bitmap s) x \<Longrightarrow> m x = pmem s x"
    by (rule alloc_pages_spec [OF assms]) auto
  let ?s' = "s\<lparr>pmem := m\<rparr>"
  have ok: "phys_ok ?s'" using a(4) by (intro phys_ok_alloc [OF assms(1)]) auto
  show ?thesis
  proof (cases "f = - 1")
    case True
    then show ?thesis using a(1,2) assms(1) by (auto simp: free_run_def used_def)
  next
    case False
    then have f: "0x601 \<le> f" "f + n \<le> 2 ^ 20" "free_run (bitmap s) (pmem s) f n" using a(3) by auto
    then have nz: "frame f \<noteq> 0" using frame_nonzero [of f] assms(2) by simp
    have p: "pages_ok f n" using f assms(2) by (simp add: pages_ok_def)
    have "uint (frame f) div PAGE_SIZE = f"
      using f assms(2) uint_of_addr [of "f * PAGE_SIZE"] by (simp add: frame_def PAGE_SIZE_def)
    then have "free_pages (frame f) n ?s' = Some (s\<lparr>pmem := bitmap_set_bits (bitmap s) f 0 n 1 m\<rparr>)"
      using ok by (simp add: free_pages_eq phys_ok_def bitmap_free_bits_def upd_mem_def)
    moreover have "page_used (bitmap s) (bitmap_set_bits (bitmap s) f 0 n 1 m) j = used s j" if "is_page j" for j
      using set_bits_up(1) [OF p that, of "bitmap s" 0 m] a(4) [OF that] f(3)
      by (auto simp: free_run_def used_def)
    ultimately show ?thesis
      using a(1,4) f ok nz False by (auto simp: used_def is_page_def free_run_def frame_def intro!: exI [of _ f])
  qed
qed

lemma alloc_pages_exclusive_witness:
  "\<exists>s' f s''. alloc_pages 1 demo_phys = Some (s', frame f) \<and> used s' f \<and> \<not> used demo_phys f
     \<and> free_pages (frame f) 1 s' = Some s'' \<and> \<not> used s'' f"
proof -
  have "\<not> (\<forall>k. 0 \<le> k \<and> k + 1 \<le> nbits (bitmap demo_phys) \<longrightarrow> (\<exists>j. k \<le> j \<and> j < k + 1 \<and> used demo_phys j))"
  proof
    assume "\<forall>k. 0 \<le> k \<and> k + 1 \<le> nbits (bitmap demo_phys) \<longrightarrow> (\<exists>j. k \<le> j \<and> j < k + 1 \<and> used demo_phys j)"
    from this [rule_format, of "0x601"]
    obtain j where "0x601 \<le> j" "j < 0x601 + 1" "used demo_phys j"
      by (auto simp: demo_pages_def)
    then show False using demo_used [of j] by (auto simp: is_page_def)
  qed
  then obtain s' f s'' where *: "alloc_pages 1 demo_phys = Some (s', frame f)" "0x601 \<le> f" "f + 1 \<le> 2 ^ 20"
    "\<forall>j. f \<le> j \<and> j < f + 1 \<longrightarrow> \<not> used demo_phys j"
    "\<forall>j. 0 \<le> j \<and> j < 2 ^ 20 \<longrightarrow> (used s' j \<longleftrightarrow> f \<le> j \<and> j < f + 1 \<or> used demo_phys j)"
    "free_pages (frame f) 1 s' = Some s''" "\<forall>j. 0 \<le> j \<and> j < 2 ^ 20 \<longrightarrow> used s'' j = used demo_phys j"
    using alloc_pages_exclusive [OF demo_phys_ok zero_less_one] by (smt (verit, best))
  then show ?thesis by (intro exI [of _ s'] exI [of _ f] exI [of _ s'']) auto
qed

end
