(* ===== verification/Frames.thy ===== *)
theory Frames
  imports Page
begin

text \<open>
  Memory page by page: which pages an operation of \<open>source/mm/page.c\<close> takes and which it may write.
  \<open>grows X s s'\<close> says that pages were only taken and that outside \<open>X\<close> no page in use changed.
\<close>

section \<open>Pages of the memory\<close>

lemma page_of: "0 \<le> a \<Longrightarrow> a < 4096 \<Longrightarrow> (q * 4096 + a) div 4096 = (q :: int)"
  by simp

lemma in_page:
  assumes "0 \<le> a" "a < 4096"
  shows "f * 4096 \<le> q * 4096 + a \<and> q * 4096 + a < f * 4096 + 4096 \<longleftrightarrow> f = (q :: int)"
  using assms page_of [of "q * 4096 + a - f * 4096" f] page_of [OF assms, of q] by auto

text \<open>Page \<open>q\<close> of \<open>m\<close> has the contents of page \<open>q'\<close> of \<open>m'\<close>.\<close>

definition page_eq :: "mem \<Rightarrow> int \<Rightarrow> mem \<Rightarrow> int \<Rightarrow> bool" where
  "page_eq m q m' q' \<longleftrightarrow> (\<forall>off. 0 \<le> off \<and> off < 4096 \<longrightarrow>
     m (word_of_int (q * 4096 + off)) = m' (word_of_int (q' * 4096 + off)))"

lemma page_eq_refl [simp]: "page_eq m q m q"
  by (simp add: page_eq_def)

lemma page_eq_trans: "page_eq m q m' q' \<Longrightarrow> page_eq m' q' m'' q'' \<Longrightarrow> page_eq m q m'' q''"
  by (simp add: page_eq_def)

lemma page_eq_sym: "page_eq m q m' q' \<Longrightarrow> page_eq m' q' m q"
  by (simp add: page_eq_def)

definition tab_entry :: "mem \<Rightarrow> int \<Rightarrow> int \<Rightarrow> uint" where
  "tab_entry m q k = load32 m (word_of_int (cell q k))"

lemma load32_bytes:
  assumes "\<And>i. i < 4 \<Longrightarrow> m (a + of_nat i) = m' (b + of_nat i)"
  shows "load32 m a = load32 m' b"
  using assms [of 0] assms [of 1] assms [of 2] assms [of 3] by (simp add: load32_def)

lemma page_eq_entry:
  assumes "page_eq m q m' q'" "0 \<le> k" "k < 1024"
  shows "tab_entry m q k = tab_entry m' q' k"
  unfolding tab_entry_def
proof (rule load32_bytes)
  fix i :: nat
  assume "i < 4"
  then have "m (word_of_int (q * 4096 + (4 * k + int i))) = m' (word_of_int (q' * 4096 + (4 * k + int i)))"
    using assms unfolding page_eq_def by (elim allE [of _ "4 * k + int i"]) simp
  moreover have "word_of_int (cell p k) + of_nat i = (word_of_int (p * 4096 + (4 * k + int i)) :: addr)" for p
    by (simp add: cell_def PAGE_SIZE_def)
  ultimately show "m (word_of_int (cell q k) + of_nat i) = m' (word_of_int (cell q' k) + of_nat i)" by (simp only:)
qed

text \<open>Writing an entry or copying a page changes that page only.\<close>

lemma page_eq_store:
  assumes "0 \<le> q" "q < 2 ^ 20" "0 \<le> q'" "q' < 2 ^ 20" "q \<noteq> q'" "0 \<le> k" "k < 1024"
  shows "page_eq m q' (store32 m (word_of_int (cell q k)) v) q'"
  unfolding page_eq_def
proof (intro allI impI)
  fix off :: int
  assume off: "0 \<le> off \<and> off < 4096"
  have "store32 m (word_of_int (cell q k)) v (word_of_int (q' * 4096 + off)) = m (word_of_int (q' * 4096 + off))"
  proof (rule store32_frame)
    fix i :: nat
    assume i: "i < 4"
    have c: "word_of_int (cell q k) + of_nat i = (word_of_int (q * 4096 + (4 * k + int i)) :: addr)"
      by (simp add: cell_def PAGE_SIZE_def)
    have "uint (word_of_int (q * 4096 + (4 * k + int i)) :: addr) = q * 4096 + (4 * k + int i)"
      "uint (word_of_int (q' * 4096 + off) :: addr) = q' * 4096 + off"
      using assms off i by (intro uint_of_addr; simp)+
    moreover have "q * 4096 + (4 * k + int i) \<noteq> q' * 4096 + off"
      using page_of [of "4 * k + int i" q] page_of [of off q'] assms off i by force
    ultimately show "word_of_int (q' * 4096 + off) \<noteq> (word_of_int (cell q k) + of_nat i :: addr)"
      unfolding c by metis
  qed
  then show "m (word_of_int (q' * 4096 + off)) = store32 m (word_of_int (cell q k)) v (word_of_int (q' * 4096 + off))" by simp
qed

lemma page_copy_byte:
  assumes f: "0 < f" "f < 2 ^ 20" and g: "0 < g" "g < 2 ^ 20" and ne: "f \<noteq> g" and z: "0 \<le> z" "z < 2 ^ 32"
  shows "kmemcpy (frame f) (frame g) PAGE_SIZE m (word_of_int z)
     = (if f * 4096 \<le> z \<and> z < f * 4096 + 4096 then m (word_of_int (z - f * 4096 + g * 4096)) else m (word_of_int z))"
proof -
  have nz: "frame f \<noteq> 0" "frame g \<noteq> 0" using f g by (simp_all add: frame_nonzero)
  have off: "unat (word_of_int x - frame f) < 4096 \<longleftrightarrow> f * 4096 \<le> x \<and> x < f * 4096 + 4096" if "0 \<le> x" "x < 2 ^ 32" for x
    using kmemset_offset [of "f * 4096" 4096 x 0] that f by (simp add: frame_def PAGE_SIZE_def)
  have apart: "4096 \<le> unat (frame g + of_nat i - frame f)" if "i < 4096" for i
  proof -
    have "frame g + of_nat i = word_of_int (g * 4096 + int i)" by (simp add: frame_def PAGE_SIZE_def)
    moreover have "\<not> unat (word_of_int (g * 4096 + int i) - frame f) < 4096"
      using off [of "g * 4096 + int i"] in_page [of "int i" f g] that g ne by simp
    ultimately show ?thesis by (simp only: not_less)
  qed
  have "kmemcpy (frame f) (frame g) PAGE_SIZE m (word_of_int z) = memcpy_loop 4096 (frame f) (frame g) m (word_of_int z)"
    using nz by (simp add: kmemcpy_def PAGE_SIZE_def)
  also have "\<dots> = (if unat (word_of_int z - frame f) < 4096 then m (frame g + (word_of_int z - frame f)) else m (word_of_int z))"
    using apart by (intro memcpy_loop_eq) simp_all
  also have "frame g + (word_of_int z - frame f) = word_of_int (z - f * 4096 + g * 4096)"
    by (simp add: frame_def PAGE_SIZE_def)
  finally show ?thesis using off [OF z] by simp
qed

lemma page_eq_copy:
  assumes "0 < f" "f < 2 ^ 20" "0 < g" "g < 2 ^ 20" "f \<noteq> g"
  shows "page_eq (kmemcpy (frame f) (frame g) PAGE_SIZE m) f m g"
    and "0 \<le> q \<Longrightarrow> q < 2 ^ 20 \<Longrightarrow> q \<noteq> f \<Longrightarrow> page_eq m q (kmemcpy (frame f) (frame g) PAGE_SIZE m) q"
proof -
  let ?m = "kmemcpy (frame f) (frame g) PAGE_SIZE m"
  have byte: "?m (word_of_int (q * 4096 + off)) = (if f = q then m (word_of_int (g * 4096 + off)) else m (word_of_int (q * 4096 + off)))"
    if "0 \<le> off" "off < 4096" "0 \<le> q" "q < 2 ^ 20" for q off
    using page_copy_byte [OF assms, of "q * 4096 + off" m] in_page [OF that(1,2), of f q] that
    by (simp add: add.commute)
  show "page_eq ?m f m g" using byte [of _ f] assms by (simp add: page_eq_def)
  show "page_eq m q ?m q" if "0 \<le> q" "q < 2 ^ 20" "q \<noteq> f" using byte [of _ q] that by (simp add: page_eq_def)
qed

section \<open>Memory that grows\<close>

text \<open>From \<open>s\<close> to \<open>s'\<close> pages were only taken, and apart from the pages \<open>X\<close> and the pages taken
  no page changed; nothing but the memory did.\<close>

definition grows :: "int set \<Rightarrow> 'a phys_scheme \<Rightarrow> 'a phys_scheme \<Rightarrow> bool" where
  "grows X s s' \<longleftrightarrow> phys_ok s' \<and> s'\<lparr>pmem := pmem s\<rparr> = s \<and> (\<forall>q. is_page q \<and> used s q \<longrightarrow> used s' q)
     \<and> (\<forall>q. table_page q \<and> (used s q \<or> \<not> used s' q) \<and> q \<notin> X \<longrightarrow> page_eq (pmem s) q (pmem s') q)"

lemma table_is_page: "table_page q \<Longrightarrow> is_page q"
  by (simp add: table_page_def is_page_def)

lemma grows_refl: "phys_ok s \<Longrightarrow> grows X s s"
  by (simp add: grows_def)

lemma grows_trans:
  assumes "grows X s s1" "grows Y s1 s2" "\<And>q. q \<in> Y \<Longrightarrow> q \<notin> X \<Longrightarrow> \<not> used s q \<and> used s2 q"
  shows "grows X s s2"
proof -
  have "s2\<lparr>pmem := pmem s\<rparr> = s2\<lparr>pmem := pmem s1\<rparr>\<lparr>pmem := pmem s\<rparr>" by simp
  also have "\<dots> = s" using assms(1,2) by (simp only: grows_def)
  finally have "s2\<lparr>pmem := pmem s\<rparr> = s" .
  moreover have "page_eq (pmem s) q (pmem s2) q"
    if "table_page q" "used s q \<or> \<not> used s2 q" "q \<notin> X" for q
  proof (rule page_eq_trans)
    have p: "is_page q" using that(1) by (rule table_is_page)
    then show "page_eq (pmem s) q (pmem s1) q" using assms(1,2) that by (auto simp: grows_def)
    show "page_eq (pmem s1) q (pmem s2) q" using assms that p by (auto simp: grows_def)
  qed
  ultimately show ?thesis using assms(1,2) by (auto simp: grows_def)
qed

lemma grows_mono: "grows X s s' \<Longrightarrow> X \<subseteq> Y \<Longrightarrow> grows Y s s'"
  by (auto simp: grows_def)

lemma growsD:
  assumes "grows X s s'"
  shows "phys_ok s'" "is_page q \<Longrightarrow> used s q \<Longrightarrow> used s' q" "current s' = current s" "tasks s' = tasks s"
    "table_page q \<Longrightarrow> used s q \<Longrightarrow> q \<notin> X \<Longrightarrow> page_eq (pmem s) q (pmem s') q"
proof -
  have "s' = s'\<lparr>pmem := pmem s\<rparr>\<lparr>pmem := pmem s'\<rparr>" by simp
  then have e: "s' = s\<lparr>pmem := pmem s'\<rparr>" using assms by (simp only: grows_def)
  show "current s' = current s" by (subst e) simp
  show "tasks s' = tasks s" by (subst e) simp
qed (use assms in \<open>auto simp: grows_def\<close>)

text \<open>At most \<open>n\<close> pages were taken.\<close>

definition taken :: "nat \<Rightarrow> 'a phys_scheme \<Rightarrow> 'a phys_scheme \<Rightarrow> bool" where
  "taken n s s' \<longleftrightarrow> (\<exists>F. finite F \<and> card F \<le> n \<and> (\<forall>q. is_page q \<and> used s' q \<longrightarrow> used s q \<or> q \<in> F))"

lemma taken_same: "(\<And>q. is_page q \<Longrightarrow> used s' q \<Longrightarrow> used s q) \<Longrightarrow> taken n s s'"
  by (auto simp: taken_def intro!: exI [of _ "{}"])

lemma taken_trans:
  assumes "taken a s s1" "taken b s1 s2"
  shows "taken (a + b) s s2"
proof -
  obtain F G where "finite F" "card F \<le> a" "\<forall>q. is_page q \<and> used s1 q \<longrightarrow> used s q \<or> q \<in> F"
    "finite G" "card G \<le> b" "\<forall>q. is_page q \<and> used s2 q \<longrightarrow> used s1 q \<or> q \<in> G"
    using assms by (auto simp: taken_def)
  moreover have "card (F \<union> G) \<le> card F + card G" by (rule card_Un_le)
  ultimately show ?thesis unfolding taken_def by (intro exI [of _ "F \<union> G"]) auto
qed

lemma taken_mono: "taken a s s' \<Longrightarrow> a \<le> b \<Longrightarrow> taken b s s'"
  by (auto simp: taken_def intro: order_trans)

text \<open>The three steps the copy is made of.\<close>

lemma grows_alloc:
  assumes "phys_ok s"
  obtains "alloc_pages 1 s = Some (s, 0)" "exhausted s"
  | s' f where "alloc_pages 1 s = Some (s', frame f)" "frame f \<noteq> 0" "0x601 \<le> f" "f < 2 ^ 20" "\<not> used s f" "used s' f"
    "\<And>X. grows X s s'" "\<And>q. table_page q \<Longrightarrow> page_eq (pmem s) q (pmem s') q" "taken 1 s s'"
proof -
  obtain m d where a:
    "alloc_pages 1 s = Some (s\<lparr>pmem := m\<rparr>, if d = - 1 then 0 else word_of_int (d * PAGE_SIZE))"
    "d = - 1 \<Longrightarrow> m = pmem s \<and> (\<forall>k. 0 \<le> k \<and> k + 1 \<le> nbits (bitmap s) \<longrightarrow> \<not> free_run (bitmap s) (pmem s) k 1)"
    "d \<noteq> - 1 \<Longrightarrow> 0x601 \<le> d \<and> d + 1 \<le> 2 ^ 20 \<and> free_run (bitmap s) (pmem s) d 1"
    "\<And>j. is_page j \<Longrightarrow> page_used (bitmap s) m j \<longleftrightarrow> (d \<noteq> - 1 \<and> d \<le> j \<and> j < d + 1) \<or> used s j"
    "\<And>x. \<not> in_map (bitmap s) x \<Longrightarrow> m x = pmem s x"
    by (rule alloc_pages_spec [OF assms, of 1]) auto
  show ?thesis
  proof (cases "d = - 1")
    case True
    then show ?thesis using a(1,2) by (intro that(1)) (auto intro!: exhaustedI)
  next
    case False
    let ?s = "s\<lparr>pmem := m\<rparr>"
    have d: "0x601 \<le> d" "d < 2 ^ 20" "\<not> used s d" using a(3) False by (auto simp: free_run_def used_def)
    have base: "base (bitmap s) = BITMAP_START" using assms by (simp add: phys_ok_def)
    have same: "page_eq (pmem s) q m q" if "table_page q" for q
      unfolding page_eq_def
    proof (intro allI impI)
      fix off :: int
      assume off: "0 \<le> off \<and> off < 4096"
      have "word_of_int (q * 4096 + off) - base (bitmap s) = (word_of_int (q * 4096 + off - 0x10400) :: addr)"
        by (simp add: base BITMAP_START_def)
      then have "uint (word_of_int (q * 4096 + off) - base (bitmap s)) = q * 4096 + off - 0x10400"
        using uint_of_addr [of "q * 4096 + off - 0x10400"] that off by (simp only:) (simp add: table_page_def)
      then have "\<not> in_map (bitmap s) (word_of_int (q * 4096 + off))"
        using that off by (simp add: in_map_def table_page_def)
      then show "pmem s (word_of_int (q * 4096 + off)) = m (word_of_int (q * 4096 + off))" using a(5) by simp
    qed
    have u: "used ?s j \<longleftrightarrow> j = d \<or> used s j" if "is_page j" for j using a(4) [OF that] False by (auto simp: used_def)
    have ok: "phys_ok ?s" using a(4) by (intro phys_ok_alloc [OF assms]) simp
    show ?thesis
    proof (rule that(2) [of ?s d])
      show "alloc_pages 1 s = Some (?s, frame d)" using a(1) False by (simp add: frame_def)
      show "frame d \<noteq> 0" using d by (intro frame_nonzero) auto
      show "used ?s d" using u d by (simp add: is_page_def)
      show "grows X s ?s" for X using ok u same by (auto simp: grows_def)
      show "page_eq (pmem s) q (pmem ?s) q" if "table_page q" for q using same [OF that] by simp
      show "taken 1 s ?s" unfolding taken_def using u by (intro exI [of _ "{d}"]) auto
    qed (use d in auto)
  qed
qed

lemma grows_store:
  fixes v :: uint
  assumes "phys_ok s" "table_page q" "0 \<le> k" "k < 1024"
  defines "s' \<equiv> upd_mem (\<lambda>m. store32 m (word_of_int (cell q k)) v) s"
  shows "grows {q} s s'" "tab_entry (pmem s') q k = v"
    "\<And>q' k'. table_page q' \<Longrightarrow> 0 \<le> k' \<Longrightarrow> k' < 1024 \<Longrightarrow> (q, k) \<noteq> (q', k') \<Longrightarrow> tab_entry (pmem s') q' k' = tab_entry (pmem s) q' k'"
    "taken 0 s s'"
proof -
  have above: "above_map (cell q k)" using assms(2-4) by (rule cell_above)
  have base: "base (bitmap s) = BITMAP_START" using assms(1) by (simp add: phys_ok_def)
  have u: "used s' j = used s j" if "is_page j" for j
    using page_used_store32 [OF base above that] by (simp add: used_def s'_def upd_mem_def)
  then show "taken 0 s s'" by (intro taken_same) simp
  note u
  moreover have "phys_ok s'" unfolding s'_def by (rule phys_ok_store [OF assms(1) above])
  moreover have "page_eq (pmem s) q' (pmem s') q'" if "table_page q'" "q' \<noteq> q" for q'
    using page_eq_store [of q q' k] assms(2-4) that by (simp add: s'_def upd_mem_def table_page_def)
  ultimately show "grows {q} s s'" by (simp add: grows_def s'_def upd_mem_def)
  show "tab_entry (pmem s') q k = v" by (simp add: tab_entry_def s'_def upd_mem_def)
  show "tab_entry (pmem s') q' k' = tab_entry (pmem s) q' k'"
    if "table_page q'" "0 \<le> k'" "k' < 1024" "(q, k) \<noteq> (q', k')" for q' k'
    using load_cell_store_cell [OF assms(2) that(1) assms(3,4) that(2,3,4)] by (simp add: tab_entry_def s'_def upd_mem_def)
qed

lemma grows_copy:
  assumes "phys_ok s" "0x601 \<le> f" "f < 2 ^ 20" "table_page g" "f \<noteq> g"
  defines "s' \<equiv> upd_mem (\<lambda>m. kmemcpy (frame f) (frame g) PAGE_SIZE m) s"
  shows "grows {f} s s'" "page_eq (pmem s') f (pmem s) g" "taken 0 s s'"
proof -
  have f: "0 < f" and g: "0 < g" "g < 2 ^ 20" using assms(2,4) by (auto simp: table_page_def)
  have base: "base (bitmap s) = BITMAP_START" using assms(1) by (simp add: phys_ok_def)
  have u: "used s' j = used s j" if "is_page j" for j
  proof -
    have j: "0 \<le> j div 8" "j div 8 < 2 ^ 17" using that by (auto simp: is_page_def)
    have "base (bitmap s) + word_of_int (j div 8) = word_of_int (0x10400 + j div 8)"
      by (simp add: base BITMAP_START_def)
    moreover have "kmemcpy (frame f) (frame g) PAGE_SIZE (pmem s) (word_of_int (0x10400 + j div 8)) = pmem s (word_of_int (0x10400 + j div 8))"
      using page_copy_byte [OF f assms(3) g assms(5), of "0x10400 + j div 8" "pmem s"] j assms(2) by simp
    ultimately show ?thesis by (simp add: used_def page_used_def s'_def upd_mem_def)
  qed
  then show "taken 0 s s'" by (intro taken_same) simp
  have "phys_ok s'" using u assms(1) by (auto simp: phys_ok_def s'_def upd_mem_def is_page_def page_idle_def)
  then show "grows {f} s s'"
    using u page_eq_copy(2) [OF f assms(3) g assms(5)] by (auto simp: grows_def s'_def upd_mem_def table_page_def)
  show "page_eq (pmem s') f (pmem s) g"
    using page_eq_copy(1) [OF f assms(3) g assms(5)] by (simp add: s'_def upd_mem_def)
qed

section \<open>A new directory\<close>

lemma page_eq_kmemset:
  assumes "0 < f" "f < 2 ^ 20" "0 \<le> q" "q < 2 ^ 20" "q \<noteq> f"
  shows "page_eq m q (kmemset (frame f) c PAGE_SIZE m) q"
proof -
  have "kmemset (frame f) c PAGE_SIZE m (word_of_int (q * 4096 + off)) = m (word_of_int (q * 4096 + off))"
    if "0 \<le> off" "off < 4096" for off
    using kmemset_page_byte [OF assms(1,2), of "q * 4096 + off" c m] in_page [OF that, of f q] that assms(3-5)
    by (simp add: PAGE_SIZE_def)
  then show ?thesis by (simp add: page_eq_def)
qed

lemma page_eq_copy_kernel:
  assumes "table_page f" "table_page q" "q \<noteq> f"
  shows "\<forall>k \<in> set ks. k < 1024 \<Longrightarrow> page_eq m q (foldl (copy_kernel_entry (frame f)) m (map of_nat ks)) q"
proof (induction ks arbitrary: m)
  case (Cons k ks)
  have "page_eq m q (copy_kernel_entry (frame f) m (of_nat k)) q"
    using page_eq_store [of f q "int k" m] assms Cons.prems by (simp add: copy_kernel_entry_cell table_page_def)
  then show ?case using Cons by (auto intro: page_eq_trans)
qed simp

text \<open>\<open>create_pde\<close> takes at most one page and writes to no other.\<close>

lemma create_pde_grows:
  assumes "phys_ok s"
  obtains "create_pde s = Some (s, 0)" "exhausted s"
  | s' d where "create_pde s = Some (s', frame d)" "frame d \<noteq> 0" "table_page d" "\<not> used s d" "used s' d"
    "grows {} s s'" "taken 1 s s'"
  using assms
proof (cases rule: grows_alloc)
  case 1
  then show ?thesis by (intro that(1)) (simp_all add: create_pde_def)
next
  case (2 s1 d)
  let ?m1 = "kmemset (frame d) 0 PAGE_SIZE (pmem s1)"
  let ?m2 = "foldl (copy_kernel_entry (frame d)) ?m1 (map of_nat [0..<1024])"
  define s' where "s' = s1\<lparr>pmem := ?m2\<rparr>"
  have d: "table_page d" "0 < d" using 2(3,4) by (simp_all add: table_page_def)
  have ok: "phys_ok s1" using growsD(1) [OF 2(7)] .
  then have base: "base (bitmap s1) = BITMAP_START" by (simp add: phys_ok_def)
  have u: "used s' j = used s1 j" if "is_page j" for j
    using page_used_copy_kernel [OF base d(1) that, of "[0..<1024]" ?m1] page_used_kmemset [OF base _ 2(4) that, of 0 "pmem s1"] 2(3)
    by (simp add: used_def s'_def)
  have "page_eq (pmem s1) q (pmem s') q" if "table_page q" "q \<noteq> d" for q
    using page_eq_kmemset [OF d(2) 2(4), of q "pmem s1" 0] page_eq_copy_kernel [OF d(1) that, of "[0..<1024]" ?m1] that
    by (auto simp: s'_def table_page_def intro: page_eq_trans)
  moreover have "phys_ok s'" using u ok by (auto simp: phys_ok_def s'_def is_page_def page_idle_def)
  ultimately have g: "grows {d} s1 s'" using u by (simp add: grows_def s'_def)
  have ud: "used s' d" using u [OF table_is_page [OF d(1)]] 2(6) by simp
  show ?thesis
  proof (rule that(2) [of s' d])
    show "create_pde s = Some (s', frame d)" using 2(1,2) by (simp add: create_pde_def upd_mem_def s'_def)
    show "grows {} s s'" by (rule grows_trans [OF 2(7) g]) (use 2(5) ud in auto)
    show "taken 1 s s'" using taken_trans [OF 2(9) taken_same [of s' s1 0]] u by simp
  qed (use 2 d ud in auto)
qed

text \<open>A byte of a page that is in use keeps its value.\<close>

definition page_no :: "uint \<Rightarrow> int" where
  "page_no e = uint e div 4096"

lemma page_no_address:
  assumes "0 \<le> f" "f < 2 ^ 20" "0 \<le> off" "off < 4096"
  shows "page_no (word_of_int (f * 4096 + off)) = f"
proof -
  have "uint (word_of_int (f * 4096 + off) :: addr) = f * 4096 + off" using assms by (intro uint_of_addr) auto
  then show ?thesis using assms unfolding page_no_def by simp
qed

lemma grows_byte:
  assumes "grows X s s'" "table_page (page_no x)" "used s (page_no x)" "page_no x \<notin> X"
  shows "pmem s' x = pmem s x"
proof -
  have "word_of_int (page_no x * 4096 + uint x mod 4096) = x" by (simp add: page_no_def)
  then show ?thesis using growsD(5) [OF assms] by (auto simp: page_eq_def dest: spec [of _ "uint x mod 4096"])
qed

lemma table_byte_outside_map:
  assumes "base b = BITMAP_START" "table_page (page_no x)"
  shows "\<not> in_map b x"
proof -
  have x: "0x31000 \<le> uint x" using assms(2) by (auto simp: table_page_def page_no_def)
  have "x - base b = word_of_int (uint x - 0x10400)" by (simp add: assms(1) BITMAP_START_def)
  then have "uint (x - base b) = uint x - 0x10400"
    using uint_of_addr [of "uint x - 0x10400"] uint_addr_bounds [of x] x by simp
  then show ?thesis using x by (simp add: in_map_def)
qed

text \<open>What holds of memory and map holds in any state with the same memory and map.\<close>

lemma used_cong: "pmem t = pmem s \<Longrightarrow> bitmap t = bitmap s \<Longrightarrow> used t q = used s q"
  by (simp add: used_def)

lemma grows_bitmap: "grows X s s' \<Longrightarrow> bitmap s' = bitmap s"
  by (metis grows_def phys.surjective phys.update_convs(1) phys.select_convs(2))

lemma grows_links: "grows X s s' \<Longrightarrow> links s' = links s \<and> mutexes s' = mutexes s"
proof -
  assume g: "grows X s s'"
  have "s' = s'\<lparr>pmem := pmem s\<rparr>\<lparr>pmem := pmem s'\<rparr>" by simp
  then have e: "s' = s\<lparr>pmem := pmem s'\<rparr>" using g by (simp only: grows_def)
  show "links s' = links s \<and> mutexes s' = mutexes s" by (subst (1 2) e) simp
qed

lemma grows_transfer:
  assumes g: "grows X s s'" and t: "pmem t = pmem s" "bitmap t = bitmap s" "links t = links s" "mutexes t = mutexes s"
  shows "grows X t (t\<lparr>pmem := pmem s'\<rparr>)"
proof -
  let ?t = "t\<lparr>pmem := pmem s'\<rparr>"
  have b: "bitmap s' = bitmap s" "links s' = links s" "mutexes s' = mutexes s"
    using grows_bitmap [OF g] grows_links [OF g] by auto
  have u: "used t q = used s q" "used ?t q = used s' q" for q using t b by (simp_all add: used_def)
  have "phys_ok s'" using growsD(1) [OF g] .
  then have "phys_ok ?t" using t b by (simp add: phys_ok_def page_idle_def used_def)
  then show ?thesis using g u t(1) by (auto simp: grows_def)
qed

text \<open>Writing bytes of pages in use.\<close>

lemma grows_bytes:
  assumes ok: "phys_ok s" and out: "\<And>x. page_no x \<notin> X \<Longrightarrow> m x = pmem s x"
    and X: "\<And>q. q \<in> X \<Longrightarrow> table_page q"
  shows "grows X s (s\<lparr>pmem := m\<rparr>)" "taken 0 s (s\<lparr>pmem := m\<rparr>)"
proof -
  let ?s = "s\<lparr>pmem := m\<rparr>"
  have base: "base (bitmap s) = BITMAP_START" using ok by (simp add: phys_ok_def)
  have map: "m x = pmem s x" if "in_map (bitmap s) x" for x
    using out [of x] X [of "page_no x"] table_byte_outside_map [OF base, of x] that by blast
  have u: "used ?s j = used s j" if "is_page j" for j
    using map [OF byte_in_map [of "j div 8" "bitmap s"]] page_byte [OF that] by (simp add: used_def page_used_def)
  then show "taken 0 s ?s" by (intro taken_same) simp
  have "page_eq (pmem s) q m q" if "table_page q" "q \<notin> X" for q
    using out page_no_address [of q] that by (simp add: page_eq_def table_page_def)
  moreover have "phys_ok ?s" using u ok by (auto simp: phys_ok_def is_page_def)
  ultimately show "grows X s ?s" using u by (simp add: grows_def)
qed

end
