(* ===== verification/Fork.thy ===== *)
theory Fork
  imports Frames
begin

text \<open>
  The copy of an address space in \<open>fork\<close> (\<open>copy_memory\<close> of \<open>source/kernel/task.c\<close>): the child gets
  its own tables and its own frames with the parent's contents, and nothing the parent has
  changes.
\<close>

section \<open>Copying a table\<close>

text \<open>\<open>page_no\<close> of an entry is the page it refers to.  Entry \<open>k\<close> of the child's table
  \<open>t\<close>: a fresh frame with the contents of the page that the parent's entry \<open>e\<close> refers to, or, where that is not present, what the page of the table held.\<close>

definition copied :: "'a phys_scheme \<Rightarrow> 'a phys_scheme \<Rightarrow> int \<Rightarrow> int \<Rightarrow> uint \<Rightarrow> int \<Rightarrow> bool" where
  "copied s s' t k e f \<longleftrightarrow>
     (if present e
      then 0x601 \<le> f \<and> f < 2 ^ 20 \<and> \<not> used s f \<and> used s' f \<and> tab_entry (pmem s') t k = frame f OR PAGE_SHARED
        \<and> page_eq (pmem s') f (pmem s) (page_no e)
      else tab_entry (pmem s') t k = tab_entry (pmem s) t k)"

text \<open>The pages a table refers to are in use and not \<open>d\<close>.\<close>

definition table_ok :: "'a phys_scheme \<Rightarrow> int \<Rightarrow> int \<Rightarrow> bool" where
  "table_ok s d p \<longleftrightarrow> table_page p \<and> used s p \<and> p \<noteq> d \<and>
     (\<forall>k. 0 \<le> k \<and> k < 1024 \<and> present (tab_entry (pmem s) p k) \<longrightarrow>
        table_page (page_no (tab_entry (pmem s) p k)) \<and> used s (page_no (tab_entry (pmem s) p k)) \<and> page_no (tab_entry (pmem s) p k) \<noteq> d)"

lemma align_down_page_no: "align_down e 4096 = frame (page_no e)"
proof -
  have "align_down e 4096 = push_bit 12 (drop_bit 12 e)"
    by (rule bit_word_eqI) (auto simp: align_down_mask bit_simps)
  also have "drop_bit 12 e = word_of_int (page_no e)"
    using uint_drop_bit [of 12 e] by (simp add: page_no_def) (metis word_of_int_uint)
  finally show ?thesis by (simp add: frame_push)
qed

lemma entry_kept:
  assumes "grows X s s'" "table_page q" "used s q" "q \<notin> X" "0 \<le> k" "k < 1024"
  shows "tab_entry (pmem s') q k = tab_entry (pmem s) q k"
  using growsD(5) [OF assms(1-4)] assms(5,6) by (simp add: page_eq_entry)

lemma table_ok_kept:
  assumes "table_ok s d p" "grows X s s'" "\<And>q. q \<in> X \<Longrightarrow> q = d \<or> \<not> used s q"
  shows "table_ok s' d p"
proof -
  have "p \<notin> X" using assms by (auto simp: table_ok_def)
  then have "tab_entry (pmem s') p k = tab_entry (pmem s) p k" if "0 \<le> k" "k < 1024" for k
    using entry_kept [OF assms(2)] assms(1) that by (simp add: table_ok_def)
  then show ?thesis using assms(1) growsD(2) [OF assms(2)] table_is_page by (auto simp: table_ok_def)
qed

text \<open>What was copied from the state \<open>s1\<close> was copied from \<open>s\<close>, if the pages that differ were fresh.\<close>

lemma copied_back:
  assumes "copied s1 s' t k e f" "grows X s s1" "table_page t" "0 \<le> k" "k < 1024"
    and "present e \<Longrightarrow> table_page (page_no e) \<and> used s (page_no e) \<and> page_no e \<notin> X"
    and "\<not> present e \<Longrightarrow> tab_entry (pmem s1) t k = tab_entry (pmem s) t k"
  shows "copied s s' t k e f"
proof (cases "present e")
  case True
  then have f: "0x601 \<le> f" "f < 2 ^ 20" "\<not> used s1 f" "used s' f" "tab_entry (pmem s') t k = frame f OR PAGE_SHARED"
    "page_eq (pmem s') f (pmem s1) (page_no e)" using assms(1) by (auto simp: copied_def)
  have "\<not> used s f" using growsD(2) [OF assms(2), of f] f by (auto simp: is_page_def)
  moreover have "page_eq (pmem s1) (page_no e) (pmem s) (page_no e)"
    using growsD(5) [OF assms(2)] assms(6) [OF True] by (auto intro: page_eq_sym)
  ultimately show ?thesis using True f by (auto simp: copied_def intro: page_eq_trans)
qed (use assms in \<open>simp add: copied_def\<close>)

lemma word_cell_next: "word_of_int (cell q k) + 4 = (word_of_int (cell q (k + 1)) :: addr)"
  by (simp add: cell_def)

text \<open>One present entry: no page is left, or the step to a state with one more frame.\<close>

lemma copy_pte_step:
  assumes "phys_ok s" "table_page t" "used s t" "table_ok s t p" "0 \<le> j" "j < 1024"
    and e: "present (tab_entry (pmem s) p j)"
  obtains "copy_ptes (Suc n) (word_of_int (cell p j)) (word_of_int (cell t j)) s = Some (s, - 1)" "exhausted s"
  | s' f where "copy_ptes (Suc n) (word_of_int (cell p j)) (word_of_int (cell t j)) s
      = copy_ptes n (word_of_int (cell p (j + 1))) (word_of_int (cell t (j + 1))) s'"
    "grows {t} s s'" "copied s s' t j (tab_entry (pmem s) p j) f"
    "\<And>k. 0 \<le> k \<Longrightarrow> k < 1024 \<Longrightarrow> k \<noteq> j \<Longrightarrow> tab_entry (pmem s') t k = tab_entry (pmem s) t k" "taken 1 s s'"
  using assms(1)
proof (cases rule: grows_alloc)
  case 1
  then show ?thesis using e by (intro that(1)) (simp_all add: tab_entry_def)
next
  case (2 s1 f)
  let ?e = "tab_entry (pmem s) p j"
  define s2 where "s2 = upd_mem (\<lambda>m. store32 m (word_of_int (cell t j)) (frame f OR PAGE_SHARED)) s1"
  define s3 where "s3 = upd_mem (\<lambda>m. kmemcpy (frame f) (frame (page_no ?e)) PAGE_SIZE m) s2"
  have p: "table_page p" "used s p" "p \<noteq> t" and src: "table_page (page_no ?e)" "used s (page_no ?e)" "page_no ?e \<noteq> t"
    using assms(4-7) by (auto simp: table_ok_def)
  have neq: "f \<noteq> t" "f \<noteq> p" "f \<noteq> page_no ?e" using 2(5) assms(3) p(2) src(2) by auto
  have tf: "table_page f" using 2(3,4) by (simp add: table_page_def)
  have g1: "grows {t} s s1" by (rule 2(7))
  note st = grows_store [OF growsD(1) [OF g1] assms(2,5,6), where v = "frame f OR PAGE_SHARED", folded s2_def]
  note cp = grows_copy [OF growsD(1) [OF st(1)] 2(3,4) src(1) neq(3), folded s3_def]
  have used: "used s2 f" "used s3 f"
    using 2(6) growsD(2) [OF st(1) table_is_page [OF tf]] growsD(2) [OF cp(1) table_is_page [OF tf]] by auto
  have g2: "grows {t} s s2" by (rule grows_trans [OF g1 st(1)]) simp
  have g3: "grows {t} s s3" by (rule grows_trans [OF g2 cp(1)]) (use 2(5) used in auto)
  have same1: "tab_entry (pmem s1) q k = tab_entry (pmem s) q k" if "table_page q" "0 \<le> k" "k < 1024" for q k
    using page_eq_entry [OF 2(8) [OF that(1)] that(2,3)] by simp
  have "used s2 q" if "table_page q" "used s q" for q
    using that growsD(2) [OF g2] table_is_page by blast
  then have same3: "tab_entry (pmem s3) q k = tab_entry (pmem s2) q k" if "table_page q" "used s q" "q \<noteq> f" "0 \<le> k" "k < 1024" for q k
    using that by (intro entry_kept [OF cp(1)]) auto
  have e2: "load32 (pmem s2) (word_of_int (cell p j)) = ?e"
    using st(3) [OF p(1) assms(5,6)] same1 [OF p(1) assms(5,6)] p(3) by (simp add: tab_entry_def)
  have run: "copy_ptes (Suc n) (word_of_int (cell p j)) (word_of_int (cell t j)) s
      = copy_ptes n (word_of_int (cell p (j + 1))) (word_of_int (cell t (j + 1))) s3"
    using e 2(1,2) by (simp add: tab_entry_def [symmetric] s2_def [symmetric] word_cell_next)
      (simp add: s3_def upd_mem_def e2 [unfolded tab_entry_def] align_down_page_no tab_entry_def)
  show ?thesis
  proof (rule that(2) [OF run g3])
    show "taken 1 s s3" using taken_trans [OF taken_trans [OF 2(9) st(4)] cp(3)] by simp
    have "tab_entry (pmem s3) t j = frame f OR PAGE_SHARED"
      using same3 [OF assms(2,3) _ assms(5,6)] neq(1) st(2) by simp
    moreover have "page_eq (pmem s2) (page_no ?e) (pmem s) (page_no ?e)"
      using growsD(5) [OF g2 src(1,2)] src(3) by (auto intro: page_eq_sym)
    ultimately show "copied s s3 t j ?e f" using e 2 used cp(2) by (auto simp: copied_def intro: page_eq_trans)
    show "tab_entry (pmem s3) t k = tab_entry (pmem s) t k" if "0 \<le> k" "k < 1024" "k \<noteq> j" for k
      using same3 [OF assms(2,3) _ that(1,2)] neq(1) st(3) [OF assms(2) that(1,2)] same1 [OF assms(2) that(1,2)] that(3) by simp
  qed
qed

definition to_copy_entries :: "mem \<Rightarrow> int \<Rightarrow> int \<Rightarrow> int set" where
  "to_copy_entries m p j = {k. j \<le> k \<and> k < 1024 \<and> present (tab_entry m p k)}"

text \<open>The first present entry and the rest.\<close>

lemma copied_first:
  assumes g: "grows {t} s s1" "grows {t} s1 s'" and t: "table_page t" "used s t" "table_ok s t p"
    and j: "0 \<le> j" "j < 1024" "present (tab_entry (pmem s) p j)" and first: "copied s s1 t j (tab_entry (pmem s) p j) f"
    and others: "\<And>k. 0 \<le> k \<Longrightarrow> k < 1024 \<Longrightarrow> k \<noteq> j \<Longrightarrow> tab_entry (pmem s1) t k = tab_entry (pmem s) t k"
    and kept: "tab_entry (pmem s') t j = tab_entry (pmem s1) t j"
    and inj: "inj_on h (to_copy_entries (pmem s1) p (j + 1))"
    and rest: "\<forall>k. j + 1 \<le> k \<and> k < 1024 \<longrightarrow> copied s1 s' t k (tab_entry (pmem s1) p k) (h k)"
  shows "inj_on (h(j := f)) (to_copy_entries (pmem s) p j)"
    and "j \<le> k \<Longrightarrow> k < 1024 \<Longrightarrow> copied s s' t k (tab_entry (pmem s) p k) ((h(j := f)) k)"
proof -
  have p: "tab_entry (pmem s1) p k = tab_entry (pmem s) p k" if "0 \<le> k" "k < 1024" for k
    using t(3) that by (intro entry_kept [OF g(1)]) (auto simp: table_ok_def)
  have f: "0x601 \<le> f" "f < 2 ^ 20" "\<not> used s f" "used s1 f" using first j(3) by (auto simp: copied_def)
  then have fp: "table_page f" "f \<noteq> t" using t(2) by (auto simp: table_page_def)
  have "to_copy_entries (pmem s) p j = insert j (to_copy_entries (pmem s1) p (j + 1))"
    using j p by (auto simp: to_copy_entries_def)
  moreover have "h k \<noteq> f" if "k \<in> to_copy_entries (pmem s1) p (j + 1)" for k
    using rest that f(4) by (auto simp: to_copy_entries_def copied_def)
  moreover have "j \<notin> to_copy_entries (pmem s1) p (j + 1)" by (simp add: to_copy_entries_def)
  ultimately show "inj_on (h(j := f)) (to_copy_entries (pmem s) p j)"
    using inj by (auto simp: inj_on_def)
  show "copied s s' t k (tab_entry (pmem s) p k) ((h(j := f)) k)" if k: "j \<le> k" "k < 1024"
  proof (cases "k = j")
    case True
    have "page_eq (pmem s') f (pmem s1) f" using growsD(5) [OF g(2) fp(1) f(4)] fp(2) by (auto intro: page_eq_sym)
    moreover have "used s' f" using growsD(2) [OF g(2) table_is_page [OF fp(1)] f(4)] .
    ultimately show ?thesis using True first kept j(3) f(1-3) by (auto simp: copied_def intro: page_eq_trans)
  next
    case False
    then have "j + 1 \<le> k" using k(1) by simp
    then have "copied s1 s' t k (tab_entry (pmem s) p k) (h k)" using rest [rule_format, of k] k(2) p [of k] j(1) by simp
    then have "copied s s' t k (tab_entry (pmem s) p k) (h k)"
      using t k False j(1) others by (intro copied_back [OF _ g(1)]) (auto simp: table_ok_def)
    then show ?thesis using False by simp
  qed
qed

lemma copy_ptes_spec:
  assumes "phys_ok s" "table_page t" "used s t" "table_ok s t p" "0 \<le> j" "j + int n = 1024"
  shows "\<exists>s' r g. copy_ptes n (word_of_int (cell p j)) (word_of_int (cell t j)) s = Some (s', r) \<and> grows {t} s s' \<and> taken n s s'
    \<and> (\<forall>k. 0 \<le> k \<and> k < j \<longrightarrow> tab_entry (pmem s') t k = tab_entry (pmem s) t k)
    \<and> (r = - 1 \<and> exhausted s' \<or> r = 0 \<and> inj_on g (to_copy_entries (pmem s) p j)
        \<and> (\<forall>k. j \<le> k \<and> k < 1024 \<longrightarrow> copied s s' t k (tab_entry (pmem s) p k) (g k)))"
  using assms
proof (induction n arbitrary: j s)
  case 0
  then show ?case using grows_refl [OF 0(1)] taken_same [of s s 0] by (auto simp: to_copy_entries_def)
next
  case (Suc n)
  have j: "0 \<le> j" "j < 1024" "j + 1 + int n = 1024" using Suc.prems by auto
  show ?case
  proof (cases "present (tab_entry (pmem s) p j)")
    case False
    obtain s' r g where IH: "copy_ptes n (word_of_int (cell p (j + 1))) (word_of_int (cell t (j + 1))) s = Some (s', r)"
      "grows {t} s s'" "\<forall>k. 0 \<le> k \<and> k < j + 1 \<longrightarrow> tab_entry (pmem s') t k = tab_entry (pmem s) t k"
      "r = - 1 \<and> exhausted s' \<or> r = 0 \<and> inj_on g (to_copy_entries (pmem s) p (j + 1))
        \<and> (\<forall>k. j + 1 \<le> k \<and> k < 1024 \<longrightarrow> copied s s' t k (tab_entry (pmem s) p k) (g k))" "taken n s s'"
      using Suc.IH [OF Suc.prems(1-4), of "j + 1"] j by auto
    have set: "to_copy_entries (pmem s) p j = to_copy_entries (pmem s) p (j + 1)"
      using False by (auto simp: to_copy_entries_def order_le_less)
    have "copied s s' t j (tab_entry (pmem s) p j) (g j)" using IH(3) False j by (simp add: copied_def)
    then have all: "copied s s' t k (tab_entry (pmem s) p k) (g k)"
      if "\<forall>k. j + 1 \<le> k \<and> k < 1024 \<longrightarrow> copied s s' t k (tab_entry (pmem s) p k) (g k)" "j \<le> k" "k < 1024" for k
      using that by (cases "k = j") auto
    have "copy_ptes (Suc n) (word_of_int (cell p j)) (word_of_int (cell t j)) s = Some (s', r)"
      using False IH(1) by (simp add: tab_entry_def word_cell_next)
    then show ?thesis using IH(2-4) all taken_mono [OF IH(5), of "Suc n"] unfolding set
      by (intro exI [of _ s'] exI [of _ r] exI [of _ g]) auto
  next
    case True
    from Suc.prems(1-4) j(1,2) True show ?thesis
    proof (cases rule: copy_pte_step [where n = n])
      case 1
      then show ?thesis using grows_refl [OF Suc.prems(1)] taken_same [of s s "Suc n"]
        by (intro exI [of _ s] exI [of _ "- 1"]) simp
    next
      case (2 s3 f)
      note g = 2(2)
      have k3: "tab_entry (pmem s3) p k = tab_entry (pmem s) p k" if "0 \<le> k" "k < 1024" for k
        using Suc.prems(4) that by (intro entry_kept [OF g]) (auto simp: table_ok_def)
      have ok3: "phys_ok s3" "used s3 t" "table_ok s3 t p"
        using growsD(1,2) [OF g] Suc.prems(2,3) table_is_page table_ok_kept [OF Suc.prems(4) g] by auto
      obtain s' r h where IH: "copy_ptes n (word_of_int (cell p (j + 1))) (word_of_int (cell t (j + 1))) s3 = Some (s', r)"
        "grows {t} s3 s'" "\<forall>k. 0 \<le> k \<and> k < j + 1 \<longrightarrow> tab_entry (pmem s') t k = tab_entry (pmem s3) t k"
        "r = - 1 \<and> exhausted s' \<or> r = 0 \<and> inj_on h (to_copy_entries (pmem s3) p (j + 1))
          \<and> (\<forall>k. j + 1 \<le> k \<and> k < 1024 \<longrightarrow> copied s3 s' t k (tab_entry (pmem s3) p k) (h k))" "taken n s3 s'"
        using Suc.IH [OF ok3(1) Suc.prems(2) ok3(2,3), of "j + 1"] j by auto
      have gs: "grows {t} s s'" by (rule grows_trans [OF g IH(2)]) simp
      have low: "tab_entry (pmem s') t k = tab_entry (pmem s) t k" if "0 \<le> k" "k < j" for k
        using IH(3) 2(4) [of k] that j by auto
      have kept: "tab_entry (pmem s') t j = tab_entry (pmem s3) t j" using IH(3) j by auto
      note first = copied_first [OF g IH(2) Suc.prems(2-4) j(1,2) True 2(3) 2(4) kept]
      have run: "copy_ptes (Suc n) (word_of_int (cell p j)) (word_of_int (cell t j)) s = Some (s', r)"
        using 2(1) IH(1) by (simp only:)
      show ?thesis
      proof (intro exI conjI allI impI)
        show "r = - 1 \<and> exhausted s' \<or> r = 0 \<and> inj_on (h(j := f)) (to_copy_entries (pmem s) p j)
          \<and> (\<forall>k. j \<le> k \<and> k < 1024 \<longrightarrow> copied s s' t k (tab_entry (pmem s) p k) ((h(j := f)) k))"
          using IH(4) first by (auto simp del: fun_upd_apply)
        show "taken (Suc n) s s'" using taken_trans [OF 2(5) IH(5)] by simp
      qed (use run gs low in auto)
    qed
  qed
qed

section \<open>Copying a directory\<close>

definition copied_table :: "'a phys_scheme \<Rightarrow> 'a phys_scheme \<Rightarrow> int \<Rightarrow> int \<Rightarrow> uint \<Rightarrow> int \<Rightarrow> (int \<Rightarrow> int) \<Rightarrow> bool" where
  "copied_table s s' d k e t g \<longleftrightarrow>
     (if present e
      then 0x601 \<le> t \<and> t < 2 ^ 20 \<and> \<not> used s t \<and> used s' t \<and> tab_entry (pmem s') d k = frame t OR PAGE_SHARED
        \<and> inj_on g (to_copy_entries (pmem s) (page_no e) 0)
        \<and> (\<forall>j. 0 \<le> j \<and> j < 1024 \<longrightarrow> copied s s' t j (tab_entry (pmem s) (page_no e) j) (g j))
      else tab_entry (pmem s') d k = tab_entry (pmem s) d k)"

text \<open>The directory \<open>q\<close> of the parent, from entry \<open>i\<close> on; \<open>d\<close> is the directory of the child.\<close>

definition dir_ok :: "'a phys_scheme \<Rightarrow> int \<Rightarrow> int \<Rightarrow> int \<Rightarrow> bool" where
  "dir_ok s d q i \<longleftrightarrow> table_page q \<and> used s q \<and> q \<noteq> d \<and>
     (\<forall>k. i \<le> k \<and> k < 1024 \<and> present (tab_entry (pmem s) q k) \<longrightarrow> table_ok s d (page_no (tab_entry (pmem s) q k)))"

lemma copied_forward:
  assumes "copied s s1 t j e f" "grows {d} s1 s'" "used s d" "table_page t" "used s1 t" "t \<noteq> d" "0 \<le> j" "j < 1024"
  shows "copied s s' t j e f"
proof (cases "present e")
  case True
  then have f: "0x601 \<le> f" "f < 2 ^ 20" "\<not> used s f" "used s1 f" "page_eq (pmem s1) f (pmem s) (page_no e)"
    "tab_entry (pmem s1) t j = frame f OR PAGE_SHARED" using assms(1) by (auto simp: copied_def)
  then have tf: "table_page f" "f \<noteq> d" using assms(3) by (auto simp: table_page_def)
  have "used s' f" using growsD(2) [OF assms(2) table_is_page [OF tf(1)] f(4)] .
  moreover have "page_eq (pmem s') f (pmem s1) f" using growsD(5) [OF assms(2) tf(1) f(4)] tf(2) by (auto intro: page_eq_sym)
  moreover have "tab_entry (pmem s') t j = tab_entry (pmem s1) t j"
    using assms(4-8) by (intro entry_kept [OF assms(2)]) auto
  ultimately show ?thesis using True f by (auto simp: copied_def intro: page_eq_trans)
next
  case False
  have "tab_entry (pmem s') t j = tab_entry (pmem s1) t j" using assms(4-8) by (intro entry_kept [OF assms(2)]) auto
  then show ?thesis using False assms(1) by (simp add: copied_def)
qed

lemma dir_ok_kept:
  assumes "dir_ok s d q i" "grows {d} s s'" "i \<le> j" "0 \<le> i"
  shows "dir_ok s' d q j" "i \<le> k \<Longrightarrow> k < 1024 \<Longrightarrow> tab_entry (pmem s') q k = tab_entry (pmem s) q k"
proof -
  show e: "tab_entry (pmem s') q k = tab_entry (pmem s) q k" if "i \<le> k" "k < 1024" for k
    using assms that by (intro entry_kept [OF assms(2)]) (auto simp: dir_ok_def)
  show "dir_ok s' d q j"
    using assms e table_ok_kept [OF _ assms(2)] growsD(2) [OF assms(2)] table_is_page
    by (auto simp: dir_ok_def)
qed

text \<open>What was copied after the state \<open>s1\<close>, seen from \<open>s\<close>.\<close>

lemma copied_table_back:
  assumes c: "copied_table s1 s' d k e t g" and g: "grows {d} s s1" and d: "table_page d" "used s d" "0 \<le> k" "k < 1024"
    and kept: "\<not> present e \<Longrightarrow> tab_entry (pmem s1) d k = tab_entry (pmem s) d k"
    and ok: "present e \<Longrightarrow> table_ok s d (page_no e)"
  shows "copied_table s s' d k e t g"
proof (cases "present e")
  case True
  let ?p = "page_no e"
  have p: "tab_entry (pmem s1) ?p j = tab_entry (pmem s) ?p j" if "0 \<le> j" "j < 1024" for j
    using ok [OF True] that by (intro entry_kept [OF g]) (auto simp: table_ok_def)
  have t: "0x601 \<le> t" "t < 2 ^ 20" "\<not> used s1 t" "used s' t" using c True by (auto simp: copied_table_def)
  have tp: "table_page t" using t by (simp add: table_page_def)
  have nu: "\<not> used s t" using growsD(2) [OF g table_is_page [OF tp]] t(3) by auto
  then have "t \<noteq> d" using d(2) by auto
  then have "page_eq (pmem s) t (pmem s1) t" using g tp t(3) by (auto simp: grows_def)
  then have old: "tab_entry (pmem s1) t j = tab_entry (pmem s) t j" if "0 \<le> j" "j < 1024" for j
    using page_eq_entry that by metis
  have "copied s s' t j (tab_entry (pmem s) ?p j) (g j)" if j: "0 \<le> j" "j < 1024" for j
  proof (rule copied_back [OF _ g tp j])
    show "copied s1 s' t j (tab_entry (pmem s) ?p j) (g j)" using c True j p by (auto simp: copied_table_def)
    show "table_page (page_no (tab_entry (pmem s) ?p j)) \<and> used s (page_no (tab_entry (pmem s) ?p j)) \<and> page_no (tab_entry (pmem s) ?p j) \<notin> {d}"
      if "present (tab_entry (pmem s) ?p j)"
      using ok [OF True] that j by (auto simp: table_ok_def)
  qed (use old j in simp)
  moreover have "to_copy_entries (pmem s1) ?p 0 = to_copy_entries (pmem s) ?p 0"
    using p by (auto simp: to_copy_entries_def)
  ultimately show ?thesis using c True nu by (auto simp: copied_table_def)
next
  case False
  then show ?thesis using c kept by (simp add: copied_table_def)
qed

lemma frame_cell: "frame q = word_of_int (cell q 0)"
  by (simp add: frame_def cell_def)

text \<open>One present entry of the directory.\<close>

lemma copy_pde_step:
  assumes ok: "phys_ok s" and d: "table_page d" "used s d" and q: "dir_ok s d q i" and i: "0 \<le> i" "i < 1024"
    and e: "present (tab_entry (pmem s) q i)"
  obtains s' where "copy_pdes (Suc n) (word_of_int (cell q i)) (word_of_int (cell d i)) s = Some (s', - 1)"
    "exhausted s'" "grows {d} s s'" "\<And>k. 0 \<le> k \<Longrightarrow> k < 1024 \<Longrightarrow> k \<noteq> i \<Longrightarrow> tab_entry (pmem s') d k = tab_entry (pmem s) d k"
    "taken 1025 s s'"
  | s' t g where "copy_pdes (Suc n) (word_of_int (cell q i)) (word_of_int (cell d i)) s
      = copy_pdes n (word_of_int (cell q (i + 1))) (word_of_int (cell d (i + 1))) s'"
    "grows {d} s s'" "copied_table s s' d i (tab_entry (pmem s) q i) t g"
    "\<And>k. 0 \<le> k \<Longrightarrow> k < 1024 \<Longrightarrow> k \<noteq> i \<Longrightarrow> tab_entry (pmem s') d k = tab_entry (pmem s) d k" "taken 1025 s s'"
  using ok
proof (cases rule: grows_alloc)
  case 1
  then show ?thesis using e grows_refl [OF ok] taken_same [of s s] by (intro that(1) [of s]) (simp_all add: tab_entry_def)
next
  case (2 s1 t)
  let ?e = "tab_entry (pmem s) q i"
  let ?p = "page_no ?e"
  define s2 where "s2 = upd_mem (\<lambda>m. store32 m (word_of_int (cell d i)) (frame t OR PAGE_SHARED)) s1"
  have qp: "table_page q" "used s q" "q \<noteq> d" and pok: "table_ok s d ?p" using q i e by (auto simp: dir_ok_def)
  have tt: "table_page t" using 2(3,4) by (simp add: table_page_def)
  have neq: "t \<noteq> d" "t \<noteq> q" using 2(5) d(2) qp(2) by auto
  have g1: "grows {d} s s1" by (rule 2(7))
  note st = grows_store [OF growsD(1) [OF g1] d(1) i, where v = "frame t OR PAGE_SHARED", folded s2_def]
  have g2: "grows {d} s s2" by (rule grows_trans [OF g1 st(1)]) simp
  have ut: "used s2 t" using 2(6) growsD(2) [OF st(1) table_is_page [OF tt]] by simp
  have p2: "tab_entry (pmem s2) ?p k = tab_entry (pmem s) ?p k" if "0 \<le> k" "k < 1024" for k
    using pok that by (intro entry_kept [OF g2]) (auto simp: table_ok_def)
  have tok: "table_ok s2 t ?p"
    using pok 2(5) p2 growsD(2) [OF g2] table_is_page by (auto simp: table_ok_def)
  have told: "tab_entry (pmem s2) t k = tab_entry (pmem s) t k" if "0 \<le> k" "k < 1024" for k
    using st(3) [OF tt that] neq(1) page_eq_entry [OF 2(8) [OF tt] that] by simp
  have e2: "tab_entry (pmem s2) q i = ?e"
    using qp i by (intro entry_kept [OF g2]) auto
  obtain s3 r g where tab: "copy_ptes 1024 (frame ?p) (frame t) s2 = Some (s3, r)" "grows {t} s2 s3"
    "r = - 1 \<and> exhausted s3 \<or> r = 0 \<and> inj_on g (to_copy_entries (pmem s2) ?p 0)
       \<and> (\<forall>k. 0 \<le> k \<and> k < 1024 \<longrightarrow> copied s2 s3 t k (tab_entry (pmem s2) ?p k) (g k))" "taken 1024 s2 s3"
    using copy_ptes_spec [OF growsD(1) [OF g2] tt ut tok, of 0 1024] by (auto simp: frame_cell)
  have u3: "used s3 t" using growsD(2) [OF tab(2) table_is_page [OF tt] ut] .
  have g3: "grows {d} s s3" by (rule grows_trans [OF g2 tab(2)]) (use 2(5) u3 in auto)
  have ud: "used s2 d" using growsD(2) [OF g2 table_is_page [OF d(1)] d(2)] .
  have d3: "tab_entry (pmem s3) d k = tab_entry (pmem s2) d k" if "0 \<le> k" "k < 1024" for k
    using that neq(1) ud d(1) by (intro entry_kept [OF tab(2)]) auto
  have others: "tab_entry (pmem s3) d k = tab_entry (pmem s) d k" if "0 \<le> k" "k < 1024" "k \<noteq> i" for k
    using d3 [OF that(1,2)] st(3) [OF d(1) that(1,2)] page_eq_entry [OF 2(8) [OF d(1)] that(1,2)] that(3) by simp
  have pages: "taken 1025 s s3" using taken_trans [OF taken_trans [OF 2(9) st(4)] tab(4)] by simp
  have run: "copy_pdes (Suc n) (word_of_int (cell q i)) (word_of_int (cell d i)) s
      = (if r < 0 then Some (s3, r) else copy_pdes n (word_of_int (cell q (i + 1))) (word_of_int (cell d (i + 1))) s3)"
    using e 2(1,2) tab(1) e2
    by (simp add: tab_entry_def [symmetric] s2_def [symmetric] word_cell_next align_down_page_no)
  show ?thesis
  proof (cases "r = 0")
    case False
    then show ?thesis using run tab(3) g3 others pages by (intro that(1) [of s3]) auto
  next
    case True
    have "copied s s3 t j (tab_entry (pmem s) ?p j) (g j)" if j: "0 \<le> j" "j < 1024" for j
    proof (rule copied_back [OF _ g2 tt j])
      show "copied s2 s3 t j (tab_entry (pmem s) ?p j) (g j)" using tab(3) True j p2 by auto
    qed (use pok j told in \<open>auto simp: table_ok_def\<close>)
    moreover have "to_copy_entries (pmem s2) ?p 0 = to_copy_entries (pmem s) ?p 0"
      using p2 by (auto simp: to_copy_entries_def)
    moreover have "tab_entry (pmem s3) d i = frame t OR PAGE_SHARED" using d3 [OF i] st(2) by simp
    ultimately have "copied_table s s3 d i ?e t g" using e tab(3) True 2(3,4,5) u3 by (auto simp: copied_table_def)
    then show ?thesis using run True g3 others pages by (intro that(2) [of s3 t g]) auto
  qed
qed

text \<open>The entries of two tables that are copied.\<close>

definition dir_entries :: "mem \<Rightarrow> int \<Rightarrow> int \<Rightarrow> (int \<times> int) set" where
  "dir_entries m q i = {(k, j). k \<in> to_copy_entries m q i \<and> j \<in> to_copy_entries m (page_no (tab_entry m q k)) 0}"

lemma copied_frame:
  assumes "copied_table s s' d k e t g" "present e" "j \<in> to_copy_entries (pmem s) (page_no e) 0"
  shows "0x601 \<le> g j" "g j < 2 ^ 20" "\<not> used s (g j)" "used s' (g j)"
  using assms by (auto simp: copied_table_def to_copy_entries_def copied_def)

text \<open>The first present entry of a directory and the rest.\<close>

lemma copied_table_first:
  assumes g: "grows {d} s s1" "grows {d} s1 s'" and d: "table_page d" "used s d" and q: "dir_ok s d q i"
    and i: "0 \<le> i" "i < 1024" "present (tab_entry (pmem s) q i)" and first: "copied_table s s1 d i (tab_entry (pmem s) q i) t g1"
    and others: "\<And>k. 0 \<le> k \<Longrightarrow> k < 1024 \<Longrightarrow> k \<noteq> i \<Longrightarrow> tab_entry (pmem s1) d k = tab_entry (pmem s) d k"
    and kept: "tab_entry (pmem s') d i = tab_entry (pmem s1) d i"
    and inj: "inj_on (\<lambda>(k, j). h k j) (dir_entries (pmem s1) q (i + 1))"
    and rest: "\<forall>k. i + 1 \<le> k \<and> k < 1024 \<longrightarrow> copied_table s1 s' d k (tab_entry (pmem s1) q k) (ts k) (h k)"
  shows "inj_on (\<lambda>(k, j). (h(i := g1)) k j) (dir_entries (pmem s) q i)"
    and "i \<le> k \<Longrightarrow> k < 1024 \<Longrightarrow> copied_table s s' d k (tab_entry (pmem s) q k) ((ts(i := t)) k) ((h(i := g1)) k)"
proof -
  have e1: "tab_entry (pmem s1) q k = tab_entry (pmem s) q k" if "i \<le> k" "k < 1024" for k
    using dir_ok_kept(2) [OF q g(1) order_refl i(1) that] .
  have tok: "table_ok s d (page_no (tab_entry (pmem s) q k))" if "i \<le> k" "k < 1024" "present (tab_entry (pmem s) q k)" for k
    using q that by (simp add: dir_ok_def)
  have sub: "to_copy_entries (pmem s1) (page_no (tab_entry (pmem s) q k)) 0 = to_copy_entries (pmem s) (page_no (tab_entry (pmem s) q k)) 0"
    if k: "i \<le> k" "k < 1024" "present (tab_entry (pmem s) q k)" for k
  proof -
    have "tab_entry (pmem s1) (page_no (tab_entry (pmem s) q k)) j = tab_entry (pmem s) (page_no (tab_entry (pmem s) q k)) j" if "0 \<le> j" "j < 1024" for j
      using tok [OF k] that by (intro entry_kept [OF g(1)]) (auto simp: table_ok_def)
    then show ?thesis by (auto simp: to_copy_entries_def)
  qed
  let ?J = "to_copy_entries (pmem s) (page_no (tab_entry (pmem s) q i)) 0"
  have split: "dir_entries (pmem s) q i = Pair i ` ?J \<union> dir_entries (pmem s1) q (i + 1)"
    (is "?L = ?R")
  proof (intro set_eqI)
    fix x :: "int \<times> int"
    obtain k j where x: "x = (k, j)" by (cases x)
    show "x \<in> ?L \<longleftrightarrow> x \<in> ?R"
    proof (cases "i + 1 \<le> k \<and> k < 1024")
      case True
      then show ?thesis using e1 [of k] sub [of k] by (auto simp: x dir_entries_def to_copy_entries_def)
    next
      case False
      then show ?thesis using i by (cases "k = i") (auto simp: x dir_entries_def to_copy_entries_def)
    qed
  qed
  have hfresh: "\<not> used s1 (h k j)" if "(k, j) \<in> dir_entries (pmem s1) q (i + 1)" for k j
    using copied_frame(3) [OF rest [rule_format, of k], of j] that by (auto simp: dir_entries_def to_copy_entries_def)
  have gused: "used s1 (g1 j)" if "j \<in> ?J" for j using copied_frame(4) [OF first i(3) that] .
  let ?F = "\<lambda>(k, j). (h(i := g1)) k j"
  have noti: "k \<noteq> i" if "(k, j) \<in> dir_entries (pmem s1) q (i + 1)" for k j
    using that by (auto simp: dir_entries_def to_copy_entries_def)
  have "inj_on g1 ?J" using first i(3) by (simp add: copied_table_def)
  then have "inj_on ?F (Pair i ` ?J)" by (auto simp: inj_on_def)
  moreover have "inj_on ?F (dir_entries (pmem s1) q (i + 1))"
    using inj by (rule inj_on_cong [THEN iffD1, rotated]) (use noti in auto)
  moreover have "?F ` (Pair i ` ?J) \<inter> ?F ` dir_entries (pmem s1) q (i + 1) = {}"
  proof -
    have "used s1 x" if "x \<in> ?F ` (Pair i ` ?J)" for x using that gused by auto
    moreover have "\<not> used s1 x" if "x \<in> ?F ` dir_entries (pmem s1) q (i + 1)" for x using that hfresh noti by force
    ultimately show ?thesis by blast
  qed
  ultimately show "inj_on ?F (dir_entries (pmem s) q i)"
    unfolding split inj_on_Un by blast
  show "copied_table s s' d k (tab_entry (pmem s) q k) ((ts(i := t)) k) ((h(i := g1)) k)" if k: "i \<le> k" "k < 1024"
  proof (cases "k = i")
    case True
    let ?p = "page_no (tab_entry (pmem s) q i)"
    have t: "0x601 \<le> t" "t < 2 ^ 20" "\<not> used s t" "used s1 t" using first i(3) by (auto simp: copied_table_def)
    then have tp: "table_page t" "t \<noteq> d" using d(2) by (auto simp: table_page_def)
    have "copied s s' t j (tab_entry (pmem s) ?p j) (g1 j)" if j: "0 \<le> j" "j < 1024" for j
    proof (rule copied_forward [OF _ g(2) d(2) tp(1) t(4) tp(2) j])
      show "copied s s1 t j (tab_entry (pmem s) ?p j) (g1 j)" using first i(3) j by (simp add: copied_table_def)
    qed
    moreover have "used s' t" using growsD(2) [OF g(2) table_is_page [OF tp(1)] t(4)] .
    ultimately show ?thesis using True first i(3) kept by (auto simp: copied_table_def)
  next
    case False
    then have "i + 1 \<le> k" using k(1) by simp
    then have "copied_table s1 s' d k (tab_entry (pmem s) q k) (ts k) (h k)"
      using rest [rule_format, of k] k(2) e1 [OF k] by simp
    then have "copied_table s s' d k (tab_entry (pmem s) q k) (ts k) (h k)"
      using k False i(1) others tok [OF k] by (intro copied_table_back [OF _ g(1) d]) auto
    then show ?thesis using False by simp
  qed
qed

lemma copy_pdes_spec:
  assumes "phys_ok s" "table_page d" "used s d" "dir_ok s d q i" "0 \<le> i" "i + int n = 1024"
  shows "\<exists>s' r t g. copy_pdes n (word_of_int (cell q i)) (word_of_int (cell d i)) s = Some (s', r) \<and> grows {d} s s' \<and> taken (n * 1025) s s'
    \<and> (\<forall>k. 0 \<le> k \<and> k < i \<longrightarrow> tab_entry (pmem s') d k = tab_entry (pmem s) d k)
    \<and> (r = - 1 \<and> exhausted s' \<or> r = 0 \<and> inj_on (\<lambda>(k, j). g k j) (dir_entries (pmem s) q i)
        \<and> (\<forall>k. i \<le> k \<and> k < 1024 \<longrightarrow> copied_table s s' d k (tab_entry (pmem s) q k) (t k) (g k)))"
  using assms
proof (induction n arbitrary: i s)
  case 0
  then have "dir_entries (pmem s) q i = {}" by (auto simp: dir_entries_def to_copy_entries_def)
  moreover have "\<not> (i \<le> k \<and> k < 1024)" for k using 0(6) by simp
  ultimately show ?case using 0 grows_refl [OF 0(1)] taken_same [of s s]
    by (intro exI [of _ s] exI [of _ "0 :: int"] exI [of _ "\<lambda>_. 0"] exI [of _ "\<lambda>_ _. 0"]) auto
next
  case (Suc n)
  have i: "0 \<le> i" "i < 1024" "0 \<le> i + 1" "i + 1 + int n = 1024" using Suc.prems by auto
  show ?case
  proof (cases "present (tab_entry (pmem s) q i)")
    case False
    have next_ok: "dir_ok s d q (i + 1)" using Suc.prems(4) by (simp add: dir_ok_def)
    obtain s' r t g where IH: "copy_pdes n (word_of_int (cell q (i + 1))) (word_of_int (cell d (i + 1))) s = Some (s', r)"
      "grows {d} s s'" "\<forall>k. 0 \<le> k \<and> k < i + 1 \<longrightarrow> tab_entry (pmem s') d k = tab_entry (pmem s) d k"
      "r = - 1 \<and> exhausted s' \<or> r = 0 \<and> inj_on (\<lambda>(k, j). g k j) (dir_entries (pmem s) q (i + 1))
        \<and> (\<forall>k. i + 1 \<le> k \<and> k < 1024 \<longrightarrow> copied_table s s' d k (tab_entry (pmem s) q k) (t k) (g k))" "taken (n * 1025) s s'"
      using Suc.IH [OF Suc.prems(1-3) next_ok i(3,4)] by auto
    have set: "dir_entries (pmem s) q i = dir_entries (pmem s) q (i + 1)"
      using False by (auto simp: dir_entries_def to_copy_entries_def order_le_less)
    have "copied_table s s' d i (tab_entry (pmem s) q i) (t i) (g i)" using IH(3) False i by (simp add: copied_table_def)
    then have all: "copied_table s s' d k (tab_entry (pmem s) q k) (t k) (g k)"
      if "\<forall>k. i + 1 \<le> k \<and> k < 1024 \<longrightarrow> copied_table s s' d k (tab_entry (pmem s) q k) (t k) (g k)" "i \<le> k" "k < 1024" for k
      using that by (cases "k = i") auto
    have "copy_pdes (Suc n) (word_of_int (cell q i)) (word_of_int (cell d i)) s = Some (s', r)"
      using False IH(1) by (simp add: tab_entry_def word_cell_next)
    then show ?thesis using IH(2-4) all taken_mono [OF IH(5), of "Suc n * 1025"] unfolding set
      by (intro exI [of _ s'] exI [of _ r] exI [of _ t] exI [of _ g]) auto
  next
    case True
    from Suc.prems(1-4) i(1,2) True show ?thesis
    proof (cases rule: copy_pde_step [where n = n])
      case (1 s')
      show ?thesis
      proof (intro exI conjI allI impI)
        show "tab_entry (pmem s') d k = tab_entry (pmem s) d k" if "0 \<le> k \<and> k < i" for k using 1(4) [of k] that i by simp
        show "taken (Suc n * 1025) s s'" by (rule taken_mono [OF 1(5)]) simp
      qed (use 1 in auto)
    next
      case (2 s3 t1 g1)
      note g = 2(2)
      have ok3: "phys_ok s3" "used s3 d" "dir_ok s3 d q (i + 1)"
        using growsD(1,2) [OF g] Suc.prems(2,3) table_is_page dir_ok_kept(1) [OF Suc.prems(4) g] i by auto
      obtain s' r t h where IH: "copy_pdes n (word_of_int (cell q (i + 1))) (word_of_int (cell d (i + 1))) s3 = Some (s', r)"
        "grows {d} s3 s'" "\<forall>k. 0 \<le> k \<and> k < i + 1 \<longrightarrow> tab_entry (pmem s') d k = tab_entry (pmem s3) d k"
        "r = - 1 \<and> exhausted s' \<or> r = 0 \<and> inj_on (\<lambda>(k, j). h k j) (dir_entries (pmem s3) q (i + 1))
          \<and> (\<forall>k. i + 1 \<le> k \<and> k < 1024 \<longrightarrow> copied_table s3 s' d k (tab_entry (pmem s3) q k) (t k) (h k))" "taken (n * 1025) s3 s'"
        using Suc.IH [OF ok3(1) Suc.prems(2) ok3(2,3) i(3,4)] by auto
      have gs: "grows {d} s s'" by (rule grows_trans [OF g IH(2)]) simp
      have low: "tab_entry (pmem s') d k = tab_entry (pmem s) d k" if "0 \<le> k" "k < i" for k
        using IH(3) 2(4) [of k] that i by auto
      have kept: "tab_entry (pmem s') d i = tab_entry (pmem s3) d i" using IH(3) i by auto
      note first = copied_table_first [OF g IH(2) Suc.prems(2-4) i(1,2) True 2(3) 2(4) kept]
      have run: "copy_pdes (Suc n) (word_of_int (cell q i)) (word_of_int (cell d i)) s = Some (s', r)"
        using 2(1) IH(1) by (simp only:)
      show ?thesis
      proof (intro exI conjI allI impI)
        show "r = - 1 \<and> exhausted s' \<or> r = 0 \<and> inj_on (\<lambda>(k, j). (h(i := g1)) k j) (dir_entries (pmem s) q i)
          \<and> (\<forall>k. i \<le> k \<and> k < 1024 \<longrightarrow> copied_table s s' d k (tab_entry (pmem s) q k) ((t(i := t1)) k) ((h(i := g1)) k))"
          using IH(4) first by (auto simp del: fun_upd_apply)
        show "taken (Suc n * 1025) s s'" using taken_trans [OF 2(5) IH(5)] by (simp add: add.commute)
      qed (use run gs low in auto)
    qed
  qed
qed

section \<open>The address space of the child\<close>

text \<open>A user address that the tables of directory \<open>q\<close> map.\<close>

definition user_mapped :: "mem \<Rightarrow> int \<Rightarrow> uint \<Rightarrow> bool" where
  "user_mapped m q v \<longleftrightarrow> 0x40000000 \<le> uint v \<and> present (tab_entry m q (uint (pde_index v)))
     \<and> present (tab_entry m (page_no (tab_entry m q (uint (pde_index v)))) (uint (pte_index v)))"

lemma present_nonzero: "present e \<Longrightarrow> e \<noteq> 0"
  by (auto simp: present_def)

lemma trans_entries:
  assumes "present (tab_entry m q (uint (pde_index v)))"
    and "page_no (tab_entry m (page_no (tab_entry m q (uint (pde_index v)))) (uint (pte_index v))) = f"
  shows "trans_vtop m (frame q) v = word_of_int (f * 4096 + uint v mod 4096)"
proof -
  let ?e = "tab_entry m q (uint (pde_index v))"
  have cells: "frame p + 4 * i = word_of_int (cell p (uint i))" for p and i :: addr
    using cell_addr [of p "uint i"] by simp
  have low: "v AND (4096 - 1) = word_of_int (uint v mod 4096)"
    using uint_low [of v] by (simp flip: uint_low)
  have "trans_vtop m (frame q) v = frame f + (v AND (4096 - 1))"
    using present_nonzero [OF assms(1)] assms(2)
    by (simp add: trans_vtop_def Let_def cells align_down_page_no flip: tab_entry_def)
  then show ?thesis unfolding low by (simp add: frame_def PAGE_SIZE_def)
qed

lemma page_small: "0 \<le> x \<Longrightarrow> x < 2 ^ 32 \<Longrightarrow> x div 4096 < (2 ^ 20 :: int)"
  by simp

lemma page_no_frame:
  assumes "0 \<le> f" "f < 2 ^ 20"
  shows "page_no (frame f OR PAGE_SHARED) = f"
proof -
  let ?e = "frame f OR PAGE_SHARED"
  have u: "uint (frame x) = x * 4096" if "0 \<le> x" "x < 2 ^ 20" for x
    using uint_of_addr [of "x * 4096"] that by (simp add: frame_def PAGE_SIZE_def)
  have "0 \<le> page_no ?e" "page_no ?e < 2 ^ 20"
    using uint_addr_bounds [of ?e] page_small [of "uint ?e"] by (simp_all only: page_no_def)
  moreover have "frame (page_no ?e) = frame f"
    using align_down_page_no [of ?e] align_down_frame [OF shared_low, of f] by simp
  ultimately show ?thesis using u [of "page_no ?e"] u [of f] assms by simp
qed

lemma user_index: "0x40000000 \<le> uint v \<longleftrightarrow> 256 \<le> uint (pde_index (v :: addr))"
  unfolding uint_pde_index by auto

text \<open>\<open>distory_memory\<close> returns whatever the tables hold.\<close>

lemma distory_ptes_returns: "page_idle s \<Longrightarrow> \<exists>s'. distory_ptes n pte s = Some s'"
  by (induction n arbitrary: pte s) (simp_all add: Let_def free_pages_eq)

lemma distory_memory_returns:
  assumes "page_idle s"
  shows "\<exists>s'. distory_memory pde s = Some s'"
proof -
  have "\<exists>s'. distory_pdes n p i s = Some s'" for n p i
  proof (induction n arbitrary: i)
    case (Suc n)
    then show ?case
      using distory_ptes_returns [OF assms, of "Suc n"] by (auto simp: Let_def simp del: distory_ptes.simps)
  qed simp
  then show ?thesis by (simp add: distory_memory_def)
qed

definition free_page_count :: "'a phys_scheme \<Rightarrow> nat" where
  "free_page_count s = card {q. 0 \<le> q \<and> q < nbits (bitmap s) \<and> \<not> used s q}"

lemma taken_exhausted:
  assumes "taken n s s'" "exhausted s'" "bitmap s' = bitmap s" "map_ok (bitmap s)"
  shows "free_page_count s \<le> n"
proof -
  obtain F where F: "finite F" "card F \<le> n" "\<forall>q. is_page q \<and> used s' q \<longrightarrow> used s q \<or> q \<in> F"
    using assms(1) by (auto simp: taken_def)
  have "{q. 0 \<le> q \<and> q < nbits (bitmap s) \<and> \<not> used s q} \<subseteq> F"
    using F(3) assms(2-4) by (auto simp: exhausted_def map_ok_def is_page_def)
  then have "free_page_count s \<le> card F" unfolding free_page_count_def by (rule card_mono [OF F(1)])
  then show ?thesis using F(2) by simp
qed

text \<open>What the copied tables mean for an address.\<close>

definition same_view :: "'a phys_scheme \<Rightarrow> 'a phys_scheme \<Rightarrow> int \<Rightarrow> int \<Rightarrow> addr \<Rightarrow> bool" where
  "same_view s s' q d v \<longleftrightarrow>
     (let a = trans_vtop (pmem s) (frame q) v; b = trans_vtop (pmem s') (frame d) v
      in pmem s' b = pmem s a \<and> \<not> used s (page_no b) \<and> used s' (page_no b)
        \<and> trans_vtop (pmem s') (frame q) v = a \<and> pmem s' a = pmem s a)"

lemma page_address:
  assumes "0 \<le> f" "f < 2 ^ 20" "0 \<le> off" "off < 4096"
  shows "uint (word_of_int (f * 4096 + off) :: addr) = f * 4096 + off" "page_no (word_of_int (f * 4096 + off)) = f"
proof -
  show u: "uint (word_of_int (f * 4096 + off) :: addr) = f * 4096 + off" using assms by (intro uint_of_addr) auto
  show "page_no (word_of_int (f * 4096 + off)) = f" using assms unfolding page_no_def u by simp
qed

lemma present_shared: "present (frame f OR PAGE_SHARED)"
proof -
  have "bit ((frame f OR PAGE_SHARED) AND PAGE_PRESENT) 0"
    by (simp add: PAGE_SHARED_def PAGE_PRESENT_def bit_simps)
  then show ?thesis unfolding present_def by (metis bit_0_eq bot_apply bot_bool_def)
qed

lemma copied_view:
  assumes q: "dir_ok s d q 256" and g: "grows {d} s s'" and v: "user_mapped (pmem s) q v"
    and k: "k = uint (pde_index v)" and j: "j = uint (pte_index v)"
    and tab: "copied_table s s' d k (tab_entry (pmem s) q k) t h"
  shows "(k, j) \<in> dir_entries (pmem s) q 256" "0x601 \<le> h j" "h j < 2 ^ 20"
    "trans_vtop (pmem s') (frame d) v = word_of_int (h j * 4096 + uint v mod 4096)" "same_view s s' q d v"
proof -
  let ?p = "page_no (tab_entry (pmem s) q k)"
  let ?f = "page_no (tab_entry (pmem s) ?p j)"
  let ?off = "uint v mod 4096"
  have off: "0 \<le> ?off" "?off < 4096" by simp_all
  have ix: "256 \<le> k" "k < 1024" "0 \<le> j" "j < 1024" and pr: "present (tab_entry (pmem s) q k)" "present (tab_entry (pmem s) ?p j)"
    using v index_bounds [of v] by (simp_all add: user_mapped_def user_index k j)
  then show "(k, j) \<in> dir_entries (pmem s) q 256" by (simp add: dir_entries_def to_copy_entries_def)
  have ok: "table_ok s d ?p" using q ix pr by (simp add: dir_ok_def)
  then have f: "table_page ?f" "used s ?f" "?f \<noteq> d" using ix pr by (auto simp: table_ok_def)
  have t: "0x601 \<le> t" "t < 2 ^ 20" "tab_entry (pmem s') d k = frame t OR PAGE_SHARED"
    and c: "copied s s' t j (tab_entry (pmem s) ?p j) (h j)" using tab pr ix by (auto simp: copied_table_def)
  then have hj: "0x601 \<le> h j" "h j < 2 ^ 20" "\<not> used s (h j)" "used s' (h j)"
    "tab_entry (pmem s') t j = frame (h j) OR PAGE_SHARED" "page_eq (pmem s') (h j) (pmem s) ?f"
    using pr by (auto simp: copied_def)
  show "0x601 \<le> h j" "h j < 2 ^ 20" by fact+
  have tr': "trans_vtop (pmem s') (frame d) v = word_of_int (h j * 4096 + ?off)"
    using t hj page_no_frame [of t] page_no_frame [of "h j"]
    by (intro trans_entries) (simp_all add: present_shared flip: k j)
  then show "trans_vtop (pmem s') (frame d) v = word_of_int (h j * 4096 + uint v mod 4096)" .
  have tr: "trans_vtop (pmem s) (frame q) v = word_of_int (?f * 4096 + ?off)"
    using pr by (intro trans_entries) (simp_all flip: k j)
  have eq: "tab_entry (pmem s') q k = tab_entry (pmem s) q k" using dir_ok_kept(2) [OF q g order_refl _ ix(1,2)] by simp
  have ep: "tab_entry (pmem s') ?p j = tab_entry (pmem s) ?p j"
    using ok ix by (intro entry_kept [OF g]) (auto simp: table_ok_def)
  have "trans_vtop (pmem s') (frame q) v = word_of_int (?f * 4096 + ?off)"
    using pr eq ep by (intro trans_entries) (simp_all flip: k j)
  moreover have "page_eq (pmem s) ?f (pmem s') ?f" using growsD(5) [OF g f(1,2)] f(3) by simp
  ultimately show "same_view s s' q d v"
    using hj page_address(2) [of "h j" ?off] off
    by (simp add: same_view_def Let_def tr tr' page_eq_def)
qed

lemma address_parts: "uint (v :: addr) = uint (pde_index v) * 2 ^ 22 + uint (pte_index v) * 4096 + uint v mod 4096"
proof -
  define p where "p = uint v div 4096"
  have "uint v div 2 ^ 22 = p div 1024" using zdiv_zmult2_eq [of 1024 "uint v" 4096] by (simp add: p_def)
  then have "uint (pde_index v) * 2 ^ 22 + uint (pte_index v) * 4096 + uint v mod 4096
      = (p div 1024 * 1024 + p mod 1024) * 4096 + uint v mod 4096"
    unfolding uint_pde_index uint_pte_index p_def [symmetric] by (simp only: algebra_simps) simp
  also have "\<dots> = uint v" by (simp add: p_def)
  finally show ?thesis by simp
qed

text \<open>The copy as a whole.\<close>

lemma copy_memory_spec:
  assumes ok: "phys_ok s" and parent: "current s = Some p" "t_cr3 (tasks s p) = frame q" "dir_ok s d q 256"
    and child: "table_page d" "used s d"
  shows "\<exists>s' r. copy_memory (frame d) s = Some (s', r) \<and>
    (r = - 1 \<and> free_page_count s \<le> 787200 \<or> r = 0 \<and> grows {d} s s'
      \<and> (\<forall>v. user_mapped (pmem s) q v \<longrightarrow> same_view s s' q d v)
      \<and> inj_on (trans_vtop (pmem s') (frame d)) {v. user_mapped (pmem s) q v}
      \<and> (\<forall>k j. k \<in> to_copy_entries (pmem s) q 256 \<and> 0 \<le> j \<and> j < 1024
          \<and> \<not> present (tab_entry (pmem s) (page_no (tab_entry (pmem s) q k)) j) \<longrightarrow>
          (\<exists>t. \<not> used s t \<and> tab_entry (pmem s') d k = frame t OR PAGE_SHARED \<and> tab_entry (pmem s') t j = tab_entry (pmem s) t j)))"
proof -
  obtain s1 r t g where c: "copy_pdes 768 (word_of_int (cell q 256)) (word_of_int (cell d 256)) s = Some (s1, r)"
    "grows {d} s s1" "taken 787200 s s1"
    "r = - 1 \<and> exhausted s1 \<or> r = 0 \<and> inj_on (\<lambda>(k, j). g k j) (dir_entries (pmem s) q 256)
      \<and> (\<forall>k. 256 \<le> k \<and> k < 1024 \<longrightarrow> copied_table s s1 d k (tab_entry (pmem s) q k) (t k) (g k))"
    using copy_pdes_spec [OF ok child parent(3), of 768] by auto
  have start: "frame x + 4 * 256 = word_of_int (cell x 256)" for x using cell_addr [of x 256] by simp
  have count: "1024 - unat (256 :: uint) = 768" by simp
  have run: "copy_memory (frame d) s = (if r < 0 then do { s \<leftarrow> distory_memory (frame d) s1; Some (s, - 1) } else Some (s1, 0))"
    unfolding copy_memory_def Let_def user_start count by (simp add: parent(1,2) start [simplified] c(1))
  show ?thesis
  proof (cases "r = 0")
    case False
    have "page_idle s1" using growsD(1) [OF c(2)] by (simp add: phys_ok_def)
    then obtain s' where "distory_memory (frame d) s1 = Some s'" using distory_memory_returns by blast
    moreover have "free_page_count s \<le> 787200"
      using taken_exhausted [OF c(3)] c(4) False grows_bitmap [OF c(2)] ok by (simp add: phys_ok_def)
    ultimately show ?thesis using run c(4) False by auto
  next
    case True
    have inj: "inj_on (\<lambda>(k, j). g k j) (dir_entries (pmem s) q 256)" using c(4) True by simp
    have tab: "copied_table s s1 d k (tab_entry (pmem s) q k) (t k) (g k)" if "256 \<le> k" "k < 1024" for k
      using c(4) True that by simp
    have view: "(k, j) \<in> dir_entries (pmem s) q 256" "0x601 \<le> g k j" "g k j < 2 ^ 20"
      "trans_vtop (pmem s1) (frame d) v = word_of_int (g k j * 4096 + uint v mod 4096)" "same_view s s1 q d v"
      if "user_mapped (pmem s) q v" "k = uint (pde_index v)" "j = uint (pte_index v)" for v k j
    proof -
      have "256 \<le> k" "k < 1024" using that index_bounds [of v] by (simp_all add: user_mapped_def user_index)
      then show "(k, j) \<in> dir_entries (pmem s) q 256" "0x601 \<le> g k j" "g k j < 2 ^ 20"
        "trans_vtop (pmem s1) (frame d) v = word_of_int (g k j * 4096 + uint v mod 4096)" "same_view s s1 q d v"
        using copied_view [OF parent(3) c(2) that tab] by auto
    qed
    have "inj_on (trans_vtop (pmem s1) (frame d)) {v. user_mapped (pmem s) q v}"
    proof (rule inj_onI, clarify)
      fix v w
      assume v: "user_mapped (pmem s) q v" and w: "user_mapped (pmem s) q w"
        and eq: "trans_vtop (pmem s1) (frame d) v = trans_vtop (pmem s1) (frame d) w"
      let ?g = "\<lambda>v. g (uint (pde_index v)) (uint (pte_index v))"
      note view = view [OF v refl refl] view [OF w refl refl]
      have "uint (word_of_int (?g v * 4096 + uint v mod 4096) :: addr) = uint (word_of_int (?g w * 4096 + uint w mod 4096) :: addr)"
        using eq view(4,9) by simp
      then have "?g v * 4096 + uint v mod 4096 = ?g w * 4096 + uint w mod 4096"
        using page_address(1) [of "?g v" "uint v mod 4096"] page_address(1) [of "?g w" "uint w mod 4096"] view by simp
      then have "?g v = ?g w" and low: "uint v mod 4096 = uint w mod 4096"
        using page_of [of "uint v mod 4096" "?g v"] page_of [of "uint w mod 4096" "?g w"] by auto
      then have "(uint (pde_index v), uint (pte_index v)) = (uint (pde_index w), uint (pte_index w))"
        using inj_onD [OF inj _ view(1,6)] by simp
      then have "uint v = uint w" using low address_parts [of v] address_parts [of w] by simp
      then show "v = w" by (simp add: word_uint_eq_iff)
    qed
    moreover have "\<exists>t. \<not> used s t \<and> tab_entry (pmem s1) d k = frame t OR PAGE_SHARED \<and> tab_entry (pmem s1) t j = tab_entry (pmem s) t j"
      if "k \<in> to_copy_entries (pmem s) q 256" "0 \<le> j" "j < 1024" "\<not> present (tab_entry (pmem s) (page_no (tab_entry (pmem s) q k)) j)" for k j
      using tab [of k] that by (intro exI [of _ "t k"]) (auto simp: to_copy_entries_def copied_table_def copied_def)
    ultimately show ?thesis using run True view(5) c(2) by auto
  qed
qed


text \<open>A parent with one mapped page: directory \<open>0x200\<close>, table \<open>0x300\<close>, frame \<open>0x400\<close>.\<close>

definition demo_parent :: phys where
  "demo_parent = demo_phys\<lparr>current := Some 1, tasks := (\<lambda>_. boot_task\<lparr>t_cr3 := frame 0x200\<rparr>),
     bitmap := demo_pages\<lparr>nbits := 2 ^ 20\<rparr>, pmem := store32 demo_mem (word_of_int (cell 0x300 1)) 0x400067\<rparr>"

lemma demo_mem_entry:
  assumes "table_page q" "0 \<le> k" "k < 1024"
  shows "tab_entry demo_mem q k = (if (q, k) = (0x200, 256) then 0x300227 else 0)"
proof -
  let ?m = "bitmap_set_bits demo_pages 0x600 1 1 1 (bitmap_set_bytes demo_pages 0 0xC0 1 (\<lambda>_. 0))"
  have base: "base demo_pages = BITMAP_START" "placed demo_pages" by code_simp+
  have "pages_ok 0x600 1" by (simp add: pages_ok_def)
  then have "?m x = 0" if "\<not> in_map demo_pages x" for x
    using set_bits_up(2) [OF _ that, of "0x600" 1] kmemset_outside [OF base(2) _ _ _ that, of 0 "0xC0"]
    by (simp add: bitmap_set_bytes_def)
  then have "load32 ?m (word_of_int (cell q k)) = load32 (\<lambda>_. 0) (word_of_int (cell q k))"
    using cell_above [OF assms] by (intro load32_outside [OF base(1)]) simp_all
  moreover have "load32 (\<lambda>_. 0) a = 0" for a by (simp add: load32_def)
  ultimately show ?thesis
    using load_cell_store_cell [of "0x200" q 256 k ?m] assms by (auto simp: tab_entry_def demo_mem_def table_page_def)
qed

lemma demo_parent_entry:
  assumes "table_page q" "0 \<le> k" "k < 1024"
  shows "tab_entry (pmem demo_parent) q k
    = (if (q, k) = (0x200, 256) then 0x300227 else if (q, k) = (0x300, 1) then 0x400067 else 0)"
  using demo_mem_entry [OF assms] load_cell_store_cell [of "0x300" q 1 k demo_mem] assms
  by (auto simp: demo_parent_def tab_entry_def table_page_def)

lemma demo_parent_used: "is_page j \<Longrightarrow> used demo_parent j \<longleftrightarrow> j < 0x601"
  using demo_used [of j] page_used_store32 [of demo_pages "cell 0x300 1" j demo_mem]
  by (simp add: used_def demo_parent_def page_used_def demo_pages_def above_map_def cell_def PAGE_SIZE_def)

lemma demo_parent_ok: "phys_ok demo_parent"
  using demo_phys_ok demo_parent_used
  by (auto simp: phys_ok_def page_idle_def demo_parent_def map_ok_def demo_pages_def is_page_def)

lemma demo_parent_dir: "d \<notin> {0x200, 0x300, 0x400} \<Longrightarrow> dir_ok demo_parent d 0x200 256"
proof -
  assume d: "d \<notin> {0x200, 0x300, 0x400}"
  have "page_no 0x300227 = 0x300" "page_no 0x400067 = 0x400" "\<not> present 0" "table_page 0x200" "table_page 0x300" "table_page 0x400"
    by (simp_all add: page_no_def present_def table_page_def)
  then show ?thesis
    using d demo_parent_entry demo_parent_used by (auto simp: dir_ok_def table_ok_def is_page_def split: if_splits)
qed

lemma demo_parent_free: "free_page_count demo_parent = 0xff9ff"
proof -
  have "{q. 0 \<le> q \<and> q < nbits (bitmap demo_parent) \<and> \<not> used demo_parent q} = {0x601..<2 ^ 20}"
    using demo_parent_used by (auto simp: demo_parent_def is_page_def)
  then show ?thesis by (simp add: free_page_count_def)
qed


end
