(* ===== verification/Release.thy ===== *)
theory Release
  imports Fork
begin

text \<open>
  Giving pages back: what \<open>free_vpages\<close> and \<open>destroy_pde\<close> of \<open>source/mm/page.c\<close> release and clear.
  Unlike the facts of \<open>Frames\<close> these do not ask that the kernel's own pages stay in use.
\<close>

section \<open>Pages given back\<close>

definition page_ready :: "'a phys_scheme \<Rightarrow> bool" where
  "page_ready s \<longleftrightarrow> page_idle s \<and> base (bitmap s) = BITMAP_START"

lemma phys_ok_ready: "phys_ok s \<Longrightarrow> page_ready s"
  by (simp add: phys_ok_def page_ready_def)

text \<open>From \<open>s\<close> to \<open>s'\<close> the pages \<open>X\<close> were given back and the table entries \<open>W\<close> cleared, and nothing else.\<close>

definition freed :: "int set \<Rightarrow> (int \<times> int) set \<Rightarrow> 'a phys_scheme \<Rightarrow> 'a phys_scheme \<Rightarrow> bool" where
  "freed X W s s' \<longleftrightarrow> s' = s\<lparr>pmem := pmem s'\<rparr> \<and> (\<forall>q. is_page q \<longrightarrow> (used s' q \<longleftrightarrow> used s q \<and> q \<notin> X))
     \<and> (\<forall>q k. table_page q \<and> 0 \<le> k \<and> k < 1024 \<longrightarrow>
          tab_entry (pmem s') q k = (if (q, k) \<in> W then 0 else tab_entry (pmem s) q k))"

lemma freed_refl [simp]: "freed {} {} s s"
  by (simp add: freed_def)

lemma freed_trans:
  assumes "freed X W s s1" "freed Y V s1 s2"
  shows "freed (X \<union> Y) (W \<union> V) s s2"
proof -
  have "s2 = s\<lparr>pmem := pmem s1\<rparr>\<lparr>pmem := pmem s2\<rparr>" using assms unfolding freed_def by metis
  then show ?thesis using assms by (auto simp: freed_def)
qed

lemma freed_cong: "freed X W s s' \<Longrightarrow> X = Y \<Longrightarrow> W = V \<Longrightarrow> freed Y V s s'"
  by simp

lemma freed_ready: "freed X W s s' \<Longrightarrow> page_ready s \<Longrightarrow> page_ready s'"
proof -
  assume "freed X W s s'" "page_ready s"
  then have e: "s' = s\<lparr>pmem := pmem s'\<rparr>" by (simp add: freed_def)
  show "page_ready s'" using \<open>page_ready s\<close> by (subst e) (simp add: page_ready_def)
qed

lemma freed_entry:
  "freed X W s s' \<Longrightarrow> table_page q \<Longrightarrow> 0 \<le> k \<Longrightarrow> k < 1024 \<Longrightarrow> (q, k) \<notin> W \<Longrightarrow> tab_entry (pmem s') q k = tab_entry (pmem s) q k"
  by (simp add: freed_def)

lemma page_no_page: "is_page (page_no x)"
  using page_small [OF uint_addr_bounds [of x]] uint_addr_bounds(1) [of x]
  by (simp add: is_page_def page_no_def div_int_pos_iff)

lemma page_of_frame: "is_page f \<Longrightarrow> page_no (frame f) = f"
  using page_no_address [of f 0] by (simp add: is_page_def frame_def PAGE_SIZE_def)

lemma freed_free:
  assumes "page_ready s"
  obtains s' where "free_pages (align_down e 4096) 1 s = Some s'" "freed {page_no e} {} s s'"
proof -
  let ?f = "page_no e"
  have f: "0 \<le> ?f" "?f < 2 ^ 20" using page_no_page [of e] by (simp_all add: is_page_def)
  have p: "pages_ok ?f 1" using f by (simp add: pages_ok_def)
  have b: "base (bitmap s) = BITMAP_START" using assms by (simp add: page_ready_def)
  have "uint (frame ?f) div PAGE_SIZE = ?f"
    using f uint_of_addr [of "?f * PAGE_SIZE"] by (simp add: frame_def PAGE_SIZE_def)
  then have "free_pages (align_down e 4096) 1 s = Some (s\<lparr>pmem := bitmap_set_bits (bitmap s) ?f 0 1 1 (pmem s)\<rparr>)"
    using assms by (simp add: page_ready_def free_pages_eq bitmap_free_bits_def upd_mem_def align_down_page_no)
  moreover have "freed {?f} {} s (s\<lparr>pmem := bitmap_set_bits (bitmap s) ?f 0 1 1 (pmem s)\<rparr>)"
    using set_bits_up(1) [OF p, of _ "bitmap s" 0 "pmem s"]
      load32_outside [OF b cell_above set_bits_up(2) [OF p]]
    by (auto simp: freed_def used_def tab_entry_def)
  ultimately show thesis using that by blast
qed

lemma freed_zero:
  assumes "page_ready s" "table_page q" "0 \<le> k" "k < 1024"
  shows "freed {} {(q, k)} s (upd_mem (\<lambda>m. store32 m (word_of_int (cell q k)) 0) s)"
  using assms page_used_store32 [OF _ cell_above [OF assms(2-4)], of "bitmap s"] load_cell_store_cell [OF assms(2)]
  by (auto simp: freed_def used_def tab_entry_def upd_mem_def page_ready_def)

section \<open>Ranges of a table\<close>

lemma cell_next: "word_of_int (cell t j) + 4 = (word_of_int (cell t (j + 1)) :: addr)"
  by (simp add: cell_def)

lemma int_interval_first: "0 < n \<Longrightarrow> {j..<j + int n} = insert j {j + 1..<j + 1 + int (n - 1)}"
  by auto

lemma unmap_pages_frees:
  assumes "page_ready s" "table_page t" "0 \<le> j" "j + int n \<le> 1024"
  shows "\<exists>s'. unmap_pages n (word_of_int (cell t j)) s = Some s'
    \<and> freed ((\<lambda>k. page_no (tab_entry (pmem s) t k)) ` {j..<j + int n}) ({t} \<times> {j..<j + int n}) s s'"
  using assms
proof (induction n arbitrary: j s)
  case (Suc n)
  let ?e = "tab_entry (pmem s) t j"
  obtain s1 where s1: "free_pages (align_down ?e 4096) 1 s = Some s1" "freed {page_no ?e} {} s s1"
    using freed_free [OF Suc.prems(1)] .
  let ?s2 = "upd_mem (\<lambda>m. store32 m (word_of_int (cell t j)) 0) s1"
  have "freed {} {(t, j)} s1 ?s2" using freed_zero [OF freed_ready [OF s1(2)]] Suc.prems by simp
  then have s2: "freed {page_no ?e} {(t, j)} s ?s2" using freed_trans [OF s1(2)] by simp
  obtain s' where s': "unmap_pages n (word_of_int (cell t (j + 1))) ?s2 = Some s'"
    "freed ((\<lambda>k. page_no (tab_entry (pmem ?s2) t k)) ` {j + 1..<j + 1 + int n}) ({t} \<times> {j + 1..<j + 1 + int n}) ?s2 s'"
    using Suc.IH [OF freed_ready [OF s2 Suc.prems(1)] Suc.prems(2), of "j + 1"] Suc.prems by auto
  have "tab_entry (pmem ?s2) t k = tab_entry (pmem s) t k" if "k \<in> {j + 1..<j + 1 + int n}" for k
    using freed_entry [OF s2 Suc.prems(2)] that Suc.prems by auto
  then have im: "(\<lambda>k. page_no (tab_entry (pmem ?s2) t k)) ` {j + 1..<j + 1 + int n}
      = (\<lambda>k. page_no (tab_entry (pmem s) t k)) ` {j + 1..<j + 1 + int n}" by simp
  have "unmap_pages (Suc n) (word_of_int (cell t j)) s = Some s'"
    using s1(1) s'(1) by (simp add: tab_entry_def cell_next)
  moreover have "freed ((\<lambda>k. page_no (tab_entry (pmem s) t k)) ` {j..<j + int (Suc n)}) ({t} \<times> {j..<j + int (Suc n)}) s s'"
    using freed_trans [OF s2 s'(2)] int_interval_first [of "Suc n" j] by (simp add: im)
  ultimately show ?case by blast
qed simp

text \<open>The pages to which the present ones of the entries \<open>K\<close> of a table point.\<close>

definition pages_at :: "mem \<Rightarrow> int \<Rightarrow> int set \<Rightarrow> int set" where
  "pages_at m t K = (\<lambda>k. page_no (tab_entry m t k)) ` {k \<in> K. present (tab_entry m t k)}"

definition cells_at :: "mem \<Rightarrow> int \<Rightarrow> int set \<Rightarrow> (int \<times> int) set" where
  "cells_at m t K = {t} \<times> {k \<in> K. present (tab_entry m t k)}"

lemma at_cong:
  assumes "\<And>k. k \<in> K \<Longrightarrow> tab_entry m t k = tab_entry m' t k"
  shows "pages_at m t K = pages_at m' t K" "cells_at m t K = cells_at m' t K"
  using assms by (auto simp: pages_at_def cells_at_def)

lemma at_insert:
  "pages_at m t (insert k K) = (if present (tab_entry m t k) then {page_no (tab_entry m t k)} else {}) \<union> pages_at m t K"
  "cells_at m t (insert k K) = (if present (tab_entry m t k) then {(t, k)} else {}) \<union> cells_at m t K"
  by (auto simp: pages_at_def cells_at_def)

lemma at_empty [simp]: "pages_at m t {} = {}" "cells_at m t {} = {}"
  by (simp_all add: pages_at_def cells_at_def)

text \<open>Freeing the page of a present entry and clearing it.\<close>

lemma freed_entry_cleared:
  assumes "page_ready s" "table_page t" "0 \<le> j" "j < 1024" and e: "tab_entry (pmem s) t j = e"
  obtains s1 where "free_pages (align_down e 4096) 1 s = Some s1"
    "freed {page_no e} {(t, j)} s (upd_mem (\<lambda>m. store32 m (word_of_int (cell t j)) 0) s1)"
proof -
  obtain s1 where s1: "free_pages (align_down e 4096) 1 s = Some s1" "freed {page_no e} {} s s1"
    using freed_free [OF assms(1)] .
  from freed_trans [OF s1(2) freed_zero [OF freed_ready [OF s1(2) assms(1)] assms(2-4)]] s1(1)
  show thesis using that by simp
qed

lemma destroy_ptes_frees:
  assumes "page_ready s" "table_page t" "0 \<le> j" "j + int n \<le> 1024"
  shows "\<exists>s'. destroy_ptes n (word_of_int (cell t j)) s = Some s'
    \<and> freed (pages_at (pmem s) t {j..<j + int n}) (cells_at (pmem s) t {j..<j + int n}) s s'"
  using assms
proof (induction n arbitrary: j s)
  case (Suc n)
  let ?e = "tab_entry (pmem s) t j" and ?K = "{j + 1..<j + 1 + int n}"
  have j: "0 \<le> j" "j < 1024" using Suc.prems by auto
  have K: "{j..<j + int (Suc n)} = insert j ?K" using int_interval_first [of "Suc n" j] by simp
  obtain s2 where s2: "(if present ?e then do {
         s \<leftarrow> free_pages (align_down ?e 4096) 1 s;
         Some (upd_mem (\<lambda>m. store32 m (word_of_int (cell t j)) 0) s) } else Some s) = Some s2"
    "freed (if present ?e then {page_no ?e} else {}) (if present ?e then {(t, j)} else {}) s s2"
  proof (cases "present ?e")
    case True
    obtain s1 where "free_pages (align_down ?e 4096) 1 s = Some s1"
      "freed {page_no ?e} {(t, j)} s (upd_mem (\<lambda>m. store32 m (word_of_int (cell t j)) 0) s1)"
      by (rule freed_entry_cleared [OF Suc.prems(1,2) j refl])
    then show thesis using that True by simp
  qed (simp add: that)
  obtain s' where s': "destroy_ptes n (word_of_int (cell t (j + 1))) s2 = Some s'"
    "freed (pages_at (pmem s2) t ?K) (cells_at (pmem s2) t ?K) s2 s'"
    using Suc.IH [OF freed_ready [OF s2(2) Suc.prems(1)] Suc.prems(2), of "j + 1"] Suc.prems by auto
  have "tab_entry (pmem s2) t k = tab_entry (pmem s) t k" if "k \<in> ?K" for k
    using freed_entry [OF s2(2) Suc.prems(2)] that Suc.prems by auto
  note same = at_cong [OF this]
  have "destroy_ptes (Suc n) (word_of_int (cell t j)) s = Some s'"
    using s2(1) s'(1) by (auto simp: tab_entry_def cell_next Let_def split: if_splits bind_splits)
  moreover have "freed (pages_at (pmem s) t {j..<j + int (Suc n)}) (cells_at (pmem s) t {j..<j + int (Suc n)}) s s'"
    unfolding K at_insert using freed_trans [OF s2(2) s'(2)] by (simp only: same)
  ultimately show ?case by blast
qed simp

section \<open>A whole address space\<close>

text \<open>The pages below directory \<open>q\<close> through its entries \<open>K\<close>: tables and what they map.\<close>

definition below :: "mem \<Rightarrow> int \<Rightarrow> int set \<Rightarrow> int set" where
  "below m q K = pages_at m q K \<union> (\<Union>p \<in> pages_at m q K. pages_at m p {0..<1024})"

definition below_cells :: "mem \<Rightarrow> int \<Rightarrow> int set \<Rightarrow> (int \<times> int) set" where
  "below_cells m q K = cells_at m q K \<union> (\<Union>p \<in> pages_at m q K. cells_at m p {0..<1024})"

text \<open>Every present entry of \<open>K\<close> has a table of its own.\<close>

definition own_tables :: "mem \<Rightarrow> int \<Rightarrow> int set \<Rightarrow> bool" where
  "own_tables m q K \<longleftrightarrow> (\<forall>p \<in> pages_at m q K. table_page p \<and> p \<noteq> q)
     \<and> inj_on (\<lambda>k. page_no (tab_entry m q k)) {k \<in> K. present (tab_entry m q k)}"

lemma below_insert:
  "below m q (insert k K) = (let e = tab_entry m q k in
     if present e then insert (page_no e) (pages_at m (page_no e) {0..<1024}) else {}) \<union> below m q K"
  "below_cells m q (insert k K) = (let e = tab_entry m q k in
     if present e then insert (q, k) (cells_at m (page_no e) {0..<1024}) else {}) \<union> below_cells m q K"
  by (auto simp: below_def below_cells_def at_insert Let_def)

lemma below_cong:
  assumes "\<And>k. k \<in> K \<Longrightarrow> tab_entry m q k = tab_entry m' q k"
    and "\<And>p k. p \<in> pages_at m q K \<Longrightarrow> 0 \<le> k \<Longrightarrow> k < 1024 \<Longrightarrow> tab_entry m p k = tab_entry m' p k"
  shows "below m q K = below m' q K" "below_cells m q K = below_cells m' q K" "own_tables m q K = own_tables m' q K"
proof -
  have p: "pages_at m' q K = pages_at m q K" "cells_at m' q K = cells_at m q K" using at_cong [OF assms(1)] by simp_all
  have "pages_at m p {0..<1024} = pages_at m' p {0..<1024}" "cells_at m p {0..<1024} = cells_at m' p {0..<1024}"
    if "p \<in> pages_at m q K" for p using assms(2) [OF that] by (auto intro!: at_cong)
  then show "below m q K = below m' q K" "below_cells m q K = below_cells m' q K"
    unfolding below_def below_cells_def p by (auto cong: SUP_cong)
  have "inj_on (\<lambda>k. page_no (tab_entry m q k)) {k \<in> K. present (tab_entry m q k)}
      = inj_on (\<lambda>k. page_no (tab_entry m' q k)) {k \<in> K. present (tab_entry m' q k)}"
    using assms(1) by (auto simp: inj_on_def)
  then show "own_tables m q K = own_tables m' q K" by (simp add: own_tables_def p)
qed

lemma destroy_pdes_frees:
  assumes "page_ready s" "table_page q" "0 \<le> i" "i + int n \<le> 1024" "own_tables (pmem s) q {i..<i + int n}"
  shows "\<exists>s'. destroy_pdes n (word_of_int (cell q i)) s = Some s'
    \<and> freed (below (pmem s) q {i..<i + int n}) (below_cells (pmem s) q {i..<i + int n}) s s'"
  using assms
proof (induction n arbitrary: i s)
  case (Suc n)
  let ?m = "pmem s"
  let ?e = "tab_entry ?m q i" and ?K = "{i + 1..<i + 1 + int n}"
  let ?p = "page_no ?e"
  have i: "0 \<le> i" "i < 1024" using Suc.prems by auto
  have K: "{i..<i + int (Suc n)} = insert i ?K" using int_interval_first [of "Suc n" i] by simp
  have own: "own_tables ?m q (insert i ?K)" using Suc.prems(5) unfolding K .
  let ?A = "if present ?e then insert ?p (pages_at ?m ?p {0..<1024}) else {}"
  let ?V = "if present ?e then insert (q, i) (cells_at ?m ?p {0..<1024}) else {}"
  obtain s2 where s2: "(if present ?e then do {
         s \<leftarrow> destroy_ptes 1024 (align_down ?e 4096) s;
         s \<leftarrow> free_pages (align_down (load32 (pmem s) (word_of_int (cell q i))) 4096) 1 s;
         Some (upd_mem (\<lambda>m. store32 m (word_of_int (cell q i)) 0) s) } else Some s) = Some s2"
    "freed ?A ?V s s2"
  proof (cases "present ?e")
    case True
    then have p: "table_page ?p" "?p \<noteq> q" using own by (auto simp: own_tables_def at_insert)
    have "align_down ?e 4096 = word_of_int (cell ?p 0)" by (simp add: align_down_page_no frame_def cell_def)
    then obtain s1 where s1: "destroy_ptes 1024 (align_down ?e 4096) s = Some s1"
      "freed (pages_at ?m ?p {0..<1024}) (cells_at ?m ?p {0..<1024}) s s1"
      using destroy_ptes_frees [OF Suc.prems(1) p(1), of 0 1024] by auto
    have "tab_entry (pmem s1) q i = ?e" using freed_entry [OF s1(2) Suc.prems(2) i] p(2) by (auto simp: cells_at_def)
    then obtain s0 where s0: "free_pages (align_down ?e 4096) 1 s1 = Some s0"
      "freed {?p} {(q, i)} s1 (upd_mem (\<lambda>m. store32 m (word_of_int (cell q i)) 0) s0)" "load32 (pmem s1) (word_of_int (cell q i)) = ?e"
      using freed_entry_cleared [OF freed_ready [OF s1(2) Suc.prems(1)] Suc.prems(2) i] by (metis tab_entry_def)
    show thesis using that s1(1) s0(1,3) freed_trans [OF s1(2) s0(2)] True by simp
  qed (simp add: that)
  have e2: "tab_entry (pmem s2) q k = tab_entry ?m q k" if "k \<in> ?K" for k
    using freed_entry [OF s2(2) Suc.prems(2), of k] that Suc.prems(3,4) own
    by (auto simp: cells_at_def own_tables_def at_insert split: if_splits)
  have t2: "tab_entry (pmem s2) p k = tab_entry ?m p k" if "p \<in> pages_at ?m q ?K" "0 \<le> k" "k < 1024" for p k
  proof (rule freed_entry [OF s2(2)])
    have "p \<noteq> ?p" if "present ?e" using own \<open>p \<in> pages_at ?m q ?K\<close> that by (fastforce simp: own_tables_def pages_at_def inj_on_def)
    then show "(p, k) \<notin> ?V" "table_page p" using own that(1) by (auto simp: own_tables_def at_insert cells_at_def split: if_splits)
  qed (use that in auto)
  note same = below_cong [where K = ?K, OF e2 [symmetric] t2 [symmetric]]
  have "own_tables ?m q ?K" using own by (auto simp: own_tables_def at_insert inj_on_def split: if_splits)
  then obtain s' where s': "destroy_pdes n (word_of_int (cell q (i + 1))) s2 = Some s'"
    "freed (below (pmem s2) q ?K) (below_cells (pmem s2) q ?K) s2 s'"
    using Suc.IH [OF freed_ready [OF s2(2) Suc.prems(1)] Suc.prems(2), of "i + 1"] Suc.prems same(3) by auto
  have "destroy_pdes (Suc n) (word_of_int (cell q i)) s = Some s'"
    using s2(1) s'(1) by (auto simp: tab_entry_def cell_next Let_def split: if_splits bind_splits)
  moreover have "freed (below ?m q {i..<i + int (Suc n)}) (below_cells ?m q {i..<i + int (Suc n)}) s s'"
    unfolding K below_insert Let_def using freed_trans [OF s2(2) s'(2)] by (simp only: same)
  ultimately show ?case by blast
qed (simp add: below_def below_cells_def)

text \<open>C17: The end of an address space.  When every present user entry of directory \<open>q\<close> has a table of its
  own, \<open>destroy_pde\<close> returns with exactly these pages free that were free before or belong to
  the space: the directory, its user tables and what they map.  The user entries and those of
  the tables are cleared where they were present; the kernel's half of the directory and every
  other page keep their contents.\<close>

theorem destroy_pde_releases:
  assumes "phys_ok s" "table_page q" "own_tables (pmem s) q {256..<1024}"
  shows "\<exists>s'. destroy_pde (frame q) s = Some s'
    \<and> (\<forall>p. is_page p \<longrightarrow> (used s' p \<longleftrightarrow> used s p \<and> p \<noteq> q \<and> p \<notin> below (pmem s) q {256..<1024}))
    \<and> (\<forall>k. 256 \<le> k \<and> k < 1024 \<longrightarrow> \<not> present (tab_entry (pmem s') q k))
    \<and> (\<forall>k. 0 \<le> k \<and> k < 256 \<longrightarrow> tab_entry (pmem s') q k = tab_entry (pmem s) q k)
    \<and> (\<forall>p k. table_page p \<and> p \<noteq> q \<and> p \<notin> pages_at (pmem s) q {256..<1024} \<and> 0 \<le> k \<and> k < 1024 \<longrightarrow>
         tab_entry (pmem s') p k = tab_entry (pmem s) p k)
    \<and> s' = s\<lparr>pmem := pmem s'\<rparr>"
proof -
  note ready = phys_ok_ready [OF assms(1)]
  have own: "p \<noteq> q" if "p \<in> pages_at (pmem s) q {256..<1024}" for p using assms(3) that by (auto simp: own_tables_def)
  obtain s1 where s1: "destroy_pdes 768 (word_of_int (cell q 256)) s = Some s1"
    "freed (below (pmem s) q {256..<1024}) (below_cells (pmem s) q {256..<1024}) s s1"
    using destroy_pdes_frees [OF ready assms(2), of 256 768] assms(3) by auto
  have q: "page_no (frame q) = q" "align_down (frame q) 4096 = frame q"
    using page_of_frame [OF table_is_page [OF assms(2)]] by (simp_all add: align_down_page_no)
  obtain s' where s': "free_pages (frame q) 1 s1 = Some s'" "freed {q} {} s1 s'"
    using freed_free [OF freed_ready [OF s1(2) ready], of "frame q"] unfolding q by metis
  have f: "freed (below (pmem s) q {256..<1024} \<union> {q}) (below_cells (pmem s) q {256..<1024}) s s'"
    using freed_trans [OF s1(2) s'(2)] by simp
  have "destroy_pde (frame q) s = Some s'"
    using s1(1) s'(1) cell_addr [of q 256] by (simp add: destroy_pde_def user_start)
  moreover have "tab_entry (pmem s') q k = (if present (tab_entry (pmem s) q k) then 0 else tab_entry (pmem s) q k)"
    if "256 \<le> k" "k < 1024" for k
    using f assms(2) own that unfolding freed_def by (auto simp: below_cells_def cells_at_def)
  moreover have "tab_entry (pmem s') p k = tab_entry (pmem s) p k"
    if "table_page p" "0 \<le> k" "k < 1024" "p = q \<and> k < 256 \<or> p \<noteq> q \<and> p \<notin> pages_at (pmem s) q {256..<1024}" for p k
  proof (rule freed_entry [OF f that(1-3)])
    show "(p, k) \<notin> below_cells (pmem s) q {256..<1024}"
      using that(4) own [of q] by (auto simp: below_cells_def cells_at_def)
  qed
  moreover have "\<not> present 0" by (simp add: present_def)
  ultimately show ?thesis using f assms(2) by (simp add: freed_def)
qed

lemma demo_parent_space:
  "pages_at (pmem demo_parent) 0x200 {256..<1024} = {0x300}" "below (pmem demo_parent) 0x200 {256..<1024} = {0x300, 0x400}"
  "own_tables (pmem demo_parent) 0x200 {256..<1024}"
proof -
  have p: "page_no 0x300227 = 0x300" "page_no 0x400067 = 0x400" "\<not> present 0" "present 0x300227" "present 0x400067"
    by (simp_all add: page_no_def present_def PAGE_PRESENT_def)
  have t: "table_page 0x200" "table_page 0x300" by (simp_all add: table_page_def)
  have d: "{k \<in> {256..<1024}. present (tab_entry (pmem demo_parent) 0x200 k)} = {256}"
    using p t by (auto simp: demo_parent_entry split: if_splits)
  have m: "{k \<in> {0..<1024}. present (tab_entry (pmem demo_parent) 0x300 k)} = {1}"
    using p t by (auto simp: demo_parent_entry split: if_splits)
  show at: "pages_at (pmem demo_parent) 0x200 {256..<1024} = {0x300}"
    unfolding pages_at_def d using p t by (simp add: demo_parent_entry)
  have "pages_at (pmem demo_parent) 0x300 {0..<1024} = {0x400}"
    unfolding pages_at_def m using p t by (simp add: demo_parent_entry)
  then show "below (pmem demo_parent) 0x200 {256..<1024} = {0x300, 0x400}" by (auto simp: below_def at)
  show "own_tables (pmem demo_parent) 0x200 {256..<1024}" unfolding own_tables_def at d using t by simp
qed

lemma destroy_pde_releases_witness:
  "\<exists>s'. destroy_pde (frame 0x200) demo_parent = Some s' \<and> \<not> used s' 0x200 \<and> \<not> used s' 0x300 \<and> \<not> used s' 0x400
     \<and> used s' 0x500"
  using destroy_pde_releases [OF demo_parent_ok _ demo_parent_space(3)] demo_parent_used
  by (auto simp: demo_parent_space table_page_def is_page_def)

section \<open>A range of pages\<close>

lemma table_empty_loop_first: "table_empty_loop n pte m \<longleftrightarrow> n = 0 \<or> load32 m pte = 0"
  by (induction n) auto

text \<open>C36: Releasing a range takes one round too many: for \<open>n\<close> pages, \<open>free_vpages\<close> clears \<open>n + 1\<close> entries of
  the table and gives back the pages in them, which is page 0 for an empty entry.  When the
  table's first entry is 0 then, it gives back the table, whatever its other entries, and clears the
  first entry of the directory, a kernel one, in place of the one that points to the table.
  Nothing else changes.\<close>

theorem free_vpages_one_more:
  fixes a sz :: uint
  defines "i \<equiv> uint (pte_index a)" and "n \<equiv> uint (pages_of sz)"
  assumes "phys_ok s" "table_page d" "table_page t" "d \<noteq> t"
    and e: "tab_entry (pmem s) d (uint (pde_index a)) = e" "present e" "page_no e = t"
    and n: "i + n < 1024"
  defines "gone \<equiv> (\<lambda>k. page_no (tab_entry (pmem s) t k)) ` {i..i + n}"
    and "bare \<equiv> i = 0 \<or> tab_entry (pmem s) t 0 = 0"
  shows "\<exists>s'. free_vpages (frame d) a sz s = Some s'
    \<and> (\<forall>p. is_page p \<longrightarrow> (used s' p \<longleftrightarrow> used s p \<and> p \<notin> gone \<and> \<not> (bare \<and> p = t)))
    \<and> (\<forall>p k. table_page p \<and> 0 \<le> k \<and> k < 1024 \<longrightarrow> tab_entry (pmem s') p k =
         (if p = t \<and> i \<le> k \<and> k \<le> i + n \<or> bare \<and> p = d \<and> k = 0 then 0 else tab_entry (pmem s) p k))
    \<and> s' = s\<lparr>pmem := pmem s'\<rparr>"
proof -
  note ready = phys_ok_ready [OF \<open>phys_ok s\<close>]
  have i: "0 \<le> i" "0 \<le> n" by (simp_all add: i_def n_def)
  have D: "frame d + 4 * pde_index a = word_of_int (cell d (uint (pde_index a)))" using cell_addr [of d "uint (pde_index a)"] by simp
  have I: "frame t + 4 * pte_index a = word_of_int (cell t i)" using cell_addr [of t i] by (simp add: i_def)
  have T: "frame t = word_of_int (cell t 0)" by (simp add: frame_def cell_def)
  have N: "int (unat (pages_of sz) + 1) = n + 1" by (simp add: n_def)
  obtain s1 where s1: "unmap_pages (unat (pages_of sz) + 1) (word_of_int (cell t i)) s = Some s1" "freed gone ({t} \<times> {i..i + n}) s s1"
  proof -
    have "{i..<i + int (unat (pages_of sz) + 1)} = {i..i + n}" unfolding N by auto
    then show thesis
      using that unmap_pages_frees [OF ready \<open>table_page t\<close> i(1), of "unat (pages_of sz) + 1"] n N unfolding gone_def by auto
  qed
  have bare: "tab_entry (pmem s1) t 0 = 0 \<longleftrightarrow> bare"
    using s1(2) \<open>table_page t\<close> i unfolding bare_def freed_def by auto
  have run: "free_vpages (frame d) a sz s = (if \<not> bare then Some s1
      else free_pages (frame t) 1 (upd_mem (\<lambda>m. store32 m (word_of_int (cell d 0)) 0) s1))"
  proof -
    have "load32 (pmem s) (frame d + 4 * pde_index a) = e" "align_down e 4096 = frame t" "e AND PAGE_PRESENT \<noteq> 0"
      using e D by (simp_all add: tab_entry_def align_down_page_no present_def)
    moreover have "table_empty_loop 1024 (frame t) (pmem s1) = bare"
      using bare unfolding table_empty_loop_first T tab_entry_def by simp
    moreover have "word_of_int (cell d 0) = frame d" by (simp add: frame_def cell_def)
    ultimately show ?thesis
      using s1(1) by (simp only: free_vpages_def Let_def I if_False bind.bind_lunit if_not_P not_not if_True simp_thms cong: if_cong)
  qed
  show ?thesis
  proof (cases bare)
    case True
    let ?s2 = "upd_mem (\<lambda>m. store32 m (word_of_int (cell d 0)) 0) s1"
    have s2: "freed gone ({t} \<times> {i..i + n} \<union> {(d, 0)}) s ?s2"
      using freed_trans [OF s1(2) freed_zero [OF freed_ready [OF s1(2) ready] \<open>table_page d\<close>, of 0]] by simp
    have q: "page_no (frame t) = t" "align_down (frame t) 4096 = frame t"
      using page_of_frame [OF table_is_page [OF \<open>table_page t\<close>]] by (simp_all add: align_down_page_no)
    obtain s' where s': "free_pages (frame t) 1 ?s2 = Some s'" "freed {t} {} ?s2 s'"
      using freed_free [OF freed_ready [OF s2 ready], of "frame t"] unfolding q by metis
    show ?thesis using freed_trans [OF s2 s'(2)] run s'(1) True by (auto simp: freed_def)
  next
    case False
    then show ?thesis using s1(2) run by (auto simp: freed_def)
  qed
qed

lemma free_vpages_one_more_witness:
  "\<exists>s'. free_vpages (frame 0x200) 0x40001000 4096 demo_parent = Some s'
     \<and> \<not> used s' 0x400 \<and> \<not> used s' 0 \<and> \<not> used s' 0x300 \<and> tab_entry (pmem s') 0x200 256 = 0x300227"
proof -
  have ix: "uint (pde_index 0x40001000) = 256" "uint (pte_index 0x40001000) = 1" "uint (pages_of 4096) = 1" by code_simp+
  have t: "table_page 0x200" "table_page 0x300" by (simp_all add: table_page_def)
  have p: "page_no 0x300227 = 0x300" "page_no 0x400067 = 0x400" "page_no 0 = 0" "present 0x300227"
    by (simp_all add: page_no_def present_def PAGE_PRESENT_def)
  have r: "{1..2 :: int} = {1, 2}" by auto
  obtain s' where "free_vpages (frame 0x200) 0x40001000 4096 demo_parent = Some s'"
    "\<forall>p. is_page p \<longrightarrow> (used s' p \<longleftrightarrow> used demo_parent p \<and> p \<noteq> 0x400 \<and> p \<noteq> 0 \<and> p \<noteq> 0x300)"
    "\<forall>p k. table_page p \<and> 0 \<le> k \<and> k < 1024 \<longrightarrow> tab_entry (pmem s') p k =
       (if p = 0x300 \<and> 1 \<le> k \<and> k \<le> 2 \<or> p = 0x200 \<and> k = 0 then 0 else tab_entry (pmem demo_parent) p k)"
    using free_vpages_one_more [OF demo_parent_ok t, of "0x40001000" "0x300227" 4096]
    by (auto simp: ix t p r demo_parent_entry)
  then show ?thesis using t by (intro exI [of _ s']) (simp add: is_page_def demo_parent_entry)
qed

end
