(* ===== verification/Kmalloc.thy ===== *)
theory Kmalloc
  imports Page
begin

text \<open>
  The kernel heap of \<open>source/mm/memory.c\<close>: blocks with packed 17-byte headers in physical
  memory, a doubly linked list of the free ones, first fit with splitting, and merging on
  release.  Memory is the machine's: page 0 is mapped, so a null pointer is the address 0 and
  following it reads and writes there, as on the machine.  The message \<open>kprintf\<close> prints on
  a refused size is left out.
\<close>

section \<open>Blocks\<close>

definition USED :: uint where "USED = 0xAA99BB88"
definition FREE :: uint where "FREE = 0x88BB99AA"
definition MEM_HSIZE :: uint where "MEM_HSIZE = 17"

text \<open>The fields of \<open>mem_block_t\<close>, packed: \<open>used\<close>, \<open>size\<close>, \<open>is_head\<close>, \<open>prev\<close>, \<open>next\<close>.\<close>

definition b_used :: "mem \<Rightarrow> addr \<Rightarrow> uint" where "b_used m b = load32 m b"
definition b_size :: "mem \<Rightarrow> addr \<Rightarrow> uint" where "b_size m b = load32 m (b + 4)"
definition b_is_head :: "mem \<Rightarrow> addr \<Rightarrow> uchar" where "b_is_head m b = m (b + 8)"
definition b_prev :: "mem \<Rightarrow> addr \<Rightarrow> addr" where "b_prev m b = load32 m (b + 9)"
definition b_next :: "mem \<Rightarrow> addr \<Rightarrow> addr" where "b_next m b = load32 m (b + 13)"

definition set_used :: "addr \<Rightarrow> uint \<Rightarrow> mem \<Rightarrow> mem" where "set_used b v m = store32 m b v"
definition set_size :: "addr \<Rightarrow> uint \<Rightarrow> mem \<Rightarrow> mem" where "set_size b v m = store32 m (b + 4) v"
definition set_is_head :: "addr \<Rightarrow> uchar \<Rightarrow> mem \<Rightarrow> mem" where "set_is_head b v m = m(b + 8 := v)"
definition set_prev :: "addr \<Rightarrow> addr \<Rightarrow> mem \<Rightarrow> mem" where "set_prev b v m = store32 m (b + 9) v"
definition set_next :: "addr \<Rightarrow> addr \<Rightarrow> mem \<Rightarrow> mem" where "set_next b v m = store32 m (b + 13) v"

record heap = phys +
  free_list :: addr

section \<open>Allocation\<close>

definition mem_init :: "'a heap_scheme \<Rightarrow> 'a heap_scheme option" where
  "mem_init s = do {
     s \<leftarrow> page_init s;
     (s, b) \<leftarrow> alloc_pages 8 s;
     let s = s\<lparr>free_list := b\<rparr>;
     let s = upd_mem (set_size b (word_of_int (8 * PAGE_SIZE))) s;
     let s = upd_mem (set_used b FREE) s;
     let s = upd_mem (set_is_head b 1) s;
     let s = upd_mem (set_prev b 0) s;
     Some (upd_mem (set_next b 0) s) }"

text \<open>The walk along the free list: the first block that is large enough and the one visited
  before it, or the null pointer and the last one.\<close>

partial_function (option) find_fit :: "addr \<Rightarrow> addr \<Rightarrow> uint \<Rightarrow> mem \<Rightarrow> (addr \<times> addr) option" where
  "find_fit cur prev sz m =
     (if cur = 0 then Some (0, prev)
      else if b_size m cur \<ge> sz then Some (cur, prev)
      else find_fit (b_next m cur) cur sz m)"

declare find_fit.simps [code]

text \<open>The branch of the loop that allocates from the block \<open>cur\<close>: split, mark, unlink.\<close>

definition split_block :: "addr \<Rightarrow> uint \<Rightarrow> mem \<Rightarrow> mem" where
  "split_block cur sz m =
     (if b_size m cur > sz + MEM_HSIZE
      then let new = cur + sz;
               m = set_size new (b_size m cur - sz) m;
               m = set_prev new cur m;
               m = set_next new (b_next m cur) m;
               m = (if b_next m cur \<noteq> 0 then set_prev (b_next m cur) new m else m);
               m = set_used new FREE m;
               m = set_is_head new 0 m;
               m = set_size cur sz m
           in set_next cur new m
      else m)"

definition unlink_block :: "addr \<Rightarrow> addr \<Rightarrow> mem \<Rightarrow> mem \<times> addr" where
  "unlink_block cur fl m =
     (if b_prev m cur \<noteq> 0
      then let m = set_next (b_prev m cur) (b_next m cur) m
           in (if b_next m cur \<noteq> 0 then set_prev (b_next m cur) (b_prev m cur) m else m, fl)
      else (if b_next m cur \<noteq> 0 then set_prev (b_next m cur) 0 m else m, b_next m cur))"

definition take_block :: "addr \<Rightarrow> uint \<Rightarrow> 'a heap_scheme \<Rightarrow> 'a heap_scheme" where
  "take_block cur sz s =
     (let m = split_block cur sz (pmem s);
          m = set_used cur USED m;
          (m, fl) = unlink_block cur (free_list s) m
      in s\<lparr>pmem := m, free_list := fl\<rparr>)"

text \<open>No block fits: eight fresh pages, split into the block and a free rest after \<open>prev\<close>.\<close>

definition fresh_block :: "addr \<Rightarrow> addr \<Rightarrow> uint \<Rightarrow> mem \<Rightarrow> mem" where
  "fresh_block new prev sz m =
     (let m = set_size new sz m;
          m = set_next new 0 m;
          m = set_prev new 0 m;
          m = set_used new USED m;
          m = set_is_head new 1 m;
          free_block = new + sz;
          m = set_size free_block (word_of_int (8 * PAGE_SIZE) - sz) m;
          m = set_next free_block (b_next m prev) m;
          m = set_prev (b_next m prev) free_block m;
          m = set_prev free_block prev m;
          m = set_next prev free_block m;
          m = set_used free_block FREE m
      in set_is_head free_block 0 m)"

definition kmalloc :: "uint \<Rightarrow> 'a heap_scheme \<Rightarrow> ('a heap_scheme \<times> addr) option" where
  "kmalloc sz s = do {
     let sz = sz + MEM_HSIZE;
     if sz < 8 \<or> sz > word_of_int (8 * PAGE_SIZE) then Some (s, 0)
     else do {
       (cur, prev) \<leftarrow> find_fit (free_list s) (free_list s) sz (pmem s);
       if cur \<noteq> 0 then Some (take_block cur sz s, cur + MEM_HSIZE)
       else do {
         (s, new) \<leftarrow> alloc_pages 8 s;
         if new = 0 then Some (s, 0)
         else Some (upd_mem (fresh_block new prev sz) s, new + MEM_HSIZE) } } }"

section \<open>Release\<close>

text \<open>The inner loop: blocks that follow \<open>cur\<close> in memory are merged while they are free.  The
  flag says that the loop ended at the head block of another run of pages, which is then
  the current block.\<close>

partial_function (option) merge_next :: "addr \<Rightarrow> addr \<Rightarrow> mem \<Rightarrow> (mem \<times> bool \<times> addr) option" where
  "merge_next cur nb m =
     (if b_used m nb = FREE
      then let m = set_size cur (b_size m cur + b_size m nb) m;
               m = set_next cur (b_next m nb) m;
               m = set_prev (b_next m nb) cur m;
               m = set_used nb 0 m;
               nb = cur + b_size m cur
           in if b_is_head m nb = 1 then Some (m, True, nb) else merge_next cur nb m
      else Some (m, False, cur))"

partial_function (option) skip_merged :: "addr \<Rightarrow> mem \<Rightarrow> (mem \<times> addr) option" where
  "skip_merged cur m =
     (if cur \<noteq> 0 \<and> b_used m cur = 0
      then let next = b_next m cur; m = set_next cur 0 m; m = set_prev cur 0 m in skip_merged next m
      else Some (m, cur))"

partial_function (option) merge_loop :: "addr \<Rightarrow> mem \<Rightarrow> mem option" where
  "merge_loop cur m =
     (if cur = 0 then Some m
      else do {
        (m, flag, cur) \<leftarrow> merge_next cur (cur + b_size m cur) m;
        if flag then merge_loop cur m
        else do { (m, cur) \<leftarrow> skip_merged (b_next m cur) m; merge_loop cur m } })"

partial_function (option) free_runs :: "addr \<Rightarrow> 'a heap_scheme \<Rightarrow> 'a heap_scheme option" where
  "free_runs cur s =
     (if cur = 0 then Some s
      else do {
        let next = b_next (pmem s) cur;
        s \<leftarrow> (if b_size (pmem s) cur = word_of_int (8 * PAGE_SIZE)
              then free_pages cur 8 (upd_mem (set_size cur 0) s) else Some s);
        free_runs next s })"

declare merge_next.simps [code] skip_merged.simps [code] merge_loop.simps [code] free_runs.simps [code]

text \<open>The new block goes to the head of the list.\<close>

definition push_free :: "addr \<Rightarrow> 'a heap_scheme \<Rightarrow> 'a heap_scheme" where
  "push_free b s =
     (let s = upd_mem (set_next b (free_list s)) s;
          s = upd_mem (set_prev (free_list s) b) s;
          s = upd_mem (set_prev b 0) s;
          s = upd_mem (set_used b FREE) s
      in s\<lparr>free_list := b\<rparr>)"

definition kfree :: "addr \<Rightarrow> 'a heap_scheme \<Rightarrow> 'a heap_scheme option" where
  "kfree a s =
     (if a \<le> 0 then Some s
      else do {
        let s = push_free (a - MEM_HSIZE) s;
        m \<leftarrow> merge_loop (free_list s) (pmem s);
        free_runs (free_list s) (s\<lparr>pmem := m\<rparr>) })"


section \<open>Headers\<close>

lemma load32_store32_bytes:
  assumes "\<And>k l. k < 4 \<Longrightarrow> l < 4 \<Longrightarrow> a + of_nat k \<noteq> b + of_nat l"
  shows "load32 (store32 m a v) b = load32 m b"
  using assms by (intro load32_cong store32_frame) metis

lemma apart_bytes:
  assumes "apart 17 b c" "i < 17" "j < 17"
  shows "b + of_nat i \<noteq> c + of_nat j"
  using word_add_of_nat_neq [OF assms] .

lemma apart_fields:
  assumes "apart 17 c b" "i \<le> 13" "j \<le> 13"
  shows "load32 (store32 m (c + of_nat i) v) (b + of_nat j) = load32 m (b + of_nat j)"
    "load32 (m(c + 8 := w)) (b + of_nat j) = load32 m (b + of_nat j)"
    "store32 m (c + of_nat i) v (b + 8) = m (b + 8)"
proof -
  have n: "x + of_nat p + of_nat q = x + of_nat (p + q)" for x :: addr and p q by (simp add: add.assoc)
  show "load32 (store32 m (c + of_nat i) v) (b + of_nat j) = load32 m (b + of_nat j)"
    unfolding n using assms
    by (intro load32_store32_bytes) (simp only: n, intro apart_bytes, auto)
  have "b + of_nat j + of_nat k \<noteq> c + 8" if "k < 4" for k
    using apart_bytes [OF assms(1), of 8 "j + k"] assms(3) that by (auto simp: add.assoc)
  then show "load32 (m(c + 8 := w)) (b + of_nat j) = load32 m (b + of_nat j)"
    by (intro load32_cong) simp
  have "b + 8 \<noteq> c + of_nat i + of_nat k" if "k < 4" for k
    using apart_bytes [OF assms(1), of "i + k" 8] assms(2) that by (auto simp: add.assoc)
  then show "store32 m (c + of_nat i) v (b + 8) = m (b + 8)" by (intro store32_frame) auto
qed

lemma of_nat_inj_small: "x < 32 \<Longrightarrow> y < 32 \<Longrightarrow> (of_nat x :: addr) = of_nat y \<longleftrightarrow> x = y"
proof -
  assume "x < 32" "y < 32"
  then have "unat (of_nat x :: addr) = x" "unat (of_nat y :: addr) = y" by (simp_all add: unat_of_nat)
  then show ?thesis by metis
qed

lemma same_fields:
  assumes "(i, j) \<in> {(0, 4), (0, 9), (0, 13), (4, 0), (4, 9), (4, 13), (9, 0), (9, 4), (9, 13), (13, 0), (13, 4), (13, 9)}"
  shows "load32 (store32 m (b + of_nat i) v) (b + of_nat j) = load32 m (b + of_nat j)"
proof (rule load32_store32_bytes)
  fix k l :: nat
  assume kl: "k < 4" "l < 4"
  have "b + of_nat i + of_nat k = b + of_nat j + of_nat l \<longleftrightarrow> (of_nat (i + k) :: addr) = of_nat (j + l)"
    by (simp add: add.assoc)
  also have "\<dots> \<longleftrightarrow> i + k = j + l"
    using kl assms by (intro of_nat_inj_small) auto
  finally show "b + of_nat i + of_nat k \<noteq> b + of_nat j + of_nat l" using kl assms by auto
qed


lemma same_fields_head:
  "load32 (m(b + 8 := w)) b = load32 m b" "load32 (m(b + 8 := w)) (b + 4) = load32 m (b + 4)"
  "load32 (m(b + 8 := w)) (b + 9) = load32 m (b + 9)" "load32 (m(b + 8 := w)) (b + 13) = load32 m (b + 13)"
  by (simp_all add: load32_def add.assoc)

text \<open>The header of a block as one value: use mark, size, previous and next block.\<close>

definition hdr :: "mem \<Rightarrow> addr \<Rightarrow> uint \<times> uint \<times> addr \<times> addr" where
  "hdr m b = (b_used m b, b_size m b, b_prev m b, b_next m b)"

lemmas field_defs = b_used_def b_size_def b_prev_def b_next_def set_used_def set_size_def
  set_is_head_def set_prev_def set_next_def

lemma hdr_fields:
  "b_used m b = fst (hdr m b)" "b_size m b = fst (snd (hdr m b))"
  "b_prev m b = fst (snd (snd (hdr m b)))" "b_next m b = snd (snd (snd (hdr m b)))"
  by (simp_all add: hdr_def)

lemma hdr_set_same [mem_simps]:
  "hdr (set_used b v m) b = (v, b_size m b, b_prev m b, b_next m b)"
  "hdr (set_size b v m) b = (b_used m b, v, b_prev m b, b_next m b)"
  "hdr (set_prev b v m) b = (b_used m b, b_size m b, v, b_next m b)"
  "hdr (set_next b v m) b = (b_used m b, b_size m b, b_prev m b, v)"
  "hdr (set_is_head b w m) b = hdr m b"
  using same_fields [of 0 4 m b v] same_fields [of 0 9 m b v] same_fields [of 0 13 m b v]
    same_fields [of 4 0 m b v] same_fields [of 4 9 m b v] same_fields [of 4 13 m b v]
    same_fields [of 9 0 m b v] same_fields [of 9 4 m b v] same_fields [of 9 13 m b v]
    same_fields [of 13 0 m b v] same_fields [of 13 4 m b v] same_fields [of 13 9 m b v]
  by (simp_all add: hdr_def field_defs same_fields_head)

lemma hdr_set_apart [mem_simps]:
  assumes "apart 17 c b"
  shows "hdr (set_used c v m) b = hdr m b" "hdr (set_size c v m) b = hdr m b"
    "hdr (set_prev c v m) b = hdr m b" "hdr (set_next c v m) b = hdr m b"
    "hdr (set_is_head c w m) b = hdr m b"
  using apart_fields(1) [OF assms, of 0 0] apart_fields(1) [OF assms, of 0 4] apart_fields(1) [OF assms, of 0 9]
    apart_fields(1) [OF assms, of 0 13] apart_fields(1) [OF assms, of 4 0] apart_fields(1) [OF assms, of 4 4]
    apart_fields(1) [OF assms, of 4 9] apart_fields(1) [OF assms, of 4 13] apart_fields(1) [OF assms, of 9 0]
    apart_fields(1) [OF assms, of 9 4] apart_fields(1) [OF assms, of 9 9] apart_fields(1) [OF assms, of 9 13]
    apart_fields(1) [OF assms, of 13 0] apart_fields(1) [OF assms, of 13 4] apart_fields(1) [OF assms, of 13 9]
    apart_fields(1) [OF assms, of 13 13]
    apart_fields(2) [OF assms, of 0 0] apart_fields(2) [OF assms, of 0 4] apart_fields(2) [OF assms, of 0 9]
    apart_fields(2) [OF assms, of 0 13]
  by (simp_all add: hdr_def field_defs)

text \<open>Bytes outside a header keep their values.\<close>

definition in_hdr :: "addr \<Rightarrow> addr \<Rightarrow> bool" where
  "in_hdr b x \<longleftrightarrow> (\<exists>i < 17. x = b + of_nat i)"

lemma set_outside [frame_simps]:
  assumes "\<not> in_hdr b x"
  shows "set_used b v m x = m x" "set_size b v m x = m x" "set_prev b v m x = m x"
    "set_next b v m x = m x" "set_is_head b w m x = m x"
proof -
  have n: "x \<noteq> b + of_nat i" if "i < 17" for i using assms that by (auto simp: in_hdr_def)
  have o: "store32 m (b + of_nat j) v x = m x" if "j \<le> 13" for j
    using n [of "j + _"] that by (intro store32_frame) (simp add: add.assoc)
  show "set_used b v m x = m x" "set_size b v m x = m x" "set_prev b v m x = m x" "set_next b v m x = m x"
    using o [of 0] o [of 4] o [of 9] o [of 13] by (simp_all add: field_defs)
  show "set_is_head b w m x = m x" using n [of 8] by (simp add: field_defs)
qed

section \<open>The free list\<close>

text \<open>The blocks \<open>bs\<close> from \<open>p\<close> on are linked both ways; \<open>pv\<close> comes before, \<open>q\<close> after them.\<close>

fun flseg :: "mem \<Rightarrow> addr \<Rightarrow> addr \<Rightarrow> addr list \<Rightarrow> addr \<Rightarrow> bool" where
  "flseg m pv p [] q \<longleftrightarrow> p = q"
| "flseg m pv p (b # bs) q \<longleftrightarrow> p = b \<and> b \<noteq> 0 \<and> b_used m b = FREE \<and> b_prev m b = pv \<and>
     flseg m b (b_next m b) bs q"

definition last_or :: "addr \<Rightarrow> addr list \<Rightarrow> addr" where
  "last_or pv bs = (if bs = [] then pv else last bs)"

lemma last_or_simps [simp]: "last_or pv [] = pv" "last_or pv (b # bs) = last_or b bs"
  by (simp_all add: last_or_def)

lemma flseg_append:
  "flseg m pv p (as @ bs) q \<longleftrightarrow> (\<exists>r. flseg m pv p as r \<and> flseg m (last_or pv as) r bs q)"
  by (induction as arbitrary: pv p) auto

lemma flseg_cong:
  "(\<And>b. b \<in> set bs \<Longrightarrow> hdr m' b = hdr m b) \<Longrightarrow> flseg m' pv p bs q = flseg m pv p bs q"
  by (induction bs arbitrary: pv p) (auto simp: hdr_fields)

text \<open>The last block of a segment is given another successor.\<close>

lemma flseg_relink_end:
  assumes "flseg m pv p bs q" "distinct bs"
    and "\<And>b. b \<in> set bs \<Longrightarrow> b \<noteq> last bs \<Longrightarrow> hdr m' b = hdr m b"
    and "bs \<noteq> [] \<Longrightarrow> hdr m' (last bs) = (b_used m (last bs), s, b_prev m (last bs), q')"
  shows "flseg m' pv (if bs = [] then q' else p) bs q'"
  using assms
proof (induction bs arbitrary: pv p)
  case (Cons b bs)
  show ?case
  proof (cases "bs = []")
    case True
    then show ?thesis using Cons.prems by (simp add: hdr_fields)
  next
    case False
    then have "b \<noteq> last bs" using Cons.prems(2) by auto
    then have "hdr m' b = hdr m b" using Cons.prems(3) False by simp
    moreover have "flseg m' b (if bs = [] then q' else b_next m b) bs q'"
      using Cons.prems False by (intro Cons.IH) auto
    ultimately show ?thesis using Cons.prems(1) False by (simp add: hdr_fields)
  qed
qed simp

text \<open>The first block of a segment is given another predecessor.\<close>

lemma flseg_relink_front:
  assumes "flseg m pv p bs q" "\<And>b. b \<in> set (tl bs) \<Longrightarrow> hdr m' b = hdr m b"
    and "bs \<noteq> [] \<Longrightarrow> hdr m' (hd bs) = (b_used m (hd bs), s, pv', b_next m (hd bs))"
  shows "flseg m' pv' p bs q"
proof (cases bs)
  case (Cons b cs)
  then have "flseg m' b (b_next m b) cs q = flseg m b (b_next m b) cs q"
    using assms(2) by (intro flseg_cong) simp
  then show ?thesis using assms(1,3) Cons by (simp add: hdr_fields)
qed (use assms in simp)


section \<open>The heap as a list of blocks\<close>

definition extent :: "mem \<Rightarrow> addr \<Rightarrow> int set" where
  "extent m b = {uint b ..< uint b + uint (b_size m b)}"

text \<open>The free list \<open>bs\<close>: linked both ways from \<open>fl\<close>, every block with room for its header,
  no block across the end of memory, no two overlapping.\<close>

definition free_blocks :: "mem \<Rightarrow> addr \<Rightarrow> addr list \<Rightarrow> bool" where
  "free_blocks m fl bs \<longleftrightarrow> flseg m 0 fl bs 0 \<and> distinct bs
     \<and> (\<forall>b \<in> set bs. 17 \<le> uint (b_size m b) \<and> uint b + uint (b_size m b) \<le> 2 ^ 32)
     \<and> (\<forall>b \<in> set bs. \<forall>c \<in> set bs. b \<noteq> c \<longrightarrow> extent m b \<inter> extent m c = {})"

lemma far_differences:
  assumes "17 \<le> \<bar>x - y\<bar>" "0 \<le> x" "x \<le> 2 ^ 32 - 17" "0 \<le> y" "y \<le> 2 ^ 32 - 17"
  shows "17 \<le> uint (word_of_int (x - y) :: addr)"
  using uint_diff_cases [of x y] assms by auto

lemma apart_of_ints:
  assumes "17 \<le> \<bar>uint b - uint c\<bar>" "uint b \<le> 2 ^ 32 - 17" "uint c \<le> 2 ^ 32 - 17"
  shows "apart 17 (b :: addr) c"
proof -
  have "17 \<le> uint (word_of_int (uint b - uint c) :: addr)" "17 \<le> uint (word_of_int (uint c - uint b) :: addr)"
    using assms by (intro far_differences; simp add: abs_minus_commute)+
  moreover have "b - c = word_of_int (uint b - uint c)" "c - b = word_of_int (uint c - uint b)" by simp_all
  ultimately have "17 \<le> uint (b - c)" "17 \<le> uint (c - b)" by metis+
  then have "nat 17 \<le> nat (uint (b - c))" "nat 17 \<le> nat (uint (c - b))" by linarith+
  then show ?thesis by (simp add: apart_def)
qed

lemma disjoint_extents_apart:
  assumes "extent m b \<inter> extent m' c = {}" "17 \<le> uint (b_size m b)" "17 \<le> uint (b_size m' c)"
    and "uint b + uint (b_size m b) \<le> 2 ^ 32" "uint c + uint (b_size m' c) \<le> 2 ^ 32"
  shows "apart 17 b c"
proof (rule apart_of_ints)
  have "uint c \<notin> extent m b" "uint b \<notin> extent m' c" using assms by (auto simp: extent_def)
  then show "17 \<le> \<bar>uint b - uint c\<bar>" using assms(2,3) by (auto simp: extent_def)
qed (use assms in auto)

lemma free_blocks_apart:
  assumes "free_blocks m fl bs" "b \<in> set bs" "c \<in> set bs" "b \<noteq> c"
  shows "apart 17 b c"
  using assms disjoint_extents_apart [of m b m c] by (auto simp: free_blocks_def)

section \<open>First fit\<close>

lemma find_fit_found:
  assumes "flseg m pv p (as @ b # cs) q" "\<forall>a \<in> set as. b_size m a < sz" "sz \<le> b_size m b"
  shows "find_fit p prev sz m = Some (b, last_or prev as)"
  using assms
proof (induction as arbitrary: pv p prev)
  case Nil
  then show ?case by (simp add: find_fit.simps)
next
  case (Cons a as)
  then have "find_fit p prev sz m = find_fit (b_next m a) a sz m"
    by (subst find_fit.simps) (auto dest: leD)
  also have "\<dots> = Some (b, last_or a as)" using Cons by (intro Cons.IH) auto
  finally show ?case by simp
qed

lemma find_fit_none:
  assumes "flseg m pv p bs 0" "\<forall>b \<in> set bs. b_size m b < sz"
  shows "find_fit p prev sz m = Some (0, last_or prev bs)"
  using assms
proof (induction bs arbitrary: pv p prev)
  case Nil
  then show ?case by (simp add: find_fit.simps)
next
  case (Cons b bs)
  then have "find_fit p prev sz m = find_fit (b_next m b) b sz m"
    by (subst find_fit.simps) (auto dest: leD)
  moreover have "find_fit (b_next m b) b sz m = Some (0, last_or b bs)"
    using Cons by (intro Cons.IH) auto
  ultimately show ?case using Cons.prems(1) by simp
qed

section \<open>Unlinking\<close>

lemma last_or_last: "as \<noteq> [] \<Longrightarrow> last_or p as = last as"
  by (simp add: last_or_def)

lemma flseg_nonzero: "flseg m pv p bs q \<Longrightarrow> b \<in> set bs \<Longrightarrow> b \<noteq> 0 \<and> b_used m b = FREE"
  by (induction bs arbitrary: pv p) auto

lemma flseg_first: "flseg m pv p bs 0 \<Longrightarrow> p = (if bs = [] then 0 else hd bs)"
  by (cases bs) auto

lemma flseg_hd: "flseg m pv p bs q \<Longrightarrow> bs \<noteq> [] \<Longrightarrow> b_prev m (hd bs) = pv"
  by (cases bs) auto

lemma flseg_last_next: "flseg m pv p bs q \<Longrightarrow> bs \<noteq> [] \<Longrightarrow> b_next m (last bs) = q"
  by (induction bs arbitrary: pv p) auto

lemma set_tl_subset: "set (tl xs) \<subseteq> set xs"
  by (cases xs) auto

lemma unlink_links:
  assumes seg: "flseg m 0 fl (as @ b # cs) 0" and dist: "distinct (as @ b # cs)"
    and apart: "\<And>x y. x \<in> set (as @ b # cs) \<Longrightarrow> y \<in> set (as @ b # cs) \<Longrightarrow> x \<noteq> y \<Longrightarrow> apart 17 x y"
    and run: "unlink_block b fl (set_used b USED m) = (m', fl')"
  shows "flseg m' 0 fl' (as @ cs) 0" "hdr m' b = (USED, b_size m b, b_prev m b, b_next m b)"
    "\<And>c. c \<in> set (as @ cs) \<Longrightarrow> b_size m' c = b_size m c"
    "\<And>x. (\<And>c. c \<in> set (as @ b # cs) \<Longrightarrow> \<not> in_hdr c x) \<Longrightarrow> m' x = m x"
proof -
  let ?m0 = "set_used b USED m" and ?pb = "last_or 0 as" and ?nb = "if cs = [] then 0 else hd cs"
  from seg obtain r where a: "flseg m 0 fl as b" and pb: "b_prev m b = ?pb"
    and c: "flseg m b (b_next m b) cs 0" and b0: "b \<noteq> 0"
    by (auto simp: flseg_append)
  have nb: "b_next m b = ?nb" using flseg_first [OF c] .
  have m0: "hdr ?m0 b = (USED, b_size m b, ?pb, ?nb)" using pb nb by (simp add: mem_simps)
  have m0': "hdr ?m0 x = hdr m x" if "x \<in> set (as @ cs)" for x
    using apart [of b x] that dist by (intro hdr_set_apart) auto
  have as0: "as \<noteq> [] \<Longrightarrow> ?pb \<noteq> 0 \<and> last as \<in> set as"
    using flseg_nonzero [OF a] by (auto simp: last_or_last)
  have cs0: "cs \<noteq> [] \<Longrightarrow> ?nb \<noteq> 0 \<and> hd cs \<in> set cs"
    using flseg_nonzero [OF c] by auto
  have ab: "as \<noteq> [] \<Longrightarrow> apart 17 (last as) b" "cs \<noteq> [] \<Longrightarrow> apart 17 (hd cs) b"
    "as \<noteq> [] \<Longrightarrow> cs \<noteq> [] \<Longrightarrow> apart 17 (last as) (hd cs)" "as \<noteq> [] \<Longrightarrow> cs \<noteq> [] \<Longrightarrow> apart 17 (hd cs) (last as)"
  proof -
    have "as \<noteq> [] \<Longrightarrow> cs \<noteq> [] \<Longrightarrow> last as \<noteq> hd cs"
      using dist as0 cs0 by (metis Un_iff distinct_append disjoint_iff list.set_intros(2))
    then show "as \<noteq> [] \<Longrightarrow> apart 17 (last as) b" "cs \<noteq> [] \<Longrightarrow> apart 17 (hd cs) b"
      "as \<noteq> [] \<Longrightarrow> cs \<noteq> [] \<Longrightarrow> apart 17 (last as) (hd cs)" "as \<noteq> [] \<Longrightarrow> cs \<noteq> [] \<Longrightarrow> apart 17 (hd cs) (last as)"
      using as0 cs0 dist by (auto intro!: apart)
  qed
  have keep_b: "as \<noteq> [] \<Longrightarrow> hdr (set_next (last as) v ?m0) b = hdr ?m0 b" for v
    using ab by (simp add: hdr_set_apart)
  have fl': "fl' = (if as = [] then ?nb else fl)"
    and m': "m' = (let m1 = (if as = [] then ?m0 else set_next (last as) ?nb ?m0)
       in if cs = [] then m1 else set_prev (hd cs) ?pb m1)"
    using run m0 as0 cs0 keep_b
    by (auto simp: unlink_block_def hdr_def Let_def last_or_last split: if_splits)
  show "hdr m' b = (USED, b_size m b, b_prev m b, b_next m b)"
    using m0 pb nb ab by (simp add: m' Let_def hdr_set_apart)
  have other: "hdr m' x = hdr m x" if "x \<in> set (as @ cs)" "as \<noteq> [] \<Longrightarrow> x \<noteq> last as" "cs \<noteq> [] \<Longrightarrow> x \<noteq> hd cs" for x
  proof -
    have "as \<noteq> [] \<Longrightarrow> apart 17 (last as) x" "cs \<noteq> [] \<Longrightarrow> apart 17 (hd cs) x"
      using that as0 cs0 by (auto intro!: apart)
    then show ?thesis using m0' [OF that(1)] by (simp add: m' Let_def hdr_set_apart)
  qed
  have hlast: "hdr m' (last as) = (b_used m (last as), b_size m (last as), b_prev m (last as), ?nb)" if "as \<noteq> []"
    using that as0 m0' [of "last as"] ab by (simp add: m' Let_def hdr_set_apart hdr_set_same hdr_fields)
  have hhd: "hdr m' (hd cs) = (b_used m (hd cs), b_size m (hd cs), ?pb, b_next m (hd cs))" if "cs \<noteq> []"
    using that cs0 m0' [of "hd cs"] ab by (simp add: m' Let_def hdr_set_apart hdr_set_same hdr_fields)
  have disj: "set as \<inter> set cs = {}" "distinct cs" using dist by auto
  have hd_notin: "x \<noteq> hd cs" if "x \<in> set as" "cs \<noteq> []" for x
    using that disj(1) cs0 by blast
  have last_notin: "x \<noteq> last as" if "x \<in> set cs" "as \<noteq> []" for x
    using that disj(1) as0 by blast
  have tl_notin: "x \<noteq> hd cs" if "x \<in> set (tl cs)" for x
    using that disj(2) by (cases cs) auto
  have "flseg m' 0 (if as = [] then ?nb else fl) as ?nb"
    using dist other hlast hd_notin by (intro flseg_relink_end [OF a]) auto
  moreover have "flseg m' ?pb ?nb cs 0"
  proof (rule flseg_relink_front [where pv = b and m = m and s = "b_size m (hd cs)"])
    show "flseg m b ?nb cs 0" using c nb by simp
    show "hdr m' x = hdr m x" if "x \<in> set (tl cs)" for x
    proof -
      have x: "x \<in> set cs" using that set_tl_subset [of cs] by blast
      show ?thesis using x last_notin [OF x] tl_notin [OF that] by (intro other) simp_all
    qed
  qed (rule hhd)
  ultimately show "flseg m' 0 fl' (as @ cs) 0" by (auto simp: flseg_append fl')
  show "b_size m' x = b_size m x" if "x \<in> set (as @ cs)" for x
    using other [OF that] hlast hhd by (auto simp: hdr_def)
  show "m' x = m x" if "\<And>c. c \<in> set (as @ b # cs) \<Longrightarrow> \<not> in_hdr c x" for x
    using that as0 cs0 by (simp add: m' Let_def frame_simps)
qed

lemma free_blocks_links:
  assumes "free_blocks m fl bs"
  shows "flseg m 0 fl bs 0" "distinct bs"
    "x \<in> set bs \<Longrightarrow> y \<in> set bs \<Longrightarrow> x \<noteq> y \<Longrightarrow> apart 17 x y"
  using assms free_blocks_apart [OF assms] by (auto simp: free_blocks_def)

text \<open>Links and sizes determine whether a list of blocks is the free list.\<close>

lemma free_blocksI:
  assumes "flseg m' 0 fl' bs' 0" "free_blocks m fl bs" "set bs' \<subseteq> set bs" "distinct bs'"
    and "\<And>c. c \<in> set bs' \<Longrightarrow> b_size m' c = b_size m c"
  shows "free_blocks m' fl' bs'"
proof -
  have "extent m' c = extent m c" if "c \<in> set bs'" for c using assms(5) that by (simp add: extent_def)
  then show ?thesis using assms unfolding free_blocks_def by (metis subsetD)
qed

lemma unlink_free_blocks:
  assumes ok: "free_blocks m fl (as @ b # cs)" and run: "unlink_block b fl (set_used b USED m) = (m', fl')"
  shows "free_blocks m' fl' (as @ cs)" "b_used m' b = USED" "b_size m' b = b_size m b"
    "\<And>c. c \<in> set (as @ cs) \<Longrightarrow> b_size m' c = b_size m c"
    "\<And>x. (\<And>c. c \<in> set (as @ b # cs) \<Longrightarrow> \<not> in_hdr c x) \<Longrightarrow> m' x = m x"
proof -
  note l = unlink_links [OF free_blocks_links(1,2) [OF ok] free_blocks_links(3) [OF ok] run]
  show "b_used m' b = USED" "b_size m' b = b_size m b" using l(2) by (simp_all add: hdr_def)
  show sz: "\<And>c. c \<in> set (as @ cs) \<Longrightarrow> b_size m' c = b_size m c" by (rule l(3))
  show "\<And>x. (\<And>c. c \<in> set (as @ b # cs) \<Longrightarrow> \<not> in_hdr c x) \<Longrightarrow> m' x = m x" by (rule l(4))
  show "free_blocks m' fl' (as @ cs)"
    using free_blocks_links(2) [OF ok] by (intro free_blocksI [OF l(1) ok _ _ sz]) auto
qed

section \<open>Splitting\<close>

lemma uint_add_small:
  "uint x + uint y < 2 ^ 32 \<Longrightarrow> uint (x + y :: addr) = uint x + uint y"
  by (simp add: uint_plus_simple_iff [symmetric] word_le_def uint_word_ariths mod_pos_pos_trivial)

lemma uint_sub_small: "uint y \<le> uint x \<Longrightarrow> uint (x - y :: addr) = uint x - uint y"
  by (simp add: uint_sub_lem)

lemma split_place:
  assumes ok: "free_blocks m fl (as @ b # cs)" and fit: "17 \<le> uint sz" "uint sz + 17 < uint (b_size m b)"
  defines "new \<equiv> b + sz"
  shows "uint new = uint b + uint sz" "new \<noteq> 0" "new \<notin> set (as @ b # cs)"
    "c \<in> set (as @ b # cs) \<Longrightarrow> apart 17 c new" "c \<in> set (as @ b # cs) \<Longrightarrow> apart 17 new c"
    "\<not> b_size m b \<le> sz + MEM_HSIZE"
proof -
  have b: "17 \<le> uint (b_size m b)" "uint b + uint (b_size m b) \<le> 2 ^ 32"
    using ok by (auto simp: free_blocks_def)
  show u: "uint new = uint b + uint sz" unfolding new_def using b fit by (intro uint_add_small) auto
  have "0 < uint new" using u fit uint_ge_0 [of b] by linarith
  then show "new \<noteq> 0" by auto
  have ap: "apart 17 c new" if c: "c \<in> set (as @ b # cs)" for c
  proof (rule apart_of_ints)
    have cs: "17 \<le> uint (b_size m c)" "uint c + uint (b_size m c) \<le> 2 ^ 32"
      using ok c by (auto simp: free_blocks_def)
    show "uint c \<le> 2 ^ 32 - 17" "uint new \<le> 2 ^ 32 - 17" using cs b u fit by linarith+
    show "17 \<le> \<bar>uint c - uint new\<bar>"
    proof (cases "c = b")
      case True
      then show ?thesis using u fit by simp
    next
      case False
      have "extent m b \<inter> extent m c = {}" using ok c False by (auto simp: free_blocks_def)
      moreover have "uint b \<in> extent m b" "uint c \<in> extent m c" using b cs by (auto simp: extent_def)
      ultimately have "uint b \<notin> extent m c" "uint c \<notin> extent m b" by blast+
      then show ?thesis using u fit cs by (auto simp: extent_def)
    qed
  qed
  then show "c \<in> set (as @ b # cs) \<Longrightarrow> apart 17 c new" "c \<in> set (as @ b # cs) \<Longrightarrow> apart 17 new c" for c
    by (simp_all add: apart_sym)
  show "new \<notin> set (as @ b # cs)"
  proof
    assume "new \<in> set (as @ b # cs)"
    from ap [OF this] show False by (simp add: apart_def)
  qed
  have "uint sz + 17 < 2 ^ 32" using fit b uint_ge_0 [of b] by linarith
  then have "uint (sz + MEM_HSIZE) = uint sz + 17"
    using uint_add_small [of sz MEM_HSIZE] by (simp add: MEM_HSIZE_def)
  then show "\<not> b_size m b \<le> sz + MEM_HSIZE" using fit by (simp add: word_le_def)
qed

lemma split_free_blocks:
  assumes ok: "free_blocks m fl (as @ b # cs)" and fit: "17 \<le> uint sz" "uint sz + 17 < uint (b_size m b)"
  shows "free_blocks (split_block b sz m) fl (as @ b # (b + sz) # cs)"
    "b_size (split_block b sz m) b = sz"
    "b_size (split_block b sz m) (b + sz) = b_size m b - sz"
    "\<And>c. c \<in> set (as @ cs) \<Longrightarrow> b_size (split_block b sz m) c = b_size m c"
    "\<And>x. (\<And>c. c \<in> set (as @ b # (b + sz) # cs) \<Longrightarrow> \<not> in_hdr c x) \<Longrightarrow> split_block b sz m x = m x"
proof -
  let ?new = "b + sz" and ?m' = "split_block b sz m"
  note pl = split_place [OF ok fit]
  note ap = free_blocks_links(3) [OF ok]
  have dist: "distinct (as @ b # cs)" and seg: "flseg m 0 fl (as @ b # cs) 0"
    using free_blocks_links [OF ok] by auto
  from seg obtain r where a: "flseg m 0 fl as b" and pb: "b_prev m b = last_or 0 as" "b_used m b = FREE"
    and c: "flseg m b (b_next m b) cs 0" and b0: "b \<noteq> 0"
    by (auto simp: flseg_append)
  let ?nb = "if cs = [] then 0 else hd cs"
  have nb: "b_next m b = ?nb" using flseg_first [OF c] .
  have cs0: "cs \<noteq> [] \<Longrightarrow> hd cs \<noteq> 0 \<and> hd cs \<in> set cs \<and> hd cs \<noteq> b"
    using flseg_nonzero [OF c] dist by auto
  have apb: "apart 17 b ?new" "apart 17 ?new b" "cs \<noteq> [] \<Longrightarrow> apart 17 (hd cs) ?new" "cs \<noteq> [] \<Longrightarrow> apart 17 ?new (hd cs)"
    "cs \<noteq> [] \<Longrightarrow> apart 17 (hd cs) b" "cs \<noteq> [] \<Longrightarrow> apart 17 b (hd cs)"
    using pl(4,5) [of b] pl(4,5) [of "hd cs"] cs0 ap [of b "hd cs"] ap [of "hd cs" b] by auto
  let ?h = "\<lambda>x. hdr ?m' x"
  have body: "?m' = (let m1 = set_next ?new ?nb (set_prev ?new b (set_size ?new (b_size m b - sz) m));
      m2 = (if cs = [] then m1 else set_prev (hd cs) ?new m1)
      in set_next b ?new (set_size b sz (set_is_head ?new 0 (set_used ?new FREE m2))))"
  proof -
    obtain k where h: "hdr m b = (FREE, k, last_or 0 as, ?nb)" using pb nb by (simp add: hdr_def)
    show ?thesis
      using pl(6) cs0 apb by (simp add: split_block_def Let_def hdr_fields hdr_set_apart hdr_set_same h not_le)
  qed
  have new: "hdr ?m' ?new = (FREE, b_size m b - sz, b, ?nb)"
    unfolding body using apb by (simp add: Let_def hdr_set_apart hdr_set_same hdr_fields)
  have hb: "hdr ?m' b = (FREE, sz, last_or 0 as, ?new)"
    unfolding body using apb pb by (simp add: Let_def hdr_set_apart hdr_set_same hdr_fields)
  have hhd: "hdr ?m' (hd cs) = (b_used m (hd cs), b_size m (hd cs), ?new, b_next m (hd cs))" if "cs \<noteq> []"
    unfolding body using apb that by (simp add: Let_def hdr_set_apart hdr_set_same hdr_fields)
  have other: "hdr ?m' x = hdr m x" if "x \<in> set (as @ cs)" "cs \<noteq> [] \<Longrightarrow> x \<noteq> hd cs" for x
  proof -
    have "apart 17 b x" "apart 17 ?new x" "cs \<noteq> [] \<Longrightarrow> apart 17 (hd cs) x"
      using that pl(5) [of x] ap [of b x] ap [of "hd cs" x] dist cs0 by auto
    then show ?thesis unfolding body by (simp add: Let_def hdr_set_apart)
  qed
  have disj: "set as \<inter> set cs = {}" "distinct cs" using dist by auto
  have as_other: "hdr ?m' x = hdr m x" if "x \<in> set as" for x
    using that disj cs0 by (intro other) auto
  have tl_other: "hdr ?m' x = hdr m x" if "x \<in> set (tl cs)" for x
    using that disj set_tl_subset [of cs] by (intro other) (cases cs, auto)+
  have "flseg ?m' 0 fl as b" using a flseg_cong [of as ?m' m] as_other by simp
  moreover have "flseg ?m' ?new ?nb cs 0"
  proof (rule flseg_relink_front [where pv = b and m = m and s = "b_size m (hd cs)"])
    show "flseg m b ?nb cs 0" using c nb by simp
  qed (fact tl_other, fact hhd)
  ultimately have links: "flseg ?m' 0 fl (as @ b # ?new # cs) 0"
    using new hb b0 pl(2) by (auto simp: flseg_append hdr_fields)
  show sb: "b_size ?m' b = sz" and sn: "b_size ?m' ?new = b_size m b - sz"
    using new hb by (simp_all add: hdr_def)
  show so: "b_size ?m' c = b_size m c" if "c \<in> set (as @ cs)" for c
    using other [OF that] hhd by (auto simp: hdr_def)
  show "?m' x = m x" if "\<And>c. c \<in> set (as @ b # ?new # cs) \<Longrightarrow> \<not> in_hdr c x" for x
    unfolding body using that cs0 by (simp add: Let_def frame_simps)
  have blk: "17 \<le> uint (b_size m c)" "uint c + uint (b_size m c) \<le> 2 ^ 32" if "c \<in> set (as @ b # cs)" for c
    using ok that by (auto simp: free_blocks_def)
  have usn: "uint (b_size m b - sz) = uint (b_size m b) - uint sz"
    using fit by (intro uint_sub_small) simp
  have exb: "extent ?m' b \<subseteq> extent m b" "extent ?m' ?new \<subseteq> extent m b" "extent ?m' b \<inter> extent ?m' ?new = {}"
    using sb sn usn pl(1) fit by (auto simp: extent_def)
  have exo: "extent ?m' c = extent m c" if "c \<in> set (as @ cs)" for c
    using so [OF that] by (simp add: extent_def)
  have exd: "extent m c \<inter> extent m d = {}" if "c \<in> set (as @ b # cs)" "d \<in> set (as @ b # cs)" "c \<noteq> d" for c d
    using ok that unfolding free_blocks_def by meson
  have pair: "extent ?m' c \<inter> extent ?m' d = {}"
    if "c \<in> set (as @ cs)" "d \<in> {b, ?new}" for c d
    using exd [of c b] exb exo [OF that(1)] that dist by auto
  show "free_blocks ?m' fl (as @ b # ?new # cs)"
    unfolding free_blocks_def
  proof (intro conjI ballI impI)
    show "distinct (as @ b # ?new # cs)" using dist pl(3) by auto
    fix c assume c: "c \<in> set (as @ b # ?new # cs)"
    then consider "c = b" | "c = ?new" | "c \<in> set (as @ cs)" by auto
    then have "17 \<le> uint (b_size ?m' c) \<and> uint c + uint (b_size ?m' c) \<le> 2 ^ 32"
    proof cases
      case 1
      then show ?thesis using sb fit blk [of b] by simp
    next
      case 2
      then show ?thesis using sn usn pl(1) fit blk [of b] by simp
    next
      case 3
      then show ?thesis using so [OF 3] blk [of c] by auto
    qed
    then show "17 \<le> uint (b_size ?m' c)" "uint c + uint (b_size ?m' c) \<le> 2 ^ 32" by auto
    fix d assume d: "d \<in> set (as @ b # ?new # cs)" and cd: "c \<noteq> d"
    show "extent ?m' c \<inter> extent ?m' d = {}"
    proof (cases "c \<in> set (as @ cs)")
      case True
      then show ?thesis using pair [OF True, of d] exd [of c d] exo d cd by (cases "d \<in> set (as @ cs)") auto
    next
      case False
      then have c': "c \<in> {b, ?new}" using c by auto
      show ?thesis
      proof (cases "d \<in> set (as @ cs)")
        case True
        then show ?thesis using pair [OF True c'] by (simp add: inf_commute)
      next
        case False
        then show ?thesis using c' d cd exb(3) by (auto simp: inf_commute)
      qed
    qed
  qed (rule links)
qed


section \<open>The heap's contract\<close>

lemma sum_free_blocks:
  assumes ok: "free_blocks m fl (as @ b # cs)" and fits: "uint sz + 17 \<le> uint (b_size m b)"
  defines "n \<equiv> sz + MEM_HSIZE"
  shows "uint n = uint sz + 17" "n \<le> b_size m b" "b \<noteq> 0"
proof -
  have "uint (b_size m b) < 2 ^ 32" using uint_lt2p [of "b_size m b"] by simp
  then show u: "uint n = uint sz + 17"
    unfolding n_def using fits uint_add_small [of sz MEM_HSIZE] by (simp add: MEM_HSIZE_def)
  then show "n \<le> b_size m b" using fits by (simp add: word_le_def)
  show "b \<noteq> 0" using flseg_nonzero [OF free_blocks_links(1) [OF ok], of b] by simp
qed

lemma take_block_exact:
  assumes ok: "free_blocks m fl (as @ b # cs)" and n: "\<not> uint n + 17 < uint (b_size m b)" "n \<le> b_size m b"
    and big: "uint (b_size m b) \<le> 2 ^ 32 - 34"
  shows "split_block b n m = m"
proof -
  have "uint n + 17 < 2 ^ 32" using n(2) big by (simp add: word_le_def)
  then have "uint (n + MEM_HSIZE) = uint n + 17" using uint_add_small [of n MEM_HSIZE] by (simp add: MEM_HSIZE_def)
  then have "b_size m b \<le> n + MEM_HSIZE" using n(1) by (simp add: word_le_def)
  then show ?thesis by (simp add: split_block_def not_less [symmetric])
qed

lemma kmalloc_takes_first:
  assumes ok: "free_blocks (pmem s) (free_list s) (as @ b # cs)"
    and small: "\<forall>a \<in> set as. uint (b_size (pmem s) a) < uint sz + 17"
    and fits: "uint sz + 17 \<le> uint (b_size (pmem s) b)"
    and sizes: "uint sz \<le> 8 * 4096 - 17" "uint (b_size (pmem s) b) \<le> 2 ^ 32 - 34"
  defines "n \<equiv> sz + 17"
  defines "rest \<equiv> (if uint sz + 34 < uint (b_size (pmem s) b) then [b + n] else [])"
  shows "\<exists>s'. kmalloc sz s = Some (s', b + 17)
    \<and> b_used (pmem s') b = USED
    \<and> b_size (pmem s') b = (if rest = [] then b_size (pmem s) b else n)
    \<and> free_blocks (pmem s') (free_list s') (as @ rest @ cs)
    \<and> (\<forall>r \<in> set rest. b_size (pmem s') r = b_size (pmem s) b - n)
    \<and> (\<forall>c \<in> set (as @ cs). b_size (pmem s') c = b_size (pmem s) c)
    \<and> (\<forall>x. (\<forall>c \<in> set (as @ b # rest @ cs). \<not> in_hdr c x) \<longrightarrow> pmem s' x = pmem s x)
    \<and> s' = s\<lparr>pmem := pmem s', free_list := free_list s'\<rparr>"
proof -
  let ?m = "pmem s" and ?fl = "free_list s"
  have n_eq: "n = sz + MEM_HSIZE" by (simp add: n_def MEM_HSIZE_def)
  note nn = sum_free_blocks [OF ok fits, folded n_eq]
  have find: "find_fit ?fl ?fl n ?m = Some (b, last_or ?fl as)"
    using small nn(1,2) by (intro find_fit_found [OF free_blocks_links(1) [OF ok]]) (auto simp: word_less_def)
  have guard: "\<not> (n < 8 \<or> n > word_of_int (8 * PAGE_SIZE))"
  proof -
    have "\<not> uint n < 8" "\<not> uint n > 8 * 4096" using sizes(1) nn(1) uint_ge_0 [of sz] by linarith+
    then show ?thesis by (simp add: word_less_def PAGE_SIZE_def)
  qed
  obtain m' fl' where u: "unlink_block b ?fl (set_used b USED (split_block b n ?m)) = (m', fl')" by fastforce
  have run: "kmalloc sz s = Some (s\<lparr>pmem := m', free_list := fl'\<rparr>, b + 17)"
    using guard find nn(3) u unfolding kmalloc_def
    by (simp add: n_eq [symmetric] take_block_def Let_def) (simp add: MEM_HSIZE_def)
  show ?thesis
  proof (cases "uint sz + 34 < uint (b_size ?m b)")
    case True
    have f: "17 \<le> uint n" "uint n + 17 < uint (b_size ?m b)" using True nn(1) by auto
    note sp = split_free_blocks [OF ok f]
    note ul = unlink_free_blocks [OF sp(1) u]
    have "free_blocks m' fl' (as @ rest @ cs)" using ul(1) True by (simp add: rest_def)
    moreover have "b_size m' b = n" "b_used m' b = USED" using ul(2,3) sp(2) by auto
    moreover have "\<forall>r \<in> set rest. b_size m' r = b_size ?m b - n" using ul(4) sp(3) True by (simp add: rest_def)
    moreover have "\<forall>c \<in> set (as @ cs). b_size m' c = b_size ?m c" using ul(4) sp(4) by auto
    moreover have "m' x = ?m x" if "\<forall>c \<in> set (as @ b # rest @ cs). \<not> in_hdr c x" for x
      using ul(5) [of x] sp(5) [of x] that True by (simp add: rest_def)
    ultimately show ?thesis using run True by (simp add: rest_def)
  next
    case False
    have whole: "split_block b n ?m = ?m"
      using False nn(1,2) sizes(2) by (intro take_block_exact [OF ok]) auto
    note ul = unlink_free_blocks [OF ok u [unfolded whole]]
    have "m' x = ?m x" if "\<forall>c \<in> set (as @ b # cs). \<not> in_hdr c x" for x using ul(5) [of x] that by simp
    then show ?thesis using run ul False by (simp add: rest_def)
  qed
qed

text \<open>C8: First fit.  On a well-formed free list \<open>kmalloc\<close> returns the memory behind the
  header of the first block that is large enough and marks that block used.  A block with
  more than a header to spare is split: the request stays in front and the rest takes its
  place in the free list; otherwise the block goes out whole.  The list stays well formed, the
  other blocks keep their sizes, and no byte outside the headers of the list is written.\<close>

theorem kmalloc_first_fit:
  assumes ok: "free_blocks (pmem s) (free_list s) (as @ b # cs)"
    and small: "\<forall>a \<in> set as. uint (b_size (pmem s) a) < uint sz + 17"
    and fits: "uint sz + 17 \<le> uint (b_size (pmem s) b)"
    and sizes: "uint sz \<le> 8 * 4096 - 17" "uint (b_size (pmem s) b) \<le> 2 ^ 32 - 34"
  defines "n \<equiv> sz + 17"
  defines "rest \<equiv> (if uint sz + 34 < uint (b_size (pmem s) b) then [b + n] else [])"
  shows "\<exists>s'. kmalloc sz s = Some (s', b + 17)
    \<and> b_used (pmem s') b = USED
    \<and> b_size (pmem s') b = (if rest = [] then b_size (pmem s) b else n)
    \<and> free_blocks (pmem s') (free_list s') (as @ rest @ cs)
    \<and> (\<forall>r \<in> set rest. b_size (pmem s') r = b_size (pmem s) b - n)
    \<and> (\<forall>c \<in> set (as @ cs). b_size (pmem s') c = b_size (pmem s) c)
    \<and> (\<forall>x. (\<forall>c \<in> set (as @ b # rest @ cs). \<not> in_hdr c x) \<longrightarrow> pmem s' x = pmem s x)
    \<and> s' = s\<lparr>pmem := pmem s', free_list := free_list s'\<rparr>"
  using kmalloc_takes_first [OF assms(1-5)] unfolding n_def rest_def .

text \<open>A heap with two free blocks, of 32 and of 4096 bytes.\<close>

definition demo_heap :: heap where
  "demo_heap = phys.extend (demo_phys\<lparr>pmem :=
     set_used 0x700000 FREE (set_size 0x700000 32 (set_prev 0x700000 0 (set_next 0x700000 0x702000
    (set_used 0x702000 FREE (set_size 0x702000 4096 (set_prev 0x702000 0x700000 (set_next 0x702000 0
     demo_mem)))))))\<rparr>) \<lparr>free_list = 0x700000\<rparr>"

lemma demo_heap_ok: "free_blocks (pmem demo_heap) (free_list demo_heap) ([0x700000] @ 0x702000 # [])"
proof -
  have "flseg (pmem demo_heap) 0 (free_list demo_heap) [0x700000, 0x702000] 0" by code_simp
  moreover have "b_size (pmem demo_heap) 0x700000 = 32" "b_size (pmem demo_heap) 0x702000 = 4096" by code_simp+
  ultimately show ?thesis by (simp add: free_blocks_def extent_def)
qed

theorem kmalloc_first_fit_witness:
  "\<exists>s'. kmalloc 100 demo_heap = Some (s', 0x702011) \<and> b_used (pmem s') 0x702000 = USED
     \<and> free_blocks (pmem s') (free_list s') [0x700000, 0x702075]"
proof -
  have sizes: "b_size (pmem demo_heap) 0x700000 = 32" "b_size (pmem demo_heap) 0x702000 = 4096" by code_simp+
  show ?thesis using kmalloc_first_fit [OF demo_heap_ok, of 100] by (auto simp: sizes)
qed

section \<open>Release without merging\<close>

definition behind :: "mem \<Rightarrow> addr \<Rightarrow> addr" where
  "behind m c = c + b_size m c"

lemma merge_next_stops: "b_used m nb \<noteq> FREE \<Longrightarrow> merge_next cur nb m = Some (m, False, cur)"
  by (simp add: merge_next.simps)

lemma merge_loop_idle:
  assumes "flseg m pv p bs 0" "\<forall>c \<in> set bs. b_used m (behind m c) \<noteq> FREE"
  shows "merge_loop p m = Some m"
  using assms
proof (induction bs arbitrary: pv p)
  case Nil
  then show ?case by (simp add: merge_loop.simps)
next
  case (Cons b bs)
  have "skip_merged (b_next m b) m = Some (m, b_next m b)"
    using Cons.prems(1) by (cases bs) (auto simp: skip_merged.simps FREE_def)
  moreover have "merge_loop (b_next m b) m = Some m" using Cons by (intro Cons.IH) auto
  moreover have "merge_next b (b + b_size m b) m = Some (m, False, b)"
    using Cons.prems(2) by (simp add: merge_next_stops behind_def)
  ultimately show ?case using Cons.prems(1) by (subst merge_loop.simps) auto
qed

lemma free_runs_idle:
  assumes "flseg (pmem s) pv p bs 0" "\<forall>c \<in> set bs. b_size (pmem s) c \<noteq> word_of_int (8 * PAGE_SIZE)"
  shows "free_runs p s = Some s"
  using assms
proof (induction bs arbitrary: pv p)
  case Nil
  then show ?case by (simp add: free_runs.simps)
next
  case (Cons b bs)
  have "free_runs (b_next (pmem s) b) s = Some s" using Cons by (intro Cons.IH) auto
  then show ?case using Cons.prems by (subst free_runs.simps) (auto simp: Let_def)
qed

lemma push_free_blocks:
  assumes ok: "free_blocks (pmem s) (free_list s) (f # bs)"
    and b: "b \<noteq> 0" "17 \<le> uint (b_size (pmem s) b)" "uint b + uint (b_size (pmem s) b) \<le> 2 ^ 32"
    and dis: "\<forall>c \<in> set (f # bs). extent (pmem s) b \<inter> extent (pmem s) c = {}"
  defines "s' \<equiv> push_free b s"
  shows "free_blocks (pmem s') (free_list s') (b # f # bs)"
    "\<And>c. c \<in> set (b # f # bs) \<Longrightarrow> b_size (pmem s') c = b_size (pmem s) c"
    "\<And>c. apart 17 b c \<Longrightarrow> apart 17 f c \<Longrightarrow> hdr (pmem s') c = hdr (pmem s) c"
    "\<And>x. \<not> in_hdr b x \<Longrightarrow> \<not> in_hdr f x \<Longrightarrow> pmem s' x = pmem s x"
    "s' = s\<lparr>pmem := pmem s', free_list := b\<rparr>"
proof -
  let ?m = "pmem s"
  have links: "flseg ?m 0 f (f # bs) 0" "free_list s = f" "distinct (f # bs)"
    using free_blocks_links [OF ok] by auto
  have blk: "17 \<le> uint (b_size ?m c)" "uint c + uint (b_size ?m c) \<le> 2 ^ 32" if "c \<in> set (f # bs)" for c
    using ok that by (auto simp: free_blocks_def)
  have ap: "apart 17 b c" "apart 17 c b" if "c \<in> set (f # bs)" for c
    using disjoint_extents_apart [of ?m b ?m c] dis blk [OF that] b that by (auto simp: apart_sym)
  have apf: "apart 17 b f" "apart 17 f b" using ap [of f] by simp_all
  have b_notin: "b \<notin> set (f # bs)"
    using ap [of b] by (auto simp: apart_def)
  have m': "pmem s' = set_used b FREE (set_prev b 0 (set_prev f b (set_next b f ?m)))"
    and fl': "free_list s' = b"
    by (simp_all add: s'_def push_free_def Let_def upd_mem_def links(2))
  have hb: "hdr (pmem s') b = (FREE, b_size ?m b, 0, f)"
    unfolding m' using apf by (simp add: hdr_set_apart hdr_set_same hdr_fields)
  have hf: "hdr (pmem s') f = (b_used ?m f, b_size ?m f, b, b_next ?m f)"
    unfolding m' using apf by (simp add: hdr_set_apart hdr_set_same hdr_fields)
  show other: "hdr (pmem s') c = hdr ?m c" if "apart 17 b c" "apart 17 f c" for c
    unfolding m' using that by (simp add: hdr_set_apart)
  show "pmem s' x = ?m x" if "\<not> in_hdr b x" "\<not> in_hdr f x" for x
    unfolding m' using that by (simp add: frame_simps)
  have tail: "hdr (pmem s') c = hdr ?m c" if "c \<in> set bs" for c
    using that links(3) ap [of c] free_blocks_apart [OF ok, of f c] by (intro other) auto
  have "flseg (pmem s') b f (f # bs) 0"
    by (rule flseg_relink_front [OF links(1)]) (use tail hf in auto)
  then have links': "flseg (pmem s') 0 b (b # f # bs) 0" using hb b(1) by (simp add: hdr_fields)
  show sizes: "b_size (pmem s') c = b_size ?m c" if "c \<in> set (b # f # bs)" for c
    using that hb hf tail by (auto simp: hdr_def)
  have ext: "extent (pmem s') c = extent ?m c" if "c \<in> set (b # f # bs)" for c
    using sizes [OF that] by (simp add: extent_def)
  show "free_blocks (pmem s') (free_list s') (b # f # bs)"
    unfolding free_blocks_def fl'
  proof (intro conjI ballI impI)
    fix c assume c: "c \<in> set (b # f # bs)"
    show "17 \<le> uint (b_size (pmem s') c)" "uint c + uint (b_size (pmem s') c) \<le> 2 ^ 32"
      using sizes [OF c] c blk b by auto
    fix d assume d: "d \<in> set (b # f # bs)" "c \<noteq> d"
    have "extent ?m c \<inter> extent ?m d = {}" if "c \<in> set (f # bs)" "d \<in> set (f # bs)"
      using ok that d(2) unfolding free_blocks_def by meson
    moreover have "extent ?m c \<inter> extent ?m d = {}" if "c = b \<or> d = b"
      using that c d dis by (auto simp: inf_commute)
    ultimately have "extent ?m c \<inter> extent ?m d = {}" using c d by auto
    then show "extent (pmem s') c \<inter> extent (pmem s') d = {}" using ext c d by simp
  qed (use links' links(3) b_notin in auto)
  show "s' = s\<lparr>pmem := pmem s', free_list := b\<rparr>"
    by (simp add: s'_def push_free_def Let_def upd_mem_def)
qed

text \<open>When no free block lies behind another, \<open>kfree\<close> puts the block at the head of the
  free list: the list stays well formed, every block keeps its size, and only the headers of
  the block and of the old head are written.\<close>

theorem kfree_pushes:
  assumes ok: "free_blocks (pmem s) (free_list s) (f # bs)"
    and b: "b \<noteq> 0" "b + 17 \<noteq> 0" "17 \<le> uint (b_size (pmem s) b)" "uint b + uint (b_size (pmem s) b) \<le> 2 ^ 32"
    and dis: "\<forall>c \<in> set (f # bs). extent (pmem s) b \<inter> extent (pmem s) c = {}"
    and alone: "\<forall>c \<in> set (b # f # bs). b_used (pmem s) (behind (pmem s) c) \<noteq> FREE
      \<and> apart 17 b (behind (pmem s) c) \<and> apart 17 f (behind (pmem s) c)"
    and runs: "\<forall>c \<in> set (b # f # bs). b_size (pmem s) c \<noteq> 0x8000"
  shows "\<exists>s'. kfree (b + 17) s = Some s' \<and> free_list s' = b
    \<and> free_blocks (pmem s') b (b # f # bs)
    \<and> (\<forall>c \<in> set (b # f # bs). b_size (pmem s') c = b_size (pmem s) c)
    \<and> (\<forall>x. \<not> in_hdr b x \<and> \<not> in_hdr f x \<longrightarrow> pmem s' x = pmem s x)
    \<and> s' = s\<lparr>pmem := pmem s', free_list := b\<rparr>"
proof -
  let ?s = "push_free b s"
  note p = push_free_blocks [OF ok b(1,3,4) dis]
  have fl: "free_list ?s = b" by (simp add: push_free_def Let_def)
  have seg: "flseg (pmem ?s) 0 b (b # f # bs) 0" using free_blocks_links(1) [OF p(1)] fl by simp
  have "b_used (pmem ?s) (behind (pmem ?s) c) \<noteq> FREE" if "c \<in> set (b # f # bs)" for c
  proof -
    have "behind (pmem ?s) c = behind (pmem s) c" using p(2) [OF that] by (simp add: behind_def)
    moreover have "hdr (pmem ?s) (behind (pmem s) c) = hdr (pmem s) (behind (pmem s) c)"
      using alone that by (intro p(3)) blast+
    ultimately show ?thesis using alone that by (simp only: hdr_fields(1)) blast
  qed
  then have merge: "merge_loop b (pmem ?s) = Some (pmem ?s)" by (intro merge_loop_idle [OF seg]) simp
  have "b_size (pmem ?s) c \<noteq> word_of_int (8 * PAGE_SIZE)" if "c \<in> set (b # f # bs)" for c
    using runs p(2) [OF that] that by (auto simp: PAGE_SIZE_def)
  then have free: "free_runs b ?s = Some ?s" by (intro free_runs_idle [OF seg]) simp
  have "kfree (b + 17) s = Some ?s"
    using b(2) merge free fl by (simp add: kfree_def MEM_HSIZE_def Let_def)
  then show ?thesis using p fl by (intro exI [of _ ?s]) simp
qed

theorem kfree_pushes_witness:
  "\<exists>s'. kfree 0x704011 (demo_heap\<lparr>pmem := set_size 0x704000 64 (pmem demo_heap)\<rparr>) = Some s' \<and>
     free_blocks (pmem s') 0x704000 [0x704000, 0x700000, 0x702000]"
proof -
  let ?s = "demo_heap\<lparr>pmem := set_size 0x704000 64 (pmem demo_heap)\<rparr>"
  have h: "hdr (pmem ?s) 0x700000 = (FREE, 32, 0, 0x702000)" "hdr (pmem ?s) 0x702000 = (FREE, 4096, 0x700000, 0)"
    "b_size (pmem ?s) 0x704000 = 64" by code_simp+
  have u: "b_used (pmem ?s) 0x700020 = 0" "b_used (pmem ?s) 0x703000 = 0" "b_used (pmem ?s) 0x704040 = 0" by code_simp+
  have sz: "b_size (pmem ?s) 0x700000 = 32" "b_size (pmem ?s) 0x702000 = 4096" using h by (simp_all add: hdr_def)
  have "free_list ?s = 0x700000" by code_simp
  then have "free_blocks (pmem ?s) (free_list ?s) [0x700000, 0x702000]"
    using h sz by (simp add: free_blocks_def extent_def hdr_def)
  from kfree_pushes [OF this, of "0x704000"] show ?thesis
    using sz h(3) u by (auto simp: behind_def extent_def apart_def FREE_def)
qed

text \<open>Merging loses free memory.  A block is released in front of a free block that is not
  its successor in the list: the merge links the block to what follows that neighbour and
  every block in between leaves the list, still marked free.\<close>

theorem kfree_merge_loses_block:
  "case kfree 0x701011 (demo_heap\<lparr>pmem := set_size 0x701000 0x1000 (pmem demo_heap)\<rparr>) of
     None \<Rightarrow> False
   | Some s' \<Rightarrow> flseg (pmem s') 0 (free_list s') [0x701000] 0
     \<and> b_size (pmem s') 0x701000 = 0x2000 \<and> b_used (pmem s') 0x700000 = FREE \<and> b_size (pmem s') 0x700000 = 32"
  by code_simp

end
