(* ===== verification/Log.thy ===== *)
theory Log
  imports Kmalloc KString
begin

text \<open>
  The console of \<open>source/lib/log.c\<close>: \<open>kprintf\<close> writes cells of two bytes, character and
  attribute, into the video memory at \<open>0xB8000\<close>, at a cursor.  Format and string arguments
  are read from the same memory; the variable arguments are a list of 32-bit words, and a
  conversion without one has no result.
\<close>

section \<open>The code\<close>

record console = heap +
  vga :: addr

definition LOG_MUTEX :: nat where "LOG_MUTEX = 1"

definition log_init :: "'a console_scheme \<Rightarrow> 'a console_scheme" where
  "log_init s = (mutex_init LOG_MUTEX s)\<lparr>vga := 0xB8000 + 0x500\<rparr>"

text \<open>\<open>*vga = 0x07 << 8 | c; vga++\<close>: a \<open>char\<close> is signed.\<close>

definition store16 :: "mem \<Rightarrow> addr \<Rightarrow> ushort \<Rightarrow> mem" where
  "store16 m a v = m(a := ucast v, a + 1 := ucast (drop_bit 8 v))"

definition put_char :: "uchar \<Rightarrow> 'a console_scheme \<Rightarrow> 'a console_scheme" where
  "put_char c s = (upd_mem (\<lambda>m. store16 m (vga s) (0x0700 OR scast c)) s)\<lparr>vga := vga s + 2\<rparr>"

text \<open>The digits, from the last: at most as many as the buffer has room for.\<close>

definition digit_char :: "uint \<Rightarrow> uchar" where
  "digit_char d = of_nat (of_char (''0123456789abcdef'' ! unat d))"

primrec digits_loop :: "nat \<Rightarrow> uint \<Rightarrow> uint \<Rightarrow> uchar list \<Rightarrow> uchar list" where
  "digits_loop 0 v radix buf = buf"
| "digits_loop (Suc i) v radix buf =
     (if v \<noteq> 0 then digits_loop i (v div radix) radix (digit_char (v mod radix) # buf) else buf)"

definition print_integer :: "uint \<Rightarrow> uint \<Rightarrow> 'a console_scheme \<Rightarrow> 'a console_scheme" where
  "print_integer v radix s =
     (if v = 0 then put_char 0x30 s
      else let (v, s) = (if v < 0 \<and> radix = 10 then (- v, put_char 0x2d s) else (v, s))
           in fold put_char (digits_loop 32 v radix []) s)"

partial_function (option) put_string :: "addr \<Rightarrow> 'a console_scheme \<Rightarrow> 'a console_scheme option" where
  "put_string p s = (if pmem s p \<noteq> 0 then put_string (p + 1) (put_char (pmem s p) s) else Some s)"

text \<open>A conversion: the character behind the percent sign.\<close>

definition conversion :: "uchar \<Rightarrow> uint list \<Rightarrow> 'a console_scheme \<Rightarrow> (uint list \<times> 'a console_scheme) option" where
  "conversion c args s =
     (if c = 0x64 then case args of v # args \<Rightarrow> Some (args, print_integer v 10 s) | [] \<Rightarrow> None
      else if c = 0x78 then case args of v # args \<Rightarrow> Some (args, print_integer v 16 s) | [] \<Rightarrow> None
      else if c = 0x73 then
        case args of p # args \<Rightarrow> map_option (Pair args) (put_string p s) | [] \<Rightarrow> None
      else Some (args, put_char c s))"

definition newline :: "'a console_scheme \<Rightarrow> 'a console_scheme" where
  "newline s =
     (let left = 160 - cmod (sint (vga s) - 0xB8000) 160
      in s\<lparr>vga := vga s + 2 * word_of_int (cdiv left 2)\<rparr>)"

primrec blank_cells :: "nat \<Rightarrow> addr \<Rightarrow> mem \<Rightarrow> mem" where
  "blank_cells 0 a m = m"
| "blank_cells (Suc n) a m = blank_cells n (a + 2) (store16 m a 0x20)"

text \<open>The test for a full screen: the format pointer goes back by one.\<close>

definition page_check :: "addr \<Rightarrow> 'a console_scheme \<Rightarrow> addr \<times> 'a console_scheme" where
  "page_check fmt s =
     (if sint (vga s) - 0xB8000 \<ge> 160 * 25
      then (fmt - 1, upd_mem (blank_cells (80 * 25) 0xB8000) (s\<lparr>vga := 0xB8000\<rparr>))
      else (fmt, s))"

partial_function (option) kprintf_loop ::
    "addr \<Rightarrow> uint list \<Rightarrow> 'a console_scheme \<Rightarrow> 'a console_scheme option" where
  "kprintf_loop fmt args s =
     (if pmem s fmt = 0 then Some s
      else if pmem s fmt = 0x25
      then conversion (pmem s (fmt + 1)) args s \<bind>
        (\<lambda>(args, s). let (fmt, s) = page_check (fmt + 2) s in kprintf_loop fmt args s)
      else if pmem s fmt = 0x0a then kprintf_loop (fmt + 1) args (newline s)
      else let s = put_char (pmem s fmt) s; (fmt, s) = page_check (fmt + 1) s
           in kprintf_loop fmt args s)"

declare put_string.simps [code] kprintf_loop.simps [code]

definition kprintf :: "addr \<Rightarrow> uint list \<Rightarrow> 'a console_scheme \<Rightarrow> 'a console_scheme option" where
  "kprintf fmt args s = do {
     s \<leftarrow> at_once (mutex_lock LOG_MUTEX) s;
     s \<leftarrow> kprintf_loop fmt args s;
     at_once (mutex_unlock LOG_MUTEX) s }"

section \<open>Cells\<close>

text \<open>Positional notation, as the reference for \<open>print_integer\<close>.\<close>

fun numeral_text :: "nat \<Rightarrow> nat \<Rightarrow> uchar list" where
  "numeral_text b n = (if n < b \<or> b < 2 then [digit_char (of_nat n)]
     else numeral_text b (n div b) @ [digit_char (of_nat (n mod b))])"

declare numeral_text.simps [simp del]

lemma digits_loop_numeral:
  assumes "v \<noteq> 0" "unat v < unat radix ^ i" "2 \<le> unat radix"
  shows "digits_loop i v radix buf = numeral_text (unat radix) (unat v) @ buf"
  using assms
proof (induction i arbitrary: v buf)
  case (Suc i)
  have m: "of_nat (unat v mod unat radix) = v mod radix" by (simp flip: unat_mod)
  show ?case
  proof (cases "unat v < unat radix")
    case True
    then have "v div radix = 0" "v mod radix = v"
      by (simp_all add: unat_eq_zero [symmetric] unat_div word_unat_eq_iff unat_mod del: unat_eq_zero)
    then show ?thesis using True Suc.prems by (subst numeral_text.simps) (cases i, simp_all)
  next
    case False
    have d: "unat (v div radix) = unat v div unat radix" by (simp add: unat_div)
    have "v div radix \<noteq> 0" using False Suc.prems(3) d by (metis div_eq_0_iff not_less unat_0 not_numeral_le_zero)
    moreover have "unat (v div radix) < unat radix ^ i"
      using Suc.prems(2,3) by (simp add: d less_mult_imp_div_less mult.commute)
    ultimately show ?thesis
      using Suc False by (subst numeral_text.simps) (simp add: d m)
  qed
qed (simp add: word_unat_eq_iff)

lemma print_integer_text:
  assumes "radix = 10 \<or> radix = 16"
  shows "print_integer v radix s = fold put_char (numeral_text (unat radix) (unat v)) s"
proof (cases "v = 0")
  case True
  then show ?thesis using assms by (auto simp: print_integer_def numeral_text.simps digit_char_def)
next
  case False
  have "unat v < 2 ^ 32" using unsigned_less [of v] by simp
  moreover have "(2::nat) ^ 32 \<le> 10 ^ 32" "(2::nat) ^ 32 \<le> 16 ^ 32" by simp_all
  ultimately have "unat v < unat radix ^ 32" using assms by (auto intro: less_le_trans)
  then show ?thesis
    using assms False digits_loop_numeral [of v radix 32 "[]"] by (auto simp: print_integer_def)
qed

text \<open>What a run of cells leaves alone.\<close>

lemma put_char_fields [simp]:
  "vga (put_char c s) = vga s + 2" "pmem (put_char c s) = store16 (pmem s) (vga s) (0x0700 OR scast c)"
  by (simp_all add: put_char_def upd_mem_def)

lemma put_chars_state:
  "fold put_char cs s = s\<lparr>pmem := pmem (fold put_char cs s), vga := vga s + 2 * of_nat (length cs)\<rparr>"
proof (induction cs arbitrary: s)
  case (Cons c cs)
  show ?case by (simp, subst Cons.IH) (simp add: put_char_def upd_mem_def algebra_simps)
qed simp

lemma put_chars_vga [simp]: "vga (fold put_char cs s) = vga s + 2 * of_nat (length cs)"
  by (subst put_chars_state) simp

lemma put_chars_frame [frame_simps]:
  assumes "\<And>i. i < 2 * length cs \<Longrightarrow> x \<noteq> vga s + of_nat i"
  shows "pmem (fold put_char cs s) x = pmem s x"
  using assms
proof (induction cs arbitrary: s)
  case (Cons c cs)
  have "x \<noteq> vga s + 2 + of_nat i" if "i < 2 * length cs" for i
    using Cons.prems [of "i + 2"] that by (simp add: algebra_simps)
  then have "pmem (fold put_char (c # cs) s) x = pmem (put_char c s) x" by (simp add: Cons.IH)
  also have "\<dots> = pmem s x"
    using Cons.prems [of 0] Cons.prems [of 1] by (simp add: store16_def)
  finally show ?case .
qed simp

lemma load16_store16: "load16 (store16 m a v) a = v"
proof (rule bit_word_eqI)
  fix n :: nat
  assume "n < LENGTH(16)"
  then show "bit (load16 (store16 m a v) a) n = bit v n"
    by (cases "n < 8") (auto simp: load16_def store16_def bit_simps)
qed

lemma load16_cong: "m a = m' a \<Longrightarrow> m (a + 1) = m' (a + 1) \<Longrightarrow> load16 m a = load16 m' a"
  by (simp add: load16_def)

lemma screen_distinct:
  assumes "uint a + int n \<le> 2 ^ 32" "i < n" "j < n" "a + of_nat i = (a + of_nat j :: addr)"
  shows "i = j"
proof -
  have "uint (a + of_nat k) = uint a + int k" if "k < n" for k
  proof -
    have "uint (of_nat k :: addr) = int k"
    proof -
      have "int k < 2 ^ 32" using that assms(1) uint_ge_0 [of a] by linarith
      then show ?thesis by (simp add: unsigned_of_nat take_bit_nat_eq_self)
    qed
    then show ?thesis using that assms(1) uint_add_small [of a "of_nat k"] by simp
  qed
  then show ?thesis using assms by (metis add_left_imp_eq of_nat_eq_iff)
qed

lemma put_chars_cell:
  assumes "uint (vga s) + 2 * int (length cs) \<le> 2 ^ 32" "i < length cs"
  shows "load16 (pmem (fold put_char cs s)) (vga s + 2 * of_nat i) = 0x0700 OR scast (cs ! i)"
  using assms
proof (induction cs arbitrary: s i)
  case (Cons c cs)
  show ?case
  proof (cases i)
    case 0
    have "pmem (fold put_char cs (put_char c s)) (vga s + of_nat k) = pmem (put_char c s) (vga s + of_nat k)"
      if "k < 2" for k
    proof (rule put_chars_frame)
      fix j assume j: "j < 2 * length cs"
      have "vga s + of_nat k \<noteq> vga s + of_nat (j + 2)"
        using screen_distinct [of "vga s" "2 * length cs + 2" k "j + 2"] that j Cons.prems(1) by auto
      then show "vga s + of_nat k \<noteq> vga (put_char c s) + of_nat j" by (simp add: algebra_simps)
    qed
    from this [of 0] this [of 1]
    have "load16 (pmem (fold put_char cs (put_char c s))) (vga s) = load16 (pmem (put_char c s)) (vga s)"
      by (intro load16_cong) simp_all
    then show ?thesis using 0 by (simp add: load16_store16)
  next
    case (Suc k)
    have "cs \<noteq> []" using Cons.prems Suc by auto
    then have "1 \<le> int (length cs)" by (cases cs) auto
    then have "uint (vga s + 2) = uint (vga s) + 2"
      using Cons.prems(1) uint_add_small [of "vga s" 2] by simp
    then have "load16 (pmem (fold put_char cs (put_char c s))) (vga (put_char c s) + 2 * of_nat k) = 0x0700 OR scast (cs ! k)"
      using Cons.prems Suc by (intro Cons.IH) auto
    then show ?thesis using Suc by (simp add: algebra_simps)
  qed
qed simp

section \<open>What a format denotes\<close>

text \<open>The text of a format without newlines: \<open>%d\<close>, \<open>%x\<close> and \<open>%s\<close> take an argument each, a percent
  sign before another character stands for that character.\<close>

inductive rendered :: "mem \<Rightarrow> (addr \<Rightarrow> bool) \<Rightarrow> uchar list \<Rightarrow> uint list \<Rightarrow> uchar list \<Rightarrow> bool"
  for m :: mem and safe :: "addr \<Rightarrow> bool" where
  r_end: "rendered m safe [] args []"
| r_char: "c \<notin> {0, 0x25, 0x0a} \<Longrightarrow> rendered m safe cs args t \<Longrightarrow> rendered m safe (c # cs) args (c # t)"
| r_dec: "rendered m safe cs args t \<Longrightarrow>
    rendered m safe (0x25 # 0x64 # cs) (v # args) (numeral_text 10 (unat v) @ t)"
| r_hex: "rendered m safe cs args t \<Longrightarrow>
    rendered m safe (0x25 # 0x78 # cs) (v # args) (numeral_text 16 (unat v) @ t)"
| r_str: "cstr m p str \<Longrightarrow> (\<forall>i \<le> length str. safe (p + of_nat i)) \<Longrightarrow> rendered m safe cs args t \<Longrightarrow>
    rendered m safe (0x25 # 0x73 # cs) (p # args) (str @ t)"
| r_other: "c \<notin> {0, 0x64, 0x78, 0x73} \<Longrightarrow> rendered m safe cs args t \<Longrightarrow>
    rendered m safe (0x25 # c # cs) args (c # t)"

lemma put_string_text:
  assumes "cstr m p str" "\<And>i. i \<le> length str \<Longrightarrow> pmem s (p + of_nat i) = m (p + of_nat i)"
    and "\<And>i j. i \<le> length str \<Longrightarrow> j < 2 * length str \<Longrightarrow> p + of_nat i \<noteq> vga s + of_nat j"
  shows "put_string p s = Some (fold put_char str s)"
  using assms
proof (induction str arbitrary: p s)
  case Nil
  then show ?case using Nil(2) [of 0] by (simp add: put_string.simps)
next
  case (Cons c str)
  have c: "pmem s p = c" "c \<noteq> 0" and rest: "cstr m (p + 1) str"
    using Cons.prems(1) Cons.prems(2) [of 0] by auto
  have "put_string (p + 1) (put_char c s) = Some (fold put_char str (put_char c s))"
  proof (rule Cons.IH [OF rest])
    fix i assume i: "i \<le> length str"
    have ne: "p + 1 + of_nat i \<noteq> vga s + of_nat j" if "j < 2 * length (c # str)" for j
      using Cons.prems(3) [of "Suc i" j] i that by (simp add: algebra_simps)
    have "pmem (put_char c s) (p + 1 + of_nat i) = pmem s (p + 1 + of_nat i)"
      using ne [of 0] ne [of 1] by (simp add: store16_def)
    also have "\<dots> = m (p + 1 + of_nat i)" using Cons.prems(2) [of "Suc i"] i by (simp add: algebra_simps)
    finally show "pmem (put_char c s) (p + 1 + of_nat i) = m (p + 1 + of_nat i)" .
    fix j assume "j < 2 * length str"
    then show "p + 1 + of_nat i \<noteq> vga (put_char c s) + of_nat j"
      using ne [of "j + 2"] by (simp add: algebra_simps)
  qed
  then show ?case using c by (simp add: put_string.simps)
qed

text \<open>The memory outside the screen.\<close>

definition off_screen :: "addr \<Rightarrow> bool" where
  "off_screen x \<longleftrightarrow> uint x < 0xB8000 \<or> 0xB8000 + 4000 \<le> uint x"

definition room :: "'a console_scheme \<Rightarrow> nat \<Rightarrow> bool" where
  "room s n \<longleftrightarrow> 0xB8000 \<le> uint (vga s) \<and> uint (vga s) + 2 * int n < 0xB8000 + 4000"

lemma room_cell:
  assumes "room s n" "i < 2 * n"
  shows "\<not> off_screen (vga s + of_nat i)"
proof -
  have i: "uint (of_nat i :: addr) = int i"
    using assms uint_ge_0 [of "vga s"] by (simp add: room_def unsigned_of_nat take_bit_nat_eq_self)
  then have "uint (vga s + of_nat i) = uint (vga s) + int i"
    using assms uint_add_small [of "vga s" "of_nat i"] by (simp add: room_def)
  then show ?thesis using assms by (simp add: room_def off_screen_def)
qed

lemma put_chars_off_screen:
  assumes "room s (length cs)" "off_screen x"
  shows "pmem (fold put_char cs s) x = pmem s x"
  using room_cell [OF assms(1)] assms(2) by (intro put_chars_frame) auto

lemma put_chars_room:
  assumes "room s (length cs + n)"
  shows "room (fold put_char cs s) n" "sint (vga (fold put_char cs s)) - 0xB8000 < 160 * 25"
proof -
  have "uint (2 * of_nat (length cs) :: addr) = 2 * int (length cs)"
    using assms uint_of_small [of "2 * int (length cs)"] by (simp add: room_def)
  then have u: "uint (vga s + 2 * of_nat (length cs)) = uint (vga s) + 2 * int (length cs)"
    using assms uint_add_small [of "vga s" "2 * of_nat (length cs)"] by (simp add: room_def)
  then show "room (fold put_char cs s) n" using assms by (simp add: room_def)
  show "sint (vga (fold put_char cs s)) - 0xB8000 < 160 * 25"
    using assms u by (simp add: room_def sint_of_small)
qed

lemma page_check_room:
  "sint (vga s) - 0xB8000 < 160 * 25 \<Longrightarrow> page_check fmt s = (fmt, s)"
  by (simp add: page_check_def)

text \<open>The format is still to be printed from \<open>f\<close> on, and there is room for \<open>n\<close> more characters.\<close>

definition fmt_at :: "mem \<Rightarrow> addr \<Rightarrow> uchar list \<Rightarrow> 'a console_scheme \<Rightarrow> nat \<Rightarrow> bool" where
  "fmt_at m f cs s n \<longleftrightarrow> cstr m f cs \<and> (\<forall>i \<le> length cs. off_screen (f + of_nat i))
     \<and> (\<forall>x. off_screen x \<longrightarrow> pmem s x = m x) \<and> room s n"

lemma cstr_append: "cstr m p (as @ bs) \<Longrightarrow> cstr m (p + of_nat (length as)) bs"
  by (induction as arbitrary: p) (auto simp flip: add.assoc)

lemma fmt_at_advance:
  assumes "fmt_at m f (pre @ cs) s (length u + n)"
  shows "fmt_at m (f + of_nat (length pre)) cs (fold put_char u s) n"
proof -
  have r: "room s (length u + n)" using assms by (simp add: fmt_at_def)
  then have "room s (length u)" by (simp add: room_def)
  then have "pmem (fold put_char u s) x = m x" if "off_screen x" for x
    using put_chars_off_screen [of s u x] assms that by (simp add: fmt_at_def)
  moreover have "off_screen (f + of_nat (length pre) + of_nat i)" if "i \<le> length cs" for i
  proof -
    have "off_screen (f + of_nat (length pre + i))"
      using assms that unfolding fmt_at_def by (metis add_le_cancel_left length_append)
    then show ?thesis by (simp add: add.assoc)
  qed
  ultimately show ?thesis
    using assms put_chars_room(1) [OF r] cstr_append [of m f pre cs] by (simp add: fmt_at_def)
qed

lemma rendered_step:
  fixes s :: "'a console_scheme"
  assumes at: "fmt_at m f (pre @ cs) s (length (u @ t))" and k: "k = of_nat (length pre)"
    and IH: "\<And>f (s :: 'a console_scheme). fmt_at m f cs s (length t) \<Longrightarrow> kprintf_loop f args' s = Some (fold put_char t s)"
    and step: "kprintf_loop f args s =
      (let (fmt, s) = page_check (f + k) (fold put_char u s) in kprintf_loop fmt args' s)"
  shows "kprintf_loop f args s = Some (fold put_char (u @ t) s)"
proof -
  have "room s (length u + length t)" using at by (simp add: fmt_at_def)
  from put_chars_room(2) [OF this] have "kprintf_loop f args s = kprintf_loop (f + k) args' (fold put_char u s)"
    by (simp add: step page_check_room)
  also have "\<dots> = Some (fold put_char t (fold put_char u s))"
    using fmt_at_advance [of m f pre cs s u "length t"] at by (intro IH) (simp add: k)
  finally show ?thesis by simp
qed

lemma fmt_at_bytes:
  assumes "fmt_at m f cs s n"
  shows "pmem s f = (case cs of [] \<Rightarrow> 0 | c # _ \<Rightarrow> c)"
    "cs = c # ds \<Longrightarrow> pmem s (f + 1) = (case ds of [] \<Rightarrow> 0 | d # _ \<Rightarrow> d)"
proof -
  have o: "pmem s (f + of_nat i) = m (f + of_nat i)" if "i \<le> length cs" for i
    using assms that by (simp add: fmt_at_def)
  have c: "cstr m f cs" using assms by (simp add: fmt_at_def)
  show "pmem s f = (case cs of [] \<Rightarrow> 0 | c # _ \<Rightarrow> c)"
    using o [of 0] c by (auto split: list.splits)
  show "cs = c # ds \<Longrightarrow> pmem s (f + 1) = (case ds of [] \<Rightarrow> 0 | d # _ \<Rightarrow> d)"
    using o [of 1] c by (auto split: list.splits)
qed

lemma kprintf_loop_renders:
  assumes "rendered m off_screen cs args t" "fmt_at m f cs s (length t)"
  shows "kprintf_loop f args s = Some (fold put_char t s)"
  using assms
proof (induction arbitrary: f s rule: rendered.induct)
  case (r_end args)
  then show ?case using fmt_at_bytes(1) [OF r_end] by (simp add: kprintf_loop.simps)
next
  case (r_char c cs args t)
  have "kprintf_loop f args s = Some (fold put_char ([c] @ t) s)"
  proof (rule rendered_step [where pre = "[c]" and cs = cs, OF _ _ r_char.IH])
    show "fmt_at m f ([c] @ cs) s (length ([c] @ t))" using r_char.prems by simp
  qed (use r_char.hyps fmt_at_bytes(1) [OF r_char.prems] in \<open>simp_all add: kprintf_loop.simps [of f]\<close>)
  then show ?case by simp
next
  case (r_dec cs args t v)
  note b = fmt_at_bytes [OF r_dec.prems, simplified]
  show ?case
  proof (rule rendered_step [where pre = "[0x25, 0x64]" and cs = cs, OF _ _ r_dec.IH])
    show "fmt_at m f ([0x25, 0x64] @ cs) s (length (numeral_text 10 (unat v) @ t))" using r_dec.prems by simp
  qed (use b in \<open>simp_all add: kprintf_loop.simps [of f] conversion_def print_integer_text\<close>)
next
  case (r_hex cs args t v)
  note b = fmt_at_bytes [OF r_hex.prems, simplified]
  show ?case
  proof (rule rendered_step [where pre = "[0x25, 0x78]" and cs = cs, OF _ _ r_hex.IH])
    show "fmt_at m f ([0x25, 0x78] @ cs) s (length (numeral_text 16 (unat v) @ t))" using r_hex.prems by simp
  qed (use b in \<open>simp_all add: kprintf_loop.simps [of f] conversion_def print_integer_text\<close>)
next
  case (r_str p str cs args t)
  note b = fmt_at_bytes [OF r_str.prems, simplified]
  have "room s (length str)" using r_str.prems by (simp add: fmt_at_def room_def)
  then have "put_string p s = Some (fold put_char str s)"
    using r_str.hyps(1,2) r_str.prems room_cell [of s "length str"]
    by (intro put_string_text) (auto simp: fmt_at_def)
  then show ?case
    using b r_str.prems
    by (intro rendered_step [where pre = "[0x25, 0x73]" and cs = cs, OF _ _ r_str.IH])
      (simp_all add: kprintf_loop.simps [of f] conversion_def)
next
  case (r_other c cs args t)
  note b = fmt_at_bytes [OF r_other.prems, simplified]
  have "kprintf_loop f args s = Some (fold put_char ([c] @ t) s)"
    using b r_other.prems r_other.hyps
    by (intro rendered_step [where pre = "[0x25, c]" and cs = cs, OF _ _ r_other.IH])
      (simp_all add: kprintf_loop.simps [of f] conversion_def)
  then show ?case by simp
qed

lemma kprintf_text:
  assumes what: "rendered (pmem s) off_screen cs args t"
    and fmt: "cstr (pmem s) f cs" "\<forall>i \<le> length cs. off_screen (f + of_nat i)"
    and room: "0xB8000 \<le> uint (vga s)" "uint (vga s) + 2 * int (length t) < 0xB8000 + 4000"
    and free: "mutexes s LOG_MUTEX = \<lparr>lock_times = 0, owner = None\<rparr>"
      "queue_empty (links s) (MutexHead LOG_MUTEX)"
  shows "\<exists>s'. kprintf f args s = Some s'
    \<and> (\<forall>i < length t. load16 (pmem s') (vga s + 2 * of_nat i) = 0x0700 OR scast (t ! i))
    \<and> (\<forall>x. (\<forall>i < 2 * length t. x \<noteq> vga s + of_nat i) \<longrightarrow> pmem s' x = pmem s x)
    \<and> vga s' = vga s + 2 * of_nat (length t)
    \<and> s' = s\<lparr>pmem := pmem s', vga := vga s'\<rparr>"
proof -
  let ?m = "(mutexes s)(LOG_MUTEX := \<lparr>lock_times = 1, owner = current s\<rparr>)"
  let ?s = "s\<lparr>mutexes := ?m\<rparr>" and ?s' = "fold put_char t s"
  have lock: "at_once (mutex_lock LOG_MUTEX) s = Some ?s"
    by (simp add: at_once_def mutex_lock_def free Let_def)
  have "fmt_at (pmem s) f cs ?s (length t)" using fmt room by (simp add: fmt_at_def room_def)
  from kprintf_loop_renders [OF what this] have loop: "kprintf_loop f args ?s = Some (fold put_char t ?s)" .
  have one: "put_char c (u\<lparr>mutexes := x\<rparr>) = (put_char c u)\<lparr>mutexes := x\<rparr>"
    for u :: "'a console_scheme" and c x by (simp add: put_char_def upd_mem_def)
  have comm: "fold put_char t (u\<lparr>mutexes := x\<rparr>) = (fold put_char t u)\<lparr>mutexes := x\<rparr>"
    for u :: "'a console_scheme" and x
    by (induction t arbitrary: u) (simp_all add: one)
  have same: "mutexes ?s' = mutexes s" "links ?s' = links s" "current ?s' = current s"
    by (subst put_chars_state, simp)+
  have "at_once (mutex_unlock LOG_MUTEX) (?s'\<lparr>mutexes := ?m\<rparr>) = Some (?s'\<lparr>mutexes := mutexes s\<rparr>)"
    by (simp add: at_once_def mutex_unlock_def free same Let_def) (simp add: fun_upd_idem free)
  moreover have "?s'\<lparr>mutexes := mutexes s\<rparr> = ?s'"
    using same by (metis kernel.surjective kernel.update_convs(6))
  ultimately have "kprintf f args s = Some ?s'"
    by (simp add: kprintf_def lock loop comm)
  moreover have "\<forall>i < length t. load16 (pmem ?s') (vga s + 2 * of_nat i) = 0x0700 OR scast (t ! i)"
    using room by (auto intro!: put_chars_cell)
  moreover have "\<forall>x. (\<forall>i < 2 * length t. x \<noteq> vga s + of_nat i) \<longrightarrow> pmem ?s' x = pmem s x"
    by (auto intro!: put_chars_frame)
  ultimately show ?thesis using put_chars_state [of t s] by (intro exI [of _ ?s']) auto
qed


definition demo_console :: console where
  "demo_console = heap.extend (phys.extend (clock.extend demo_clock
       \<lparr>pmem = (\<lambda>_. 0)(0x1000 := 0x78, 0x1001 := 0x3d, 0x1002 := 0x25, 0x1003 := 0x64,
                0x2000 := 0x0a, 0x2001 := 0x41), bitmap = demo_pages\<rparr>)
     \<lparr>free_list = 0\<rparr>) \<lparr>vga = 0xB8F00\<rparr>"

lemma demo_console_fields:
  "pmem demo_console = (\<lambda>_. 0)(0x1000 := 0x78, 0x1001 := 0x3d, 0x1002 := 0x25, 0x1003 := 0x64,
     0x2000 := 0x0a, 0x2001 := 0x41)"
  "vga demo_console = 0xB8F00" "mutexes demo_console LOG_MUTEX = \<lparr>lock_times = 0, owner = None\<rparr>"
  "queue_empty (links demo_console) (MutexHead LOG_MUTEX)"
  by (simp_all add: demo_console_def heap.defs phys.defs clock.defs demo_clock_def kernel.defs) code_simp+

lemma all_upto: "(\<forall>i \<le> n. P i) \<longleftrightarrow> (\<forall>i \<in> set [0..<Suc n]. P i)"
  by (metis atLeastLessThan_iff le0 less_Suc_eq_le set_upt)


lemma blank_cells_frame [frame_simps]:
  "(\<And>i. i < 2 * n \<Longrightarrow> x \<noteq> a + of_nat i) \<Longrightarrow> blank_cells n a m x = m x"
proof (induction n arbitrary: a m)
  case (Suc n)
  have "x \<noteq> a + 2 + of_nat i" if "i < 2 * n" for i
    using Suc.prems [of "i + 2"] that by (simp add: algebra_simps)
  then have "blank_cells (Suc n) a m x = store16 m a 0x20 x" by (simp add: Suc.IH)
  also have "\<dots> = m x" using Suc.prems [of 0] Suc.prems [of 1] by (simp add: store16_def)
  finally show ?case .
qed simp

lemma blank_screen: "off_screen x \<Longrightarrow> blank_cells (80 * 25) 0xB8000 m x = m x"
proof (rule blank_cells_frame)
  fix i :: nat
  assume "off_screen x" "i < 2 * (80 * 25)"
  moreover have "uint (0xB8000 + of_nat i :: addr) = 0xB8000 + int i" if "i < 4000"
    using that by (subst uint_add_small) (simp_all add: unsigned_of_nat take_bit_nat_eq_self)
  ultimately show "x \<noteq> 0xB8000 + of_nat i" by (auto simp: off_screen_def)
qed

text \<open>A newline in the last row is not followed by the test for a full screen: the next
  character is written behind the end of the video memory, and only then is the screen cleared
  and the character printed again.\<close>

theorem kprintf_newline_overruns:
  assumes fmt: "cstr (pmem s) f [0x0a, c]" "c \<notin> {0x25, 0x0a}"
      "\<forall>i \<le> 2. off_screen (f + of_nat i) \<and> f + of_nat i \<notin> {0xB8FA0, 0xB8FA1}"
    and row: "0xB8000 + 24 * 160 \<le> uint (vga s)" "uint (vga s) < 0xB8000 + 25 * 160" "even (uint (vga s))"
  shows "\<exists>s'. kprintf_loop f args s = Some s' \<and> off_screen 0xB8FA0
    \<and> load16 (pmem s') 0xB8FA0 = 0x0700 OR scast c \<and> vga s' = 0xB8002"
proof -
  have b: "pmem s f = 0x0a" "pmem s (f + 1) = c" "c \<noteq> 0" "pmem s (f + 2) = 0"
    using fmt(1) by (auto simp: add.assoc)
  define k where "k = uint (vga s) - 0xB8000"
  have k: "24 * 160 \<le> k" "k < 25 * 160" "even k" using row by (auto simp: k_def)
  have v: "vga s = word_of_int (0xB8000 + k)" "sint (vga s) = 0xB8000 + k"
    using row by (simp_all add: k_def sint_of_small)
  have "k mod 160 = (k - 24 * 160) mod 160" by (simp add: mod_eq_dvd_iff)
  then have m: "k mod 160 = k - 24 * 160" using k by simp
  have "vga s + 2 * word_of_int ((4000 - k) div 2) = word_of_int (0xB8000 + k + 2 * ((4000 - k) div 2))"
    by (simp add: v(1))
  also have "\<dots> = 0xB8FA0" using k(3) by simp
  finally have nl: "newline s = s\<lparr>vga := 0xB8FA0\<rparr>"
    using k m by (simp add: newline_def v(2) Let_def)
  define s1 where "s1 = s\<lparr>vga := 0xB8FA0\<rparr>"
  define s3 where "s3 = upd_mem (blank_cells (80 * 25) 0xB8000) ((put_char c s1)\<lparr>vga := 0xB8000\<rparr>)"
  define s4 where "s4 = put_char c s3"
  have f: "off_screen (f + 1)" "off_screen (f + 2)"
     "f + 1 \<notin> {0xB8FA0, 0xB8FA1}" "f + 2 \<notin> {0xB8FA0, 0xB8FA1}"
    using fmt(3) [rule_format, of 1] fmt(3) [rule_format, of 2] by simp_all
  have p3: "pmem s3 x = store16 (pmem s) 0xB8FA0 (0x0700 OR scast c) x" if "off_screen x" for x
    unfolding s3_def using blank_screen [OF that] by (simp add: upd_mem_def s1_def)
  have p4: "pmem s4 x = pmem s3 x" if "off_screen x" for x
    using that by (auto simp: s4_def s3_def upd_mem_def store16_def off_screen_def)
  have m1: "pmem s1 (f + 1) = c" and m3: "pmem s3 (f + 1) = c" and m4: "pmem s4 (f + 2) = 0"
    using f b p3 p4 by (simp_all add: s1_def store16_def)
  have c1: "page_check (f + 1 + 1) (put_char c s1) = (f + 1, s3)"
    by (simp add: page_check_def s1_def s3_def sint_of_small)
  have c3: "page_check (f + 1 + 1) (put_char c s3) = (f + 2, s4)"
    by (simp add: page_check_def s3_def s4_def upd_mem_def sint_of_small)
  have "kprintf_loop f args s = kprintf_loop (f + 1) args s1"
    using b nl by (simp add: kprintf_loop.simps [of f] s1_def)
  also have "\<dots> = kprintf_loop (f + 1) args s3"
    using b(3) fmt(2) m1 c1 by (subst kprintf_loop.simps) (simp add: Let_def)
  also have "\<dots> = kprintf_loop (f + 2) args s4"
    using b(3) fmt(2) m3 c3 by (subst kprintf_loop.simps) (simp add: Let_def)
  also have "\<dots> = Some s4" using m4 by (simp add: kprintf_loop.simps [of "f + 2"])
  finally have "kprintf_loop f args s = Some s4" .
  moreover have "load16 (pmem s4) 0xB8FA0 = load16 (store16 (pmem s) 0xB8FA0 (0x0700 OR scast c)) 0xB8FA0"
    using p3 p4 by (intro load16_cong) (simp_all add: off_screen_def)
  moreover have "vga s4 = 0xB8002" by (simp add: s4_def s3_def upd_mem_def)
  ultimately show ?thesis by (intro exI [of _ s4]) (simp add: load16_store16 off_screen_def)
qed

lemma kprintf_newline_overruns_witness:
  "\<exists>s'. kprintf_loop 0x2000 [] demo_console = Some s' \<and> load16 (pmem s') 0xB8FA0 = 0x0741"
proof -
  have "cstr (pmem demo_console) 0x2000 [0x0a, 0x41]" by (simp add: demo_console_fields)
  moreover have "\<forall>i \<le> 2. off_screen (0x2000 + of_nat i) \<and> 0x2000 + of_nat i \<notin> {0xB8FA0, 0xB8FA1 :: addr}"
    unfolding all_upto by (simp add: off_screen_def upt_conv_Cons del: set_upt)
  moreover have "0x0700 OR scast (0x41 :: uchar) = (0x0741 :: ushort)" by code_simp
  ultimately have "\<exists>s'. kprintf_loop 0x2000 [] demo_console = Some s' \<and> off_screen 0xB8FA0
      \<and> load16 (pmem s') 0xB8FA0 = 0x0700 OR scast (0x41 :: uchar) \<and> vga s' = 0xB8002"
    by (intro kprintf_newline_overruns) (simp_all add: demo_console_fields)
  then show ?thesis using \<open>0x0700 OR scast (0x41 :: uchar) = (0x0741 :: ushort)\<close> by auto
qed

end
