(* ===== verification/Bytes.thy ===== *)
theory Bytes
  imports Prelude
begin

text \<open>
  Byte arrays: the buffers and structures that drivers and file systems read and write at an
  offset.  Reading or writing outside the array has no result.
\<close>

section \<open>Access\<close>

definition get_bytes :: "int \<Rightarrow> int \<Rightarrow> uchar list \<Rightarrow> uchar list option" where
  "get_bytes off n xs =
     (if 0 \<le> off \<and> 0 \<le> n \<and> off + n \<le> int (length xs) then Some (take (nat n) (drop (nat off) xs)) else None)"

definition put_bytes :: "int \<Rightarrow> uchar list \<Rightarrow> uchar list \<Rightarrow> uchar list option" where
  "put_bytes off bs xs =
     (if 0 \<le> off \<and> off + int (length bs) \<le> int (length xs)
      then Some (take (nat off) xs @ bs @ drop (nat off + length bs) xs) else None)"

definition le16 :: "uchar list \<Rightarrow> ushort" where
  "le16 bs = ucast (bs ! 0) OR push_bit 8 (ucast (bs ! 1))"

definition le32 :: "uchar list \<Rightarrow> uint" where
  "le32 bs = ucast (bs ! 0) OR push_bit 8 (ucast (bs ! 1))
     OR push_bit 16 (ucast (bs ! 2)) OR push_bit 24 (ucast (bs ! 3))"

definition bytes16 :: "ushort \<Rightarrow> uchar list" where
  "bytes16 v = [ucast v, ucast (drop_bit 8 v)]"

definition bytes32 :: "uint \<Rightarrow> uchar list" where
  "bytes32 v = [ucast v, ucast (drop_bit 8 v), ucast (drop_bit 16 v), ucast (drop_bit 24 v)]"

definition get8 :: "int \<Rightarrow> uchar list \<Rightarrow> uchar option" where
  "get8 off xs = map_option (\<lambda>bs. bs ! 0) (get_bytes off 1 xs)"

definition get16 :: "int \<Rightarrow> uchar list \<Rightarrow> ushort option" where
  "get16 off xs = map_option le16 (get_bytes off 2 xs)"

definition get32 :: "int \<Rightarrow> uchar list \<Rightarrow> uint option" where
  "get32 off xs = map_option le32 (get_bytes off 4 xs)"

definition put16 :: "int \<Rightarrow> ushort \<Rightarrow> uchar list \<Rightarrow> uchar list option" where
  "put16 off v = put_bytes off (bytes16 v)"

definition put32 :: "int \<Rightarrow> uint \<Rightarrow> uchar list \<Rightarrow> uchar list option" where
  "put32 off v = put_bytes off (bytes32 v)"

section \<open>Laws\<close>

lemma le16_bytes16 [simp]: "le16 (bytes16 v) = v"
proof (rule bit_word_eqI)
  fix n :: nat
  assume "n < LENGTH(16)"
  then show "bit (le16 (bytes16 v)) n = bit v n"
    by (cases "n < 8") (auto simp: le16_def bytes16_def bit_simps)
qed

lemma le32_bytes32 [simp]: "le32 (bytes32 v) = v"
proof (rule bit_word_eqI)
  fix n :: nat
  assume "n < LENGTH(32)"
  then show "bit (le32 (bytes32 v)) n = bit v n"
    by (cases "n < 8"; cases "n < 16"; cases "n < 24") (auto simp: le32_def bytes32_def bit_simps)
qed

lemma bytes16_le16: "bytes16 (ucast a OR push_bit 8 (ucast b)) = [a, b]"
proof -
  have "ucast (ucast a OR push_bit 8 (ucast b) :: ushort) = a"
    by (rule bit_word_eqI) (auto simp: bit_simps)
  moreover have "ucast (drop_bit 8 (ucast a OR push_bit 8 (ucast b) :: ushort)) = b"
    by (rule bit_word_eqI) (auto simp: bit_simps dest: bit_imp_le_length)
  ultimately show ?thesis by (simp add: bytes16_def)
qed

lemma length_bytes [simp]: "length (bytes16 v) = 2" "length (bytes32 w) = 4"
  by (simp_all add: bytes16_def bytes32_def)

lemma put_bytes_length: "put_bytes off bs xs = Some ys \<Longrightarrow> length ys = length xs"
  by (auto simp: put_bytes_def split: if_splits)

lemma get_put_bytes: "put_bytes off bs xs = Some ys \<Longrightarrow> get_bytes off (int (length bs)) ys = Some bs"
  by (auto simp: put_bytes_def get_bytes_def split: if_splits)

lemma get_put_apart:
  assumes "put_bytes off bs xs = Some ys" "off' + n \<le> off \<or> off + int (length bs) \<le> off'"
  shows "get_bytes off' n ys = get_bytes off' n xs"
proof -
  have ys: "ys = take (nat off) xs @ bs @ drop (nat off + length bs) xs" "0 \<le> off"
    "off + int (length bs) \<le> int (length xs)"
    using assms(1) by (auto simp: put_bytes_def split: if_splits)
  have len: "length ys = length xs" using put_bytes_length [OF assms(1)] .
  have same: "ys ! k = xs ! k" if "k < nat off \<or> nat off + length bs \<le> k" "k < length xs" for k
  proof (cases "k < nat off")
    case False
    then have k: "nat off + length bs \<le> k" using that by simp
    have "take (nat off) xs @ bs @ drop (nat off + length bs) xs = (take (nat off) xs @ bs) @ drop (nat off + length bs) xs"
      by simp
    moreover have "length (take (nat off) xs @ bs) = nat off + length bs" using ys by simp
    ultimately have "ys ! k = drop (nat off + length bs) xs ! (k - (nat off + length bs))"
      using k by (simp only: ys(1) nth_append) simp
    then show ?thesis using k that(2) by simp
  qed (use that ys in \<open>simp add: nth_append\<close>)
  have "take (nat n) (drop (nat off') ys) = take (nat n) (drop (nat off') xs)"
    if "0 \<le> off'" "0 \<le> n" "off' + n \<le> int (length xs)"
  proof (rule nth_equalityI)
    fix i assume "i < length (take (nat n) (drop (nat off') ys))"
    then have i: "i < nat n" by simp
    have "ys ! (nat off' + i) = xs ! (nat off' + i)"
      using i that ys(2) assms(2) by (intro same) linarith+
    then show "take (nat n) (drop (nat off') ys) ! i = take (nat n) (drop (nat off') xs) ! i"
      using i that len by simp
  qed (use len in simp)
  then show ?thesis using len by (simp add: get_bytes_def)
qed

lemma get_bytes_all: "get_bytes 0 (int (length xs)) xs = Some xs"
  by (simp add: get_bytes_def)

end
