(* ===== verification/Disk.thy ===== *)
theory Disk
  imports Log Arch Bytes
begin

text \<open>
  The ATA driver of \<open>source/device/disk.c\<close>.  The drive is the machine's: its port operations
  are a record in the state, and its registers and medium the component \<open>drv\<close>.  A buffer
  that a routine fills is returned as the bytes it received, in order.
\<close>

section \<open>The state\<close>

record 'd ata_ops =
  a_outb :: "ushort \<Rightarrow> uchar \<Rightarrow> 'd \<Rightarrow> 'd"
  a_inb :: "ushort \<Rightarrow> 'd \<Rightarrow> uchar \<times> 'd"
  a_inw :: "ushort \<Rightarrow> 'd \<Rightarrow> ushort \<times> 'd"
  a_outw :: "ushort \<Rightarrow> ushort \<Rightarrow> 'd \<Rightarrow> 'd"

record part_info_t =
  p_name :: "uchar list"
  p_type :: int
  p_begin_sec :: uint
  p_count :: uint

datatype dev_op = DiskOp

record dev_type_t =
  ty_name :: string
  ty_major :: int
  ty_op :: "dev_op option"

record device_t =
  d_type :: dev_type_t
  d_mode :: int
  d_minor :: int
  d_param :: addr
  open_count :: int

record 'd disk = console +
  ata :: "'d ata_ops"
  drv :: 'd
  part_info :: "part_info_t list"
  wait_interupt :: int
  dcpu :: cpu
  pic :: device
  ide_entry :: uint

definition DISK_MUTEX :: nat where "DISK_MUTEX = 2"
definition DISK_SEM :: nat where "DISK_SEM = 0"
definition ENODISK :: int where "ENODISK = 11"
definition ENOPART :: int where "ENOPART = 12"

section \<open>Talking to the drive\<close>

definition send_cmd :: "'d ata_ops \<Rightarrow> uint \<Rightarrow> int \<Rightarrow> uchar \<Rightarrow> 'd \<Rightarrow> 'd" where
  "send_cmd ops start_sec count cmd d = fold (\<lambda>(p, v). a_outb ops p v)
     [(0x1F6, 0xE0),
      (0x1F2, word_of_int (drop_bit 8 count)),
      (0x1F3, ucast (drop_bit 24 start_sec)),
      (0x1F4, 0),
      (0x1F5, 0),
      (0x1F2, word_of_int count),
      (0x1F3, ucast start_sec),
      (0x1F4, ucast (drop_bit 8 start_sec)),
      (0x1F5, ucast (drop_bit 16 start_sec)),
      (0x1F7, cmd)] d"

partial_function (option) read_data :: "'d ata_ops \<Rightarrow> uint \<Rightarrow> uchar list \<Rightarrow> 'd \<Rightarrow> ('d \<times> uchar list) option" where
  "read_data ops sz buf d =
     (if sz > 0 then let (w, d) = a_inw ops 0x1F0 d in read_data ops (sz - 2) (buf @ bytes16 w) d
      else Some (d, buf))"

partial_function (option) write_data :: "'d ata_ops \<Rightarrow> uint \<Rightarrow> uchar list \<Rightarrow> 'd \<Rightarrow> 'd option" where
  "write_data ops sz buf d =
     (if sz > 0
      then do { w \<leftarrow> get16 0 buf; write_data ops (sz - 2) (drop 2 buf) (a_outw ops 0x1F0 w d) }
      else Some d)"

partial_function (option) wait_data :: "'d ata_ops \<Rightarrow> 'd \<Rightarrow> ('d \<times> int) option" where
  "wait_data ops d =
     (let (status, d) = a_inb ops 0x1F7 d
      in if status AND 137 \<noteq> 128 then Some (d, if status AND 1 \<noteq> 0 then - 1 else 0) else wait_data ops d)"

declare read_data.simps [code] write_data.simps [code] wait_data.simps [code]

section \<open>Partitions\<close>

text \<open>One entry of the partition table at offset 446 of the boot sector.\<close>

definition load_part :: "uchar list \<Rightarrow> nat \<Rightarrow> part_info_t \<Rightarrow> part_info_t option" where
  "load_part sec i part = do {
     let item = 446 + 16 * int i;
     fs_type \<leftarrow> get8 (item + 4) sec;
     relative_sec \<leftarrow> get32 (item + 8) sec;
     count \<leftarrow> get32 (item + 12) sec;
     let part = part\<lparr>p_type := uint fs_type\<rparr>;
     if fs_type = 0 then Some (part\<lparr>p_count := 0, p_begin_sec := 0, p_type := 0\<rparr>)
     else do {
       name \<leftarrow> put_bytes 0 [0x53, 0x44, 0x41] (p_name part);
       name \<leftarrow> put_bytes 3 [48 + of_nat i] name;
       Some (part\<lparr>p_name := name, p_begin_sec := relative_sec, p_count := count, p_type := uint fs_type\<rparr>) } }"

fun load_parts :: "nat list \<Rightarrow> uchar list \<Rightarrow> part_info_t list \<Rightarrow> part_info_t list option" where
  "load_parts [] sec parts = Some parts"
| "load_parts (i # is) sec parts = do {
     part \<leftarrow> load_part sec i (parts ! (i + 1));
     load_parts is sec (parts[i + 1 := part]) }"

definition load_part_info :: "('d, 'a) disk_scheme \<Rightarrow> (('d, 'a) disk_scheme \<times> int) option" where
  "load_part_info s = do {
     let d = send_cmd (ata s) 0 1 0x24 (drv s);
     (d, err) \<leftarrow> wait_data (ata s) d;
     if err \<noteq> 0 then Some (s\<lparr>drv := d\<rparr>, - ENODISK)
     else do {
       (d, sec) \<leftarrow> read_data (ata s) (256 * 2) [] d;
       parts \<leftarrow> load_parts [0..<4] sec (part_info s);
       Some (s\<lparr>drv := d, part_info := parts\<rparr>, 0) } }"

text \<open>The size of the disk is set to the address of the word in the buffer, which is on the
  stack: a parameter.\<close>

definition load_disk_info :: "addr \<Rightarrow> ('d, 'a) disk_scheme \<Rightarrow> (('d, 'a) disk_scheme \<times> int) option" where
  "load_disk_info data s = do {
     let d = send_cmd (ata s) 0 0 0xEC (drv s);
     let (err, d) = a_inb (ata s) 0x1F7 d;
     if err = 0 then Some (s\<lparr>drv := d\<rparr>, - ENODISK)
     else do {
       (d, err) \<leftarrow> wait_data (ata s) d;
       if err \<noteq> 0 then Some (s\<lparr>drv := d\<rparr>, - ENODISK)
       else do {
         (d, _) \<leftarrow> read_data (ata s) (256 * 2) [] d;
         name \<leftarrow> put_bytes 0 [0x53, 0x44, 0x41, 0] (p_name (part_info s ! 0));
         let info = (part_info s ! 0)\<lparr>p_name := name, p_begin_sec := 0, p_count := data + 200, p_type := 0\<rparr>;
         (s, _) \<leftarrow> load_part_info (s\<lparr>drv := d, part_info := (part_info s)[0 := info]\<rparr>);
         Some (s, 0) } } }"

definition disk_init :: "addr \<Rightarrow> ('d, 'a) disk_scheme \<Rightarrow> ('d, 'a) disk_scheme option" where
  "disk_init data s = map_option fst (load_disk_info data (sem_init DISK_SEM 0 (mutex_init DISK_MUTEX s)))"

section \<open>The driver's operations\<close>

definition part_of :: "device_t \<Rightarrow> ('d, 'a) disk_scheme \<Rightarrow> part_info_t option" where
  "part_of dev s =
     (let i = nat (d_minor dev AND 0xF) in if i < length (part_info s) then Some (part_info s ! i) else None)"

definition disk_open :: "device_t \<Rightarrow> ('d, 'a) disk_scheme \<Rightarrow> (('d, 'a) disk_scheme \<times> int) option" where
  "disk_open dev s = do {
     info \<leftarrow> part_of dev s;
     if p_count info = 0 then Some (s, - ENOPART)
     else do {
       (c, _) \<leftarrow> irq_install 0x2E (ide_entry s) (dcpu s);
       Some (s\<lparr>dcpu := enable_8259 (pic s) 0x2E c\<rparr>, 0) } }"

definition do_handler_ide :: "('d, 'a) disk_scheme \<Rightarrow> ('d, 'a) disk_scheme option" where
  "do_handler_ide s = do {
     s \<leftarrow> (if wait_interupt s \<noteq> 0 \<and> current s \<noteq> None then sem_notify DISK_SEM s else Some s);
     Some (s\<lparr>dcpu := pic_done 0x2E (dcpu s)\<rparr>) }"

text \<open>The wait for the drive's interrupt, when it has arrived before the process waits.  The
  order in which the process sleeps first is that of the semaphores in \<open>Ipc\<close>.\<close>

definition ide_wait :: "('d, 'a) disk_scheme \<Rightarrow> ('d, 'a) disk_scheme option" where
  "ide_wait s = do_handler_ide s \<bind> at_once (sem_wait DISK_SEM)"

definition disk_close :: "('d, 'a) disk_scheme \<Rightarrow> ('d, 'a) disk_scheme" where
  "disk_close s = s\<lparr>dcpu := disable_8259 (pic s) 0x2E (dcpu s)\<rparr>"

primrec read_sectors ::
    "nat \<Rightarrow> uchar list \<Rightarrow> ('d, 'a) disk_scheme \<Rightarrow> (('d, 'a) disk_scheme \<times> int \<times> uchar list) option" where
  "read_sectors 0 buf s = Some (s, 0, buf)"
| "read_sectors (Suc n) buf s = do {
     s \<leftarrow> (if current s \<noteq> None then ide_wait s else Some s);
     (d, err) \<leftarrow> wait_data (ata s) (drv s);
     if err \<noteq> 0 then Some (s\<lparr>drv := d\<rparr>, - ENODISK, buf)
     else do {
       (d, sec) \<leftarrow> read_data (ata s) 512 [] d;
       read_sectors n (buf @ sec) (s\<lparr>drv := d\<rparr>) } }"

definition disk_read ::
    "device_t \<Rightarrow> int \<Rightarrow> int \<Rightarrow> ('d, 'a) disk_scheme \<Rightarrow> (('d, 'a) disk_scheme \<times> int \<times> uchar list) option" where
  "disk_read dev begin_sec count s = do {
     s \<leftarrow> at_once (mutex_lock DISK_MUTEX) s;
     info \<leftarrow> part_of dev s;
     if p_count info = 0 then Some (s, - ENOPART, [])
     else do {
       let s = s\<lparr>wait_interupt := 1\<rparr>;
       let s = s\<lparr>drv := send_cmd (ata s) (p_begin_sec info + word_of_int begin_sec) count 0x24 (drv s)\<rparr>;
       (s, err, buf) \<leftarrow> read_sectors (nat count) [] s;
       if err \<noteq> 0 then Some (s, err, buf)
       else do {
         s \<leftarrow> at_once (mutex_unlock DISK_MUTEX) s;
         Some (s, int (nat count), buf) } } }"

primrec write_sectors ::
    "nat \<Rightarrow> uchar list \<Rightarrow> ('d, 'a) disk_scheme \<Rightarrow> (('d, 'a) disk_scheme \<times> int) option" where
  "write_sectors 0 buf s = Some (s, 0)"
| "write_sectors (Suc n) buf s = do {
     d \<leftarrow> write_data (ata s) 512 buf (drv s);
     let s = s\<lparr>drv := d\<rparr>;
     s \<leftarrow> (if current s \<noteq> None then ide_wait s else Some s);
     (d, err) \<leftarrow> wait_data (ata s) (drv s);
     let s = s\<lparr>drv := d\<rparr>;
     if err \<noteq> 0 then Some (s, - ENODISK)
     else write_sectors n (drop 512 buf) s }"

definition disk_write ::
    "device_t \<Rightarrow> int \<Rightarrow> uchar list \<Rightarrow> int \<Rightarrow> ('d, 'a) disk_scheme \<Rightarrow> (('d, 'a) disk_scheme \<times> int) option" where
  "disk_write dev begin_sec buf count s = do {
     s \<leftarrow> at_once (mutex_lock DISK_MUTEX) s;
     info \<leftarrow> part_of dev s;
     if p_count info = 0 then Some (s, - ENOPART)
     else do {
       let s = s\<lparr>wait_interupt := 1\<rparr>;
       let s = s\<lparr>drv := send_cmd (ata s) (p_begin_sec info + word_of_int begin_sec) count 0x34 (drv s)\<rparr>;
       (s, err) \<leftarrow> write_sectors (nat count) buf s;
       if err \<noteq> 0 then Some (s, err)
       else do {
         s \<leftarrow> at_once (mutex_unlock DISK_MUTEX) s;
         Some (s, int (nat count)) } } }"

definition disk_ctrol :: "device_t \<Rightarrow> int \<Rightarrow> ('d, 'a) disk_scheme \<Rightarrow> ('d, 'a) disk_scheme \<times> int" where
  "disk_ctrol dev cmd s = (s, 0)"

section \<open>Drives\<close>

text \<open>
  What the driver relies on: after a read command the drive offers the sectors asked for, one
  after the other, and after a write command it takes as many.
\<close>

locale ata_drive =
  fixes ops :: "'d ata_ops"
    and sector :: "'d \<Rightarrow> nat \<Rightarrow> uchar list"
    and offers :: "'d \<Rightarrow> uchar list list \<Rightarrow> bool"
    and expects :: "'d \<Rightarrow> nat \<Rightarrow> nat \<Rightarrow> bool"
  assumes cmd_sector: "sector (send_cmd ops lba count cmd d) = sector d"
    and read_cmd: "0 < count \<Longrightarrow> count < 2 ^ 16 \<Longrightarrow>
      offers (send_cmd ops lba count 0x24 d) (map (sector d) [unat lba ..< unat lba + nat count])"
    and offers_ready: "offers d ss \<Longrightarrow> \<exists>d'. wait_data ops d = Some (d', 0) \<and> offers d' ss \<and> sector d' = sector d"
    and offers_next: "offers d (b # ss) \<Longrightarrow>
      \<exists>d'. read_data ops 512 [] d = Some (d', b) \<and> offers d' ss \<and> sector d' = sector d"
    and write_cmd: "0 < count \<Longrightarrow> count < 2 ^ 16 \<Longrightarrow> expects (send_cmd ops lba count 0x34 d) (unat lba) (nat count)"
    and expects_ready: "expects d l n \<Longrightarrow>
      \<exists>d'. wait_data ops d = Some (d', 0) \<and> expects d' l n \<and> sector d' = sector d"
    and expects_next: "expects d l (Suc n) \<Longrightarrow> 512 \<le> length bs \<Longrightarrow>
      \<exists>d'. write_data ops 512 bs d = Some d' \<and> expects d' (Suc l) n \<and> sector d' = (sector d)(l := take 512 bs)"

text \<open>No other process waits for the drive.\<close>

definition quiet :: "('d, 'a) disk_scheme \<Rightarrow> bool" where
  "quiet s \<longleftrightarrow> queue_empty (links s) (SemHead DISK_SEM) \<and> 0 \<le> sem_count s DISK_SEM"

lemma ide_wait_quiet:
  assumes "quiet s" "wait_interupt s \<noteq> 0" "current s \<noteq> None"
  shows "ide_wait s = Some (s\<lparr>dcpu := pic_done 0x2E (dcpu s)\<rparr>)"
  using assms
  by (simp add: ide_wait_def do_handler_ide_def sem_notify_def at_once_def sem_wait_def quiet_def)

text \<open>A mutex nobody holds or waits for is taken and given back at once.\<close>

definition idle_mutex :: "nat \<Rightarrow> 'a kernel_scheme \<Rightarrow> bool" where
  "idle_mutex m s \<longleftrightarrow> mutexes s m = \<lparr>lock_times = 0, owner = None\<rparr> \<and> queue_empty (links s) (MutexHead m)"

definition hold :: "nat \<Rightarrow> 'a kernel_scheme \<Rightarrow> 'a kernel_scheme" where
  "hold m s = s\<lparr>mutexes := (mutexes s)(m := \<lparr>lock_times = 1, owner = current s\<rparr>)\<rparr>"

lemma lock_idle: "idle_mutex m s \<Longrightarrow> at_once (mutex_lock m) s = Some (hold m s)"
  by (simp add: idle_mutex_def hold_def at_once_def mutex_lock_def Let_def)

lemma unlock_held:
  assumes "mutexes s m = \<lparr>lock_times = 1, owner = current s\<rparr>" "queue_empty (links s) (MutexHead m)"
  shows "at_once (mutex_unlock m) s = Some (s\<lparr>mutexes := (mutexes s)(m := \<lparr>lock_times = 0, owner = None\<rparr>)\<rparr>)"
  using assms by (simp add: at_once_def mutex_unlock_def Let_def)

lemma idle_again: "idle_mutex m s \<Longrightarrow> (mutexes s)(m := \<lparr>lock_times = 0, owner = None\<rparr>) = mutexes s"
  by (simp add: idle_mutex_def fun_upd_idem)

definition disk_idle :: "('d, 'a) disk_scheme \<Rightarrow> bool" where
  "disk_idle s \<longleftrightarrow> idle_mutex DISK_MUTEX s \<and> quiet s"

lemma part_of_upd [simp]:
  "part_of dev (s\<lparr>mutexes := x\<rparr>) = part_of dev s" "part_of dev (s\<lparr>drv := d\<rparr>) = part_of dev s"
  "part_of dev (s\<lparr>dcpu := c\<rparr>) = part_of dev s" "part_of dev (s\<lparr>wait_interupt := w\<rparr>) = part_of dev s"
  "part_of dev (s\<lparr>current := t\<rparr>) = part_of dev s"
  by (simp_all add: part_of_def Let_def cong: if_cong)

context ata_drive
begin

lemma read_sectors_offered:
  fixes s :: "('d, 'a) disk_scheme"
  assumes "offers (drv s) ss" "quiet s" "wait_interupt s \<noteq> 0" "ata s = ops"
  shows "\<exists>d c. read_sectors (length ss) buf s = Some (s\<lparr>drv := d, dcpu := c\<rparr>, 0, buf @ concat ss)
    \<and> sector d = sector (drv s)"
  using assms
proof (induction ss arbitrary: s buf)
  case Nil
  then show ?case by (intro exI [of _ "drv s"] exI [of _ "dcpu s"]) simp
next
  case (Cons b ss)
  define c where "c = (if current s \<noteq> None then pic_done 0x2E (dcpu s) else dcpu s)"
  let ?s1 = "s\<lparr>dcpu := c\<rparr>"
  have w: "(if current s \<noteq> None then ide_wait s else Some s) = Some ?s1"
    using Cons.prems by (simp add: c_def ide_wait_quiet)
  obtain d1 where d1: "wait_data ops (drv s) = Some (d1, 0)" "offers d1 (b # ss)" "sector d1 = sector (drv s)"
    using offers_ready [OF Cons.prems(1)] by auto
  obtain d2 where d2: "read_data ops 512 [] d1 = Some (d2, b)" "offers d2 ss" "sector d2 = sector d1"
    using offers_next [OF d1(2)] by auto
  let ?s2 = "?s1\<lparr>drv := d2\<rparr>"
  have q: "quiet ?s2" using Cons.prems(2) by (simp add: quiet_def)
  obtain d c' where "read_sectors (length ss) (buf @ b) ?s2 = Some (?s2\<lparr>drv := d, dcpu := c'\<rparr>, 0, (buf @ b) @ concat ss)"
    "sector d = sector (drv ?s2)"
    using Cons.IH [of ?s2 "buf @ b"] d2(2) q Cons.prems(3,4) by auto
  then show ?case
    using w d1 d2 Cons.prems(4) by (intro exI [of _ d] exI [of _ c']) simp
qed

lemma write_sectors_expected:
  fixes s :: "('d, 'a) disk_scheme"
  assumes "expects (drv s) l n" "quiet s" "wait_interupt s \<noteq> 0" "ata s = ops" "512 * n \<le> length buf"
  shows "\<exists>d c. write_sectors n buf s = Some (s\<lparr>drv := d, dcpu := c\<rparr>, 0)
    \<and> (\<forall>i. sector d i = (if l \<le> i \<and> i < l + n then take 512 (drop (512 * (i - l)) buf) else sector (drv s) i))"
  using assms
proof (induction n arbitrary: s l buf)
  case 0
  then show ?case by (intro exI [of _ "drv s"] exI [of _ "dcpu s"]) auto
next
  case (Suc n)
  obtain d1 where d1: "write_data ops 512 buf (drv s) = Some d1" "expects d1 (Suc l) n"
    "sector d1 = (sector (drv s))(l := take 512 buf)"
    using expects_next [OF Suc.prems(1), of buf] Suc.prems(5) by auto
  define c where "c = (if current s \<noteq> None then pic_done 0x2E (dcpu s) else dcpu s)"
  let ?s1 = "s\<lparr>drv := d1\<rparr>" and ?s2 = "s\<lparr>drv := d1, dcpu := c\<rparr>"
  have "quiet ?s1" using Suc.prems(2) by (simp add: quiet_def)
  then have w: "(if current ?s1 \<noteq> None then ide_wait ?s1 else Some ?s1) = Some ?s2"
    using Suc.prems(3) by (simp add: c_def ide_wait_quiet)
  obtain d2 where d2: "wait_data ops d1 = Some (d2, 0)" "expects d2 (Suc l) n" "sector d2 = sector d1"
    using expects_ready [OF d1(2)] by auto
  let ?s3 = "s\<lparr>dcpu := c, drv := d2\<rparr>"
  have q: "quiet ?s3" using Suc.prems(2) by (simp add: quiet_def)
  have len: "512 * n \<le> length (drop 512 buf)" using Suc.prems(5) by simp
  obtain d c' where rest: "write_sectors n (drop 512 buf) ?s3 = Some (?s3\<lparr>drv := d, dcpu := c'\<rparr>, 0)"
    "\<forall>i. sector d i = (if Suc l \<le> i \<and> i < Suc l + n then take 512 (drop (512 * (i - Suc l)) (drop 512 buf)) else sector d2 i)"
    using Suc.IH [of ?s3 "Suc l" "drop 512 buf"] d2(2) q Suc.prems(3,4) len by (auto cong: if_cong)
  have "write_sectors (Suc n) buf s = Some (s\<lparr>drv := d, dcpu := c'\<rparr>, 0)"
    using d1(1) w d2(1) rest(1) Suc.prems(4) by (simp del: Option.bind_eq_Some_conv split: if_splits)
  moreover have "sector d i = (if l \<le> i \<and> i < l + Suc n then take 512 (drop (512 * (i - l)) buf) else sector (drv s) i)" for i
  proof (cases "Suc l \<le> i \<and> i < Suc l + n")
    case True
    then have "i - l = Suc (i - Suc l)" by arith
    then show ?thesis using rest(2) True by (simp add: add.commute)
  qed (use rest(2) d1(3) d2(3) in auto)
  ultimately show ?case by blast
qed

lemma disk_read_sectors:
  fixes s :: "('d, 'a) disk_scheme" and begin_sec :: int
  assumes idle: "disk_idle s" and ops: "ata s = ops"
    and part: "part_of dev s = Some info" "p_count info \<noteq> 0" and count: "0 < count" "count < 2 ^ 16"
  defines "lba \<equiv> unat (p_begin_sec info + word_of_int begin_sec)"
  shows "\<exists>d c. disk_read dev begin_sec count s =
      Some (s\<lparr>wait_interupt := 1, drv := d, dcpu := c\<rparr>, count,
        concat (map (sector (drv s)) [lba ..< lba + nat count])) \<and> sector d = sector (drv s)"
proof -
  have im: "idle_mutex DISK_MUTEX s" and q: "quiet s" using idle by (simp_all add: disk_idle_def)
  let ?d = "send_cmd ops (p_begin_sec info + word_of_int begin_sec) count 0x24 (drv s)"
  let ?s1 = "(hold DISK_MUTEX s)\<lparr>wait_interupt := 1, drv := ?d\<rparr>"
  have "quiet ?s1" "ata ?s1 = ops" using q ops by (simp_all add: quiet_def hold_def)
  moreover have "offers (drv ?s1) (map (sector (drv s)) [lba ..< lba + nat count])"
    using read_cmd [OF count] by (simp add: lba_def)
  moreover have "length (map (sector (drv s)) [lba ..< lba + nat count]) = nat count" by simp
  ultimately obtain d c where r: "read_sectors (nat count) [] ?s1 =
      Some (?s1\<lparr>drv := d, dcpu := c\<rparr>, 0, concat (map (sector (drv s)) [lba ..< lba + nat count]))"
    "sector d = sector ?d"
    using read_sectors_offered [of ?s1 "map (sector (drv s)) [lba ..< lba + nat count]" "[]"] by auto
  let ?s2 = "?s1\<lparr>drv := d, dcpu := c\<rparr>"
  have "at_once (mutex_unlock DISK_MUTEX) ?s2 = Some (?s2\<lparr>mutexes := mutexes s\<rparr>)"
    using im by (subst unlock_held) (simp_all add: hold_def idle_mutex_def fun_upd_idem)
  moreover have "?s2\<lparr>mutexes := mutexes s\<rparr> = s\<lparr>wait_interupt := 1, drv := d, dcpu := c\<rparr>"
    by (simp add: hold_def)
  moreover have "part_of dev (hold DISK_MUTEX s) = Some info" "ata (hold DISK_MUTEX s) = ops" "drv (hold DISK_MUTEX s) = drv s"
    using part ops by (simp_all add: hold_def)
  ultimately have "disk_read dev begin_sec count s =
      Some (s\<lparr>wait_interupt := 1, drv := d, dcpu := c\<rparr>, count, concat (map (sector (drv s)) [lba ..< lba + nat count]))"
    using part(2) r(1) count by (simp add: disk_read_def lock_idle [OF im])
  then show ?thesis using r(2) by (auto simp: cmd_sector)
qed

lemma disk_write_sectors:
  fixes s :: "('d, 'a) disk_scheme" and begin_sec :: int
  assumes idle: "disk_idle s" and ops: "ata s = ops"
    and part: "part_of dev s = Some info" "p_count info \<noteq> 0" and count: "0 < count" "count < 2 ^ 16"
    and buf: "512 * nat count \<le> length buf"
  defines "lba \<equiv> unat (p_begin_sec info + word_of_int begin_sec)"
  shows "\<exists>d c. disk_write dev begin_sec buf count s = Some (s\<lparr>wait_interupt := 1, drv := d, dcpu := c\<rparr>, count)
    \<and> (\<forall>i. sector d i = (if lba \<le> i \<and> i < lba + nat count then take 512 (drop (512 * (i - lba)) buf)
        else sector (drv s) i))"
proof -
  have im: "idle_mutex DISK_MUTEX s" and q: "quiet s" using idle by (simp_all add: disk_idle_def)
  let ?d = "send_cmd ops (p_begin_sec info + word_of_int begin_sec) count 0x34 (drv s)"
  let ?s1 = "(hold DISK_MUTEX s)\<lparr>wait_interupt := 1, drv := ?d\<rparr>"
  have "quiet ?s1" "ata ?s1 = ops" using q ops by (simp_all add: quiet_def hold_def)
  moreover have "expects (drv ?s1) lba (nat count)" using write_cmd [OF count] by (simp add: lba_def)
  ultimately obtain d c where r: "write_sectors (nat count) buf ?s1 = Some (?s1\<lparr>drv := d, dcpu := c\<rparr>, 0)"
    "\<forall>i. sector d i = (if lba \<le> i \<and> i < lba + nat count then take 512 (drop (512 * (i - lba)) buf) else sector ?d i)"
    using write_sectors_expected [of ?s1 lba "nat count" buf] buf by auto
  let ?s2 = "?s1\<lparr>drv := d, dcpu := c\<rparr>"
  have "at_once (mutex_unlock DISK_MUTEX) ?s2 = Some (?s2\<lparr>mutexes := mutexes s\<rparr>)"
    using im by (subst unlock_held) (simp_all add: hold_def idle_mutex_def fun_upd_idem)
  moreover have "?s2\<lparr>mutexes := mutexes s\<rparr> = s\<lparr>wait_interupt := 1, drv := d, dcpu := c\<rparr>"
    by (simp add: hold_def)
  moreover have "part_of dev (hold DISK_MUTEX s) = Some info" "ata (hold DISK_MUTEX s) = ops" "drv (hold DISK_MUTEX s) = drv s"
    using part ops by (simp_all add: hold_def)
  ultimately have "disk_write dev begin_sec buf count s = Some (s\<lparr>wait_interupt := 1, drv := d, dcpu := c\<rparr>, count)"
    using part(2) r(1) count by (simp add: disk_write_def lock_idle [OF im])
  then show ?thesis using r(2) by (auto simp: cmd_sector)
qed

end

section \<open>A drive\<close>

text \<open>
  A drive with 48-bit addresses and programmed I/O: each register of the task file is two bytes
  deep, a command reads the last two bytes written, and the data port moves a word at a time.
\<close>

record ide =
  i_log :: out_log
  i_sectors :: "nat \<Rightarrow> uchar list"
  i_ident :: "uchar list"
  i_out :: "uchar list"
  i_target :: nat
  i_left :: nat
  i_acc :: "uchar list"

definition reg :: "nat \<Rightarrow> ushort \<Rightarrow> out_log \<Rightarrow> uchar" where
  "reg k p log = (let vs = map snd (filter (\<lambda>x. fst x = p) log) in if k < length vs then vs ! k else 0)"

definition log_lba :: "out_log \<Rightarrow> nat" where
  "log_lba log = unat (le32 [reg 0 0x1F3 log, reg 0 0x1F4 log, reg 0 0x1F5 log, reg 1 0x1F3 log])
     + 2 ^ 32 * unat (le16 [reg 1 0x1F4 log, reg 1 0x1F5 log])"

definition log_count :: "out_log \<Rightarrow> nat" where
  "log_count log = (let n = unat (le16 [reg 0 0x1F2 log, reg 1 0x1F2 log]) in if n = 0 then 2 ^ 16 else n)"

text \<open>A sector of the medium has 512 bytes.\<close>

definition medium :: "ide \<Rightarrow> nat \<Rightarrow> uchar list" where
  "medium d i = take 512 (i_sectors d i @ replicate 512 0)"

definition ide_outb :: "ushort \<Rightarrow> uchar \<Rightarrow> ide \<Rightarrow> ide" where
  "ide_outb p v d =
     (let d = d\<lparr>i_log := (p, v) # i_log d\<rparr>; lba = log_lba (i_log d); n = log_count (i_log d) in
      if p \<noteq> 0x1F7 then d
      else if v = 0x24 then d\<lparr>i_out := concat (map (medium d) [lba ..< lba + n]), i_left := 0\<rparr>
      else if v = 0x34 then d\<lparr>i_target := lba, i_left := n, i_acc := [], i_out := []\<rparr>
      else if v = 0xEC then d\<lparr>i_out := i_ident d, i_left := 0\<rparr> else d)"

definition ide_inb :: "ushort \<Rightarrow> ide \<Rightarrow> uchar \<times> ide" where
  "ide_inb p d = (0x50, d)"

definition ide_inw :: "ushort \<Rightarrow> ide \<Rightarrow> ushort \<times> ide" where
  "ide_inw p d = (le16 (take 2 (i_out d @ [0xff, 0xff])), d\<lparr>i_out := drop 2 (i_out d)\<rparr>)"

definition ide_outw :: "ushort \<Rightarrow> ushort \<Rightarrow> ide \<Rightarrow> ide" where
  "ide_outw p w d =
     (if i_left d = 0 then d
      else let acc = i_acc d @ bytes16 w in
        if length acc < 512 then d\<lparr>i_acc := acc\<rparr>
        else d\<lparr>i_sectors := (i_sectors d)(i_target d := acc), i_acc := [],
               i_target := Suc (i_target d), i_left := i_left d - 1\<rparr>)"

definition ide_ops :: "ide ata_ops" where
  "ide_ops = \<lparr>a_outb = ide_outb, a_inb = ide_inb, a_inw = ide_inw, a_outw = ide_outw\<rparr>"

lemma send_cmd_ide:
  "send_cmd ide_ops lba count cmd d =
     ide_outb 0x1F7 cmd (d\<lparr>i_log := (0x1F5, ucast (drop_bit 16 lba)) # (0x1F4, ucast (drop_bit 8 lba)) #
       (0x1F3, ucast lba) # (0x1F2, word_of_int count) # (0x1F5, 0) # (0x1F4, 0) #
       (0x1F3, ucast (drop_bit 24 lba)) # (0x1F2, word_of_int (drop_bit 8 count)) # (0x1F6, 0xE0) # i_log d\<rparr>)"
proof -
  have o: "ide_outb p v d = d\<lparr>i_log := (p, v) # i_log d\<rparr>" if "p \<noteq> 0x1F7" for p v d
    using that by (simp add: ide_outb_def Let_def)
  have p: "a_outb ide_ops = ide_outb" by (simp add: ide_ops_def)
  show ?thesis unfolding send_cmd_def p by (simp add: o)
qed

lemma count_bytes:
  "le16 [word_of_int count, word_of_int (drop_bit 8 count)] = word_of_int count"
proof -
  have "[word_of_int count, word_of_int (drop_bit 8 count)] = bytes16 (word_of_int count)"
    unfolding bytes16_def by (auto intro!: bit_word_eqI simp: bit_simps)
  then show ?thesis by simp
qed

lemma command_registers:
  fixes lba :: uint and count :: int and cmd :: uchar
  assumes "0 < count" "count < 2 ^ 16"
  defines "log \<equiv> \<lambda>l. (0x1F7, cmd) # (0x1F5, ucast (drop_bit 16 lba)) # (0x1F4, ucast (drop_bit 8 lba)) #
       (0x1F3, ucast lba) # (0x1F2, word_of_int count) # (0x1F5, 0) # (0x1F4, 0) #
       (0x1F3, ucast (drop_bit 24 lba)) # (0x1F2, word_of_int (drop_bit 8 count)) # (0x1F6, 0xE0) # l"
  shows "log_lba (log l) = unat (lba :: uint)" "log_count (log l) = nat count"
proof -
  have "le32 [ucast lba, ucast (drop_bit 8 lba), ucast (drop_bit 16 lba), ucast (drop_bit 24 lba)] = lba"
    using le32_bytes32 [of lba] by (simp only: bytes32_def)
  moreover have "le16 [0, 0] = 0" by code_simp
  ultimately show "log_lba (log l) = unat lba" by (simp add: log_lba_def reg_def log_def)
  have "unat (word_of_int count :: ushort) = nat count"
    using assms(1,2) by (simp add: unat_eq_nat_uint uint_word_of_int mod_pos_pos_trivial)
  then show "log_count (log l) = nat count"
    using assms(1) by (simp add: log_count_def reg_def log_def count_bytes Let_def)
qed

lemma of_nat_pos: "0 < k \<Longrightarrow> k < 2 ^ 32 \<Longrightarrow> (of_nat k :: uint) > 0"
  by (simp add: word_less_nat_alt unsigned_of_nat take_bit_nat_eq_self)

lemma read_data_ide:
  assumes "length bs = 2 * n" "n < 2 ^ 30"
  shows "read_data ide_ops (of_nat (2 * n)) buf (d\<lparr>i_out := bs @ rest\<rparr>) = Some (d\<lparr>i_out := rest\<rparr>, buf @ bs)"
  using assms
proof (induction n arbitrary: bs buf)
  case 0
  then show ?case by (simp add: read_data.simps)
next
  case (Suc n)
  obtain a b cs where bs: "bs = a # b # cs" "length cs = 2 * n"
    using Suc.prems(1) by (metis Suc_length_conv mult_Suc_right add_2_eq_Suc)
  have pos: "(of_nat (2 * Suc n) :: uint) > 0" using Suc.prems(2) by (intro of_nat_pos) simp_all
  have "ide_inw 0x1F0 (d\<lparr>i_out := bs @ rest\<rparr>) = (le16 [a, b], d\<lparr>i_out := cs @ rest\<rparr>)"
    by (simp add: ide_inw_def bs)
  moreover have "bytes16 (le16 [a, b]) = [a, b]" using bytes16_le16 by (simp add: le16_def)
  ultimately have "read_data ide_ops (of_nat (2 * Suc n)) buf (d\<lparr>i_out := bs @ rest\<rparr>) =
      read_data ide_ops (of_nat (2 * n)) (buf @ [a, b]) (d\<lparr>i_out := cs @ rest\<rparr>)"
    using pos by (subst read_data.simps) (simp add: ide_ops_def)
  also have "\<dots> = Some (d\<lparr>i_out := rest\<rparr>, buf @ bs)"
    using Suc.IH [of cs "buf @ [a, b]"] Suc.prems(2) bs by simp
  finally show ?case .
qed

lemma write_data_ide:
  assumes "n < 2 ^ 30" "2 * n \<le> length bs" "0 < i_left d" "length (i_acc d) + 2 * n = 512"  "0 < n"
  shows "write_data ide_ops (of_nat (2 * n)) bs d = Some (d\<lparr>i_sectors := (i_sectors d)(i_target d := i_acc d @ take (2 * n) bs),
     i_acc := [], i_target := Suc (i_target d), i_left := i_left d - 1\<rparr>)"
  using assms
proof (induction n arbitrary: bs d)
  case (Suc n)
  obtain a b cs where bs: "bs = a # b # cs" "2 * n \<le> length cs"
    using Suc.prems(2) by (cases bs; cases "tl bs") auto
  have pos: "(of_nat (2 * Suc n) :: uint) > 0" using Suc.prems(1) by (intro of_nat_pos) simp_all
  have w: "get16 0 bs = Some (le16 [a, b])" by (simp add: get16_def get_bytes_def bs)
  have b2: "bytes16 (le16 [a, b]) = [a, b]" using bytes16_le16 by (simp add: le16_def)
  have step: "write_data ide_ops (of_nat (2 * Suc n)) bs d = write_data ide_ops (of_nat (2 * n)) cs (ide_outw 0x1F0 (le16 [a, b]) d)"
    using pos w bs by (subst write_data.simps) (simp add: ide_ops_def)
  show ?case
  proof (cases n)
    case 0
    then show ?thesis using step Suc.prems bs b2 by (simp add: ide_outw_def Let_def write_data.simps fun_upd_def)
  next
    case (Suc k)
    then have "ide_outw 0x1F0 (le16 [a, b]) d = d\<lparr>i_acc := i_acc d @ [a, b]\<rparr>"
      using Suc.prems b2 by (simp add: ide_outw_def Let_def)
    then show ?thesis
      using step Suc.IH [of cs "d\<lparr>i_acc := i_acc d @ [a, b]\<rparr>"] Suc.prems bs Suc by simp
  qed
qed simp

lemma wait_data_ide: "wait_data ide_ops d = Some (d, 0)"
proof -
  have "(0x50 AND 137 :: uchar) \<noteq> 128" "(0x50 AND 1 :: uchar) = 0" by code_simp+
  then show ?thesis by (subst wait_data.simps) (simp add: ide_ops_def ide_inb_def Let_def)
qed

text \<open>The drive's medium as the contract sees it; it keeps to its sector size.\<close>

definition ide_offers :: "ide \<Rightarrow> uchar list list \<Rightarrow> bool" where
  "ide_offers d ss \<longleftrightarrow> i_out d = concat ss \<and> (\<forall>b \<in> set ss. length b = 512)"

definition ide_expects :: "ide \<Rightarrow> nat \<Rightarrow> nat \<Rightarrow> bool" where
  "ide_expects d l n \<longleftrightarrow> i_target d = l \<and> i_left d = n \<and> i_acc d = []"

lemma medium_length [simp]: "length (medium d i) = 512"
  by (simp add: medium_def)

lemma medium_log [simp]: "medium (d\<lparr>i_log := l\<rparr>) = medium d"
  by (rule ext) (simp add: medium_def)

lemma medium_cong: "i_sectors d = i_sectors d' \<Longrightarrow> medium d = medium d'"
  by (rule ext) (simp add: medium_def)

interpretation ide: ata_drive ide_ops medium ide_offers ide_expects
proof
  fix lba :: uint and count :: int and cmd :: uchar and d :: ide
  show "medium (send_cmd ide_ops lba count cmd d) = medium d"
    by (rule medium_cong) (simp add: send_cmd_ide ide_outb_def Let_def)
  assume c: "0 < count" "count < 2 ^ 16"
  show "ide_offers (send_cmd ide_ops lba count 0x24 d) (map (medium d) [unat lba ..< unat lba + nat count])"
    unfolding send_cmd_ide ide_outb_def ide_offers_def
    using command_registers [OF c] by (simp add: Let_def)
  show "ide_expects (send_cmd ide_ops lba count 0x34 d) (unat lba) (nat count)"
    unfolding send_cmd_ide ide_outb_def ide_expects_def
    using command_registers [OF c] by (simp add: Let_def)
next
  fix d ss
  assume "ide_offers d ss"
  then show "\<exists>d'. wait_data ide_ops d = Some (d', 0) \<and> ide_offers d' ss \<and> medium d' = medium d"
    by (simp add: wait_data_ide)
next
  fix d b ss
  assume o: "ide_offers d (b # ss)"
  then have "d = d\<lparr>i_out := b @ concat ss\<rparr>" "length b = 2 * 256" by (simp_all add: ide_offers_def)
  then have "read_data ide_ops 512 [] d = Some (d\<lparr>i_out := concat ss\<rparr>, b)"
    using read_data_ide [where bs = b and n = 256 and buf = "[]" and d = d and rest = "concat ss"] by simp
  then show "\<exists>d'. read_data ide_ops 512 [] d = Some (d', b) \<and> ide_offers d' ss \<and> medium d' = medium d"
    using o by (intro exI [of _ "d\<lparr>i_out := concat ss\<rparr>"]) (simp add: ide_offers_def medium_def fun_eq_iff)
next
  fix d l n
  assume "ide_expects d l n"
  then show "\<exists>d'. wait_data ide_ops d = Some (d', 0) \<and> ide_expects d' l n \<and> medium d' = medium d"
    by (simp add: wait_data_ide)
next
  fix d l n and bs :: "uchar list"
  assume e: "ide_expects d l (Suc n)" and b: "512 \<le> length bs"
  have "write_data ide_ops 512 bs d = Some (d\<lparr>i_sectors := (i_sectors d)(l := take 512 bs),
     i_acc := [], i_target := Suc l, i_left := n\<rparr>)"
    using write_data_ide [of 256 bs d] e b by (simp add: ide_expects_def)
  then show "\<exists>d'. write_data ide_ops 512 bs d = Some d' \<and> ide_expects d' (Suc l) n
      \<and> medium d' = (medium d)(l := take 512 bs)"
    using b by (intro exI conjI) (auto simp: ide_expects_def medium_def)
qed

section \<open>Properties\<close>

text \<open>A read of \<open>count\<close> sectors from sector \<open>begin_sec\<close> of a partition returns the contents of the
  medium from the partition's first sector plus \<open>begin_sec\<close> on, reports \<open>count\<close>, and leaves the
  medium and everything else but the driver's own state as it was.\<close>

theorem disk_read_returns_sectors:
  fixes s :: "(ide, 'a) disk_scheme" and begin_sec :: int
  assumes "disk_idle s" "ata s = ide_ops" "part_of dev s = Some info" "p_count info \<noteq> 0"
    and "0 < count" "count < 2 ^ 16"
  defines "lba \<equiv> unat (p_begin_sec info + word_of_int begin_sec)"
  shows "\<exists>d c. disk_read dev begin_sec count s = Some (s\<lparr>wait_interupt := 1, drv := d, dcpu := c\<rparr>, count,
      concat (map (medium (drv s)) [lba ..< lba + nat count])) \<and> medium d = medium (drv s)"
  using ide.disk_read_sectors [OF assms(1-6)] unfolding lba_def .

definition demo_dev :: device_t where
  "demo_dev = \<lparr>d_type = \<lparr>ty_name = ''disk'', ty_major = 1, ty_op = Some DiskOp\<rparr>, d_mode = 0, d_minor = 1,
     d_param = 0, open_count = 1\<rparr>"

definition no_part :: part_info_t where
  "no_part = \<lparr>p_name = replicate 32 0, p_type = 0, p_begin_sec = 0, p_count = 0\<rparr>"

definition demo_ide :: ide where
  "demo_ide = \<lparr>i_log = [], i_sectors = (\<lambda>i. if i = 2050 then replicate 512 7 else []), i_ident = replicate 512 0,
     i_out = [], i_target = 0, i_left = 0, i_acc = []\<rparr>"

definition demo_disk :: "ide disk" where
  "demo_disk = console.extend demo_console
     \<lparr>ata = ide_ops, drv = demo_ide,
      part_info = [no_part, no_part\<lparr>p_begin_sec := 2048, p_count := 100\<rparr>, no_part, no_part, no_part],
      wait_interupt = 0, dcpu = demo_cpu, pic = (\<lambda>log p. 0xff), ide_entry = 0x12000\<rparr>"

lemma demo_disk_idle: "disk_idle demo_disk"
  by (simp add: disk_idle_def idle_mutex_def quiet_def demo_disk_def console.defs demo_console_def
      heap.defs phys.defs clock.defs demo_clock_def kernel.defs) code_simp

lemma demo_disk_fields:
  "ata demo_disk = ide_ops" "drv demo_disk = demo_ide"
  "part_of demo_dev demo_disk = Some (no_part\<lparr>p_begin_sec := 2048, p_count := 100\<rparr>)"
  by (simp_all add: demo_disk_def console.defs part_of_def demo_dev_def)

lemma disk_read_returns_sectors_witness:
  "\<exists>s. disk_read demo_dev 2 1 demo_disk = Some (s, 1, replicate 512 7)"
  using disk_read_returns_sectors [OF demo_disk_idle demo_disk_fields(1,3), of 1 2]
  by (auto simp: demo_disk_fields demo_ide_def medium_def)

lemma concat_chunks: "concat (map (\<lambda>i. take k (drop (k * i) xs)) [0..<n]) = take (k * n) xs"
proof (induction n)
  case (Suc n)
  have "take (k * Suc n) xs = take (k * n + k) xs" by (simp add: add.commute)
  then show ?case using Suc by (simp only: take_add) simp
qed simp

lemma concat_sectors:
  assumes "length xs = k * n"
  shows "concat (map (\<lambda>i. take k (drop (k * (i - l)) xs)) [l ..< l + n]) = xs"
proof -
  have "[l ..< l + n] = map (\<lambda>i. i + l) [0..<n]" by (simp add: map_add_upt add.commute)
  then have "map (\<lambda>i. take k (drop (k * (i - l)) xs)) [l ..< l + n] = map (\<lambda>i. take k (drop (k * i) xs)) [0..<n]"
    by (simp add: o_def)
  then show ?thesis using concat_chunks [of k xs n] assms by simp
qed

text \<open>C21: What is written is read back: after a write of \<open>count\<close> sectors a read of the same sectors
  returns the bytes of the buffer, and the sectors outside the range are what they were.\<close>

theorem disk_write_read:
  fixes s :: "(ide, 'a) disk_scheme" and b :: int
  assumes idle: "disk_idle s" and ops: "ata s = ide_ops" and part: "part_of dev s = Some info" "p_count info \<noteq> 0"
    and count: "0 < count" "count < 2 ^ 16" and buf: "length buf = 512 * nat count"
  defines "lba \<equiv> unat (p_begin_sec info + word_of_int b)"
  shows "\<exists>s' s''. disk_write dev b buf count s = Some (s', count)
    \<and> disk_read dev b count s' = Some (s'', count, buf)
    \<and> (\<forall>i. i < lba \<or> lba + nat count \<le> i \<longrightarrow> medium (drv s') i = medium (drv s) i)"
proof -
  obtain d c where w: "disk_write dev b buf count s = Some (s\<lparr>wait_interupt := 1, drv := d, dcpu := c\<rparr>, count)"
    "\<forall>i. medium d i = (if lba \<le> i \<and> i < lba + nat count then take 512 (drop (512 * (i - lba)) buf) else medium (drv s) i)"
    using ide.disk_write_sectors [OF idle ops part count, of buf b] buf unfolding lba_def by auto
  let ?s = "s\<lparr>wait_interupt := 1, drv := d, dcpu := c\<rparr>"
  have i': "disk_idle ?s" and o': "ata ?s = ide_ops" and p': "part_of dev ?s = Some info"
    using idle ops part by (simp_all add: disk_idle_def idle_mutex_def quiet_def)
  have "map (medium d) [lba ..< lba + nat count] = map (\<lambda>i. take 512 (drop (512 * (i - lba)) buf)) [lba ..< lba + nat count]"
    using w(2) by (intro map_cong) auto
  then have "concat (map (medium d) [lba ..< lba + nat count]) = buf"
    using concat_sectors [OF buf, of lba] by (simp only:)
  moreover have "drv ?s = d" by simp
  ultimately have "concat (map (medium (drv ?s)) [lba ..< lba + nat count]) = buf" by (simp only:)
  then obtain s'' where "disk_read dev b count ?s = Some (s'', count, buf)"
    using ide.disk_read_sectors [OF i' o' p' part(2) count, of b] unfolding lba_def by auto
  then show ?thesis using w by (intro exI [of _ ?s] exI [of _ s'']) auto
qed

lemma disk_write_read_witness:
  "\<exists>s' s''. disk_write demo_dev 2 (replicate 512 9) 1 demo_disk = Some (s', 1)
    \<and> disk_read demo_dev 2 1 s' = Some (s'', 1, replicate 512 9)"
  using disk_write_read [OF demo_disk_idle demo_disk_fields(1,3), of 1 "replicate 512 9" 2] by auto

text \<open>An access to a partition that does not exist is refused, but the driver's mutex stays
  locked: the calls return \<open>-ENOPART\<close> to a process that then holds the mutex, and as many further
  refused calls as it makes add to the lock count.\<close>

theorem disk_error_keeps_mutex:
  assumes idle: "idle_mutex DISK_MUTEX s" and part: "part_of dev s = Some info" "p_count info = 0"
    and cur: "current s = Some t"
  shows "\<exists>s'. disk_read dev b n s = Some (s', - ENOPART, []) \<and> disk_write dev b buf n s = Some (s', - ENOPART)
      \<and> mutexes s' DISK_MUTEX = \<lparr>lock_times = 1, owner = Some t\<rparr> \<and> current s' = Some t
      \<and> (\<exists>s''. disk_read dev b n s' = Some (s'', - ENOPART, []) \<and> lock_times (mutexes s'' DISK_MUTEX) = 2)"
proof -
  let ?s = "hold DISK_MUTEX s"
  have "disk_read dev b n s = Some (?s, - ENOPART, [])" "disk_write dev b buf n s = Some (?s, - ENOPART)"
    using lock_idle [OF idle] part by (simp_all add: disk_read_def disk_write_def hold_def)
  moreover have "\<exists>s''. disk_read dev b n ?s = Some (s'', - ENOPART, []) \<and> lock_times (mutexes s'' DISK_MUTEX) = 2"
    using part by (simp add: disk_read_def at_once_def mutex_lock_def hold_def Let_def)
  ultimately show ?thesis using cur by (intro exI [of _ ?s]) (simp add: hold_def)
qed

lemma disk_error_keeps_mutex_witness:
  "\<exists>s'. disk_read (demo_dev\<lparr>d_minor := 2\<rparr>) 0 1 (demo_disk\<lparr>current := Some 1\<rparr>) = Some (s', -12, [])
    \<and> mutexes s' DISK_MUTEX = \<lparr>lock_times = 1, owner = Some 1\<rparr>"
proof -
  have "idle_mutex DISK_MUTEX (demo_disk\<lparr>current := Some 1\<rparr>)"
    using demo_disk_idle by (simp add: disk_idle_def idle_mutex_def)
  moreover have "part_of (demo_dev\<lparr>d_minor := 2\<rparr>) (demo_disk\<lparr>current := Some 1\<rparr>) = Some no_part"
    by (simp add: part_of_def demo_dev_def demo_disk_def console.defs)
  ultimately show ?thesis
    using disk_error_keeps_mutex [of "demo_disk\<lparr>current := Some 1\<rparr>" "demo_dev\<lparr>d_minor := 2\<rparr>" no_part 1 0 1 "[]"]
    by (auto simp: no_part_def ENOPART_def)
qed

end
