(* ===== verification/Fs_State.thy ===== *)
theory Fs_State
  imports Disk
begin

text \<open>
  The state of the file layers: the device table of \<open>source/device/dev.c\<close>, the open files of
  \<open>source/fs/file.c\<close>, the buffers of \<open>source/fs/buffer.c\<close>, the mount table of
  \<open>source/fs/fs.c\<close> and the in-memory file system of \<open>source/fs/ext2.c\<close>.  Objects that the code
  allocates with \<open>kmalloc\<close> are found under the address it returned; a null pointer that is
  followed has no result.  Strings are byte lists without the terminator.
\<close>

section \<open>Error numbers and sizes\<close>

definition EIO :: int where "EIO = 5"
definition ENODEV :: int where "ENODEV = 10"
definition ETMFILES :: int where "ETMFILES = 13"
definition ENOTEXIST :: int where "ENOTEXIST = 16"
definition MAX_DEVICES :: nat where "MAX_DEVICES = 128"
definition MAX_OPEN_FILES :: int where "MAX_OPEN_FILES = 2048"
definition MAX_NAME_LEN :: nat where "MAX_NAME_LEN = 64"
definition MAX_MOUNT :: nat where "MAX_MOUNT = 10"
definition BUFFER_HASH_SIZE :: int where "BUFFER_HASH_SIZE = 10"
definition O_RDONLY :: int where "O_RDONLY = 0"
definition O_APPEND :: int where "O_APPEND = 8"
definition O_CREAT :: int where "O_CREAT = 64"
definition FS_EXT2 :: int where "FS_EXT2 = 1"

text \<open>\<open>sizeof\<close> of the structures that are allocated.\<close>

definition sizeof_super_block :: uint where "sizeof_super_block = 106"
definition sizeof_group_desc :: uint where "sizeof_group_desc = 38"
definition sizeof_block_buffer :: uint where "sizeof_block_buffer = 32"
definition sizeof_mutex :: uint where "sizeof_mutex = 16"

section \<open>Structures\<close>

text \<open>A pointer into the inode table of a block group: super block, group and slot.\<close>

type_synonym iref = "addr \<times> nat \<times> nat"

record inode_t =
  i_mode :: ushort
  i_blocks :: ushort
  i_uid :: ushort
  i_gid :: ushort
  i_size :: uint
  i_atime :: uint
  i_mtime :: uint
  i_ctime :: uint
  i_block :: "uint list"
  i_sb :: addr
  i_parent :: "iref option"

text \<open>The bitmaps and the inode table of a group are memory of their own: address and content.\<close>

record group_desc_t =
  g_block_bitmap :: uint
  g_inode_bitmap :: uint
  g_inode_table :: uint
  g_free_block :: ushort
  g_free_inode :: ushort
  g_dir_inode :: ushort
  block_bitmap_size :: ushort
  inode_bitmap_size :: ushort
  p_block_bitmap :: addr
  block_bits :: "uchar list"
  p_inode_bitmap :: addr
  inode_bits :: "uchar list"
  inode_begin :: int
  p_inode_data :: addr
  inode_data :: "inode_t list"

record super_block_t =
  sb_name :: "uchar list"
  sb_magic :: ushort
  inode_count :: uint
  block_count :: uint
  used_block :: uint
  free_block :: uint
  free_inode :: uint
  inode_size :: ushort
  block_size :: ushort
  group_block :: uint
  group_inode :: uint
  group_count :: uint
  sb_fs :: nat
  group_table :: "group_desc_t list"

record file_t =
  f_pos :: int
  f_mode :: int
  f_start_block :: int
  f_cur_block :: int
  f_ino :: int
  f_inode :: "iref option"
  f_ref :: int
  f_fs :: "nat option"

datatype fs_op = Ext2Op

text \<open>The mutex of a file system is its address; the kernel's own mutexes have small numbers.\<close>

record fs_t =
  mount_point :: "uchar list"
  fs_type :: int
  fs_ops :: "fs_op option"
  fs_dev_id :: int
  fs_data :: addr
  fs_mutex :: addr

record block_buffer_t =
  block_no :: uint
  bb_data :: "uchar list"
  b_state :: uchar
  exp_time :: uint

text \<open>The list heads and the two list nodes of a block buffer.\<close>

datatype bnode = Bucket nat | DirtyHead | BNode addr | DNode addr

record 'd fsys = "'d disk" +
  dev_table :: "device_t list"
  file_table :: "file_t list"
  bh_size :: "int list"
  blinks :: "bnode links"
  bbs :: "addr \<Rightarrow> block_buffer_t"
  fs_table :: "fs_t list"
  fs_root :: "nat option"
  supers :: "addr \<Rightarrow> super_block_t"
  p_super_block :: addr
  raw_super :: "uchar list"
  stack_bytes :: "uchar list"
  old_inodes :: "inode_t list"

text \<open>\<open>stack_bytes\<close> and \<open>old_inodes\<close> are what an uninitialised buffer on the stack and freshly
  allocated memory happen to hold.\<close>

definition FILE_MUTEX :: nat where "FILE_MUTEX = 3"
definition BUFFER_MUTEX :: nat where "BUFFER_MUTEX = 4"

section \<open>Access\<close>

definition fetch :: "int \<Rightarrow> 'x list \<Rightarrow> 'x option" where
  "fetch i xs = (if 0 \<le> i \<and> i < int (length xs) then Some (xs ! nat i) else None)"

definition store :: "int \<Rightarrow> 'x \<Rightarrow> 'x list \<Rightarrow> 'x list option" where
  "store i x xs = (if 0 \<le> i \<and> i < int (length xs) then Some (xs[nat i := x]) else None)"

definition the_bb :: "addr \<Rightarrow> ('d, 'a) fsys_scheme \<Rightarrow> block_buffer_t option" where
  "the_bb a s = (if a = 0 then None else Some (bbs s a))"

definition upd_bb :: "addr \<Rightarrow> (block_buffer_t \<Rightarrow> block_buffer_t) \<Rightarrow> ('d, 'a) fsys_scheme \<Rightarrow> ('d, 'a) fsys_scheme" where
  "upd_bb a f s = s\<lparr>bbs := (bbs s)(a := f (bbs s a))\<rparr>"

definition the_super :: "addr \<Rightarrow> ('d, 'a) fsys_scheme \<Rightarrow> super_block_t option" where
  "the_super a s = (if a = 0 then None else Some (supers s a))"

definition upd_super :: "addr \<Rightarrow> (super_block_t \<Rightarrow> super_block_t) \<Rightarrow> ('d, 'a) fsys_scheme \<Rightarrow> ('d, 'a) fsys_scheme" where
  "upd_super a f s = s\<lparr>supers := (supers s)(a := f (supers s a))\<rparr>"

definition the_group :: "addr \<Rightarrow> nat \<Rightarrow> ('d, 'a) fsys_scheme \<Rightarrow> group_desc_t option" where
  "the_group a g s = the_super a s \<bind> (\<lambda>sb. fetch (int g) (group_table sb))"

definition upd_group :: "addr \<Rightarrow> nat \<Rightarrow> (group_desc_t \<Rightarrow> group_desc_t) \<Rightarrow> ('d, 'a) fsys_scheme \<Rightarrow> ('d, 'a) fsys_scheme" where
  "upd_group a g f s = upd_super a (\<lambda>sb. sb\<lparr>group_table := (group_table sb)[g := f (group_table sb ! g)]\<rparr>) s"

fun the_inode :: "iref \<Rightarrow> ('d, 'a) fsys_scheme \<Rightarrow> inode_t option" where
  "the_inode (a, g, k) s = the_group a g s \<bind> (\<lambda>gd. fetch (int k) (inode_data gd))"

fun upd_inode :: "iref \<Rightarrow> (inode_t \<Rightarrow> inode_t) \<Rightarrow> ('d, 'a) fsys_scheme \<Rightarrow> ('d, 'a) fsys_scheme" where
  "upd_inode (a, g, k) f s =
     upd_group a g (\<lambda>gd. gd\<lparr>inode_data := (inode_data gd)[k := f (inode_data gd ! k)]\<rparr>) s"

definition the_file :: "nat \<Rightarrow> ('d, 'a) fsys_scheme \<Rightarrow> file_t option" where
  "the_file f s = fetch (int f) (file_table s)"

definition upd_file :: "nat \<Rightarrow> (file_t \<Rightarrow> file_t) \<Rightarrow> ('d, 'a) fsys_scheme \<Rightarrow> ('d, 'a) fsys_scheme" where
  "upd_file f g s = s\<lparr>file_table := (file_table s)[f := g (file_table s ! f)]\<rparr>"

definition upd_fs :: "nat \<Rightarrow> (fs_t \<Rightarrow> fs_t) \<Rightarrow> ('d, 'a) fsys_scheme \<Rightarrow> ('d, 'a) fsys_scheme" where
  "upd_fs i g s = s\<lparr>fs_table := (fs_table s)[i := g (fs_table s ! i)]\<rparr>"

text \<open>The super block behind an open file, and a block size that can be divided by.\<close>

definition file_super :: "nat \<Rightarrow> ('d, 'a) fsys_scheme \<Rightarrow> addr option" where
  "file_super f s = do {
     file \<leftarrow> the_file f s;
     i \<leftarrow> f_fs file;
     fs \<leftarrow> fetch (int i) (fs_table s);
     if fs_data fs = 0 then None else Some (fs_data fs) }"

definition blksize :: "super_block_t \<Rightarrow> int option" where
  "blksize sb = (if block_size sb = 0 then None else Some (uint (block_size sb)))"

text \<open>\<open>kmemcmp(a, b, kstrlen(b))\<close> on strings: 0 when \<open>b\<close> is a prefix of \<open>a\<close>.\<close>

definition same_start :: "uchar list \<Rightarrow> uchar list \<Rightarrow> bool" where
  "same_start a b \<longleftrightarrow> take (length b) (a @ [0]) = b"

section \<open>Memory from the kernel heap\<close>

text \<open>The bytes a fresh allocation holds.\<close>

definition fresh_bytes :: "addr \<Rightarrow> int \<Rightarrow> 'a phys_scheme \<Rightarrow> uchar list" where
  "fresh_bytes a n s = map (\<lambda>i. pmem s (a + of_nat i)) [0..<nat n]"

section \<open>Facts\<close>

lemma fetch_Some: "0 \<le> i \<Longrightarrow> i < int (length xs) \<Longrightarrow> fetch i xs = Some (xs ! nat i)"
  by (simp add: fetch_def)

lemma store_Some: "0 \<le> i \<Longrightarrow> i < int (length xs) \<Longrightarrow> store i x xs = Some (xs[nat i := x])"
  by (simp add: store_def)

lemma fetch_nat [simp]: "fetch (int i) xs = (if i < length xs then Some (xs ! i) else None)"
  by (simp add: fetch_def)

text \<open>A mutex that was idle before the call is given back after changes to other parts of the state.\<close>

lemma unlock_hold:
  assumes "idle_mutex m s" "mutexes s' = mutexes (hold m s)" "links s' = links s" "current s' = current s"
  shows "at_once (mutex_unlock m) s' = Some (s'\<lparr>mutexes := mutexes s\<rparr>)"
  using assms by (subst unlock_held) (auto simp: hold_def idle_mutex_def fun_upd_idem)

lemma hold_fields [simp]:
  "links (hold m s) = links s" "current (hold m s) = current s" "tasks (hold m s) = tasks s"
  by (simp_all add: hold_def)

lemma hold_more [simp]: "kernel.more (hold m s) = kernel.more s"
  by (simp add: hold_def)

lemma idle_mutex_upd:
  "mutexes s' = mutexes s \<Longrightarrow> links s' = links s \<Longrightarrow> idle_mutex m s' = idle_mutex m s"
  by (simp add: idle_mutex_def)

end
