(* ===== verification/Fs_Demo.thy ===== *)
theory Fs_Demo
  imports Fs_State
begin

text \<open>
  A small system on which the properties of the file layers are evaluated: one process, one disk
  with one partition, one mounted file system with a root directory and a file of three
  blocks that is open, 64 KB of free kernel memory, and no block in the buffers.
\<close>

definition no_dev :: device_t where
  "no_dev = \<lparr>d_type = \<lparr>ty_name = [], ty_major = 0, ty_op = None\<rparr>, d_mode = 0, d_minor = 0, d_param = 0, open_count = 0\<rparr>"

definition no_file :: file_t where
  "no_file = \<lparr>f_pos = 0, f_mode = 0, f_start_block = 0, f_cur_block = 0, f_ino = 0, f_inode = None, f_ref = 0, f_fs = None\<rparr>"

definition demo_file :: file_t where
  "demo_file = no_file\<lparr>f_mode := 2, f_ino := 12, f_inode := Some (0x9000, 0, 1), f_ref := 1, f_fs := Some 0\<rparr>"

definition no_fs :: fs_t where
  "no_fs = \<lparr>mount_point = [], fs_type = 0, fs_ops = None, fs_dev_id = 0, fs_data = 0, fs_mutex = 0\<rparr>"

definition demo_mount :: fs_t where
  "demo_mount = \<lparr>mount_point = [0x2f], fs_type = 1, fs_ops = Some Ext2Op, fs_dev_id = 0, fs_data = 0x9000, fs_mutex = 0x9800\<rparr>"

definition no_buffer :: block_buffer_t where
  "no_buffer = \<lparr>block_no = 0, bb_data = [], b_state = 0, exp_time = 0\<rparr>"

definition demo_inode :: "ushort \<Rightarrow> uint \<Rightarrow> uint list \<Rightarrow> inode_t" where
  "demo_inode mode sz blocks = \<lparr>i_mode = mode, i_blocks = of_nat (length blocks), i_uid = 0, i_gid = 0, i_size = sz,
     i_atime = 0, i_mtime = 0, i_ctime = 0, i_block = take 15 (blocks @ replicate 15 0), i_sb = 0x9000, i_parent = None\<rparr>"

definition demo_group :: group_desc_t where
  "demo_group = \<lparr>g_block_bitmap = 3, g_inode_bitmap = 4, g_inode_table = 5, g_free_block = 90, g_free_inode = 20,
     g_dir_inode = 1, block_bitmap_size = 16, inode_bitmap_size = 4, p_block_bitmap = 0xA000,
     block_bits = replicate 16 0, p_inode_bitmap = 0xA100, inode_bits = replicate 4 0, inode_begin = 5,
     p_inode_data = 0xB000, inode_data = [demo_inode 0x4000 4096 [10], demo_inode 0x8000 9000 [11, 12, 13]]\<rparr>"

definition demo_super :: super_block_t where
  "demo_super = \<lparr>sb_name = [0x65, 0x78, 0x74, 0x32], sb_magic = 0xEF53, inode_count = 32, block_count = 100, used_block = 0,
     free_block = 90, free_inode = 20, inode_size = 128, block_size = 4096, group_block = 32768, group_inode = 32,
     group_count = 1, sb_fs = 0, group_table = [demo_group]\<rparr>"

definition demo_block_mem :: mem where
  "demo_block_mem = set_used 0x700000 FREE (set_size 0x700000 0x10000 (set_prev 0x700000 0 (set_next 0x700000 0 (\<lambda>_. 0))))"

text \<open>Sector \<open>i\<close> of the medium holds the byte \<open>i mod 256\<close>.\<close>

definition demo_drive :: ide where
  "demo_drive = demo_ide\<lparr>i_sectors := (\<lambda>i. replicate 512 (of_nat i))\<rparr>"

definition demo_fs :: "ide fsys" where
  "demo_fs = disk.extend (demo_disk\<lparr>free_list := 0x700000, pmem := demo_block_mem, drv := demo_drive\<rparr>)
     \<lparr>dev_table = demo_dev # replicate 127 no_dev, file_table = demo_file # replicate 2047 no_file,
      bh_size = replicate 10 0, blinks = \<lparr>nxt = (\<lambda>n. n), prv = (\<lambda>n. n)\<rparr>, bbs = (\<lambda>_. no_buffer),
      fs_table = demo_mount # replicate 9 no_fs, fs_root = Some 0,
      supers = (\<lambda>_. demo_super), p_super_block = 0x9400, raw_super = replicate 4096 0,
      stack_bytes = replicate 4096 0, old_inodes = replicate 160 (demo_inode 0 0 [])\<rparr>"

lemma demo_fs_fields:
  "dev_table demo_fs = demo_dev # replicate 127 no_dev" "file_table demo_fs = demo_file # replicate 2047 no_file"
  "bh_size demo_fs = replicate 10 0" "blinks demo_fs = \<lparr>nxt = (\<lambda>n. n), prv = (\<lambda>n. n)\<rparr>" "bbs demo_fs = (\<lambda>_. no_buffer)"
  "fs_table demo_fs = demo_mount # replicate 9 no_fs" "fs_root demo_fs = Some 0" "supers demo_fs = (\<lambda>_. demo_super)"
  "raw_super demo_fs = replicate 4096 0" "stack_bytes demo_fs = replicate 4096 0"
  "ata demo_fs = ide_ops" "drv demo_fs = demo_drive" "part_info demo_fs = part_info demo_disk"
  "pmem demo_fs = demo_block_mem" "free_list demo_fs = 0x700000"
  "links demo_fs = links demo_disk" "mutexes demo_fs = mutexes demo_disk" "sem_count demo_fs = sem_count demo_disk"
  "current demo_fs = current demo_disk" "dcpu demo_fs = demo_cpu" "tasks demo_fs = tasks demo_disk"
  by (simp_all add: demo_fs_def disk.defs demo_disk_def console.defs demo_console_def
      heap.defs phys.defs clock.defs demo_clock_def kernel.defs)

lemma demo_fs_idle: "disk_idle demo_fs" "idle_mutex m demo_fs"
proof -
  show "disk_idle demo_fs"
    using demo_disk_idle by (simp add: disk_idle_def idle_mutex_def quiet_def demo_fs_fields)
  show "idle_mutex m demo_fs"
    by (simp add: idle_mutex_def demo_fs_fields) (simp add: demo_disk_def console.defs demo_console_def
      heap.defs phys.defs clock.defs demo_clock_def kernel.defs boot_kernel_def queue_empty_def
      upt_conv_Cons empty_links_def queue_insert_tail_def Let_def)
qed

end
