(* ===== verification/Dev.thy ===== *)
theory Dev
  imports Fs_Demo
begin

text \<open>
  The device layer of \<open>source/device/dev.c\<close>: a table of open devices, each with the driver
  that serves it.  The only driver is the disk's.
\<close>

section \<open>The code\<close>

definition DEV_DISK :: int where "DEV_DISK = 1"

definition dev_disk :: dev_type_t where
  "dev_disk = \<lparr>ty_name = ''disk'', ty_major = DEV_DISK, ty_op = Some DiskOp\<rparr>"

definition support_table :: "dev_type_t list" where
  "support_table = [dev_disk]"

text \<open>The scan of the table: the index of the device if it is open, else the first free one.\<close>

fun scan_devices :: "int \<Rightarrow> int \<Rightarrow> int \<Rightarrow> int \<Rightarrow> device_t list \<Rightarrow> int + int" where
  "scan_devices major minor i free [] = Inr free"
| "scan_devices major minor i free (dev # devs) =
     (if open_count dev \<noteq> 0
      then if ty_major (d_type dev) = major \<and> d_minor dev = minor then Inl i
           else scan_devices major minor (i + 1) free devs
      else scan_devices major minor (i + 1) (if free = - 1 then i else free) devs)"

text \<open>The search for the driver ends with the last one looked at.\<close>

fun find_type :: "int \<Rightarrow> dev_type_t option \<Rightarrow> dev_type_t list \<Rightarrow> dev_type_t option" where
  "find_type major found [] = found"
| "find_type major found (t # ts) = (if major = ty_major t then Some t else find_type major (Some t) ts)"

definition op_open :: "device_t \<Rightarrow> ('d, 'a) fsys_scheme \<Rightarrow> (('d, 'a) fsys_scheme \<times> int) option" where
  "op_open dev s = (case ty_op (d_type dev) of Some DiskOp \<Rightarrow> disk_open dev s | None \<Rightarrow> None)"

definition enter_crit :: "('d, 'a) fsys_scheme \<Rightarrow> ('d, 'a) fsys_scheme \<times> uint" where
  "enter_crit s = (let (c, fl) = enter_critical (dcpu s) in (s\<lparr>dcpu := c\<rparr>, fl))"

definition leave_crit :: "uint \<Rightarrow> ('d, 'a) fsys_scheme \<Rightarrow> ('d, 'a) fsys_scheme" where
  "leave_crit fl s = s\<lparr>dcpu := leave_critical fl (dcpu s)\<rparr>"

definition dev_open :: "int \<Rightarrow> int \<Rightarrow> addr \<Rightarrow> ('d, 'a) fsys_scheme \<Rightarrow> (('d, 'a) fsys_scheme \<times> int) option" where
  "dev_open major minor param s = do {
     let (s, fl) = enter_crit s;
     case scan_devices major minor 0 (- 1) (dev_table s) of
       Inl i \<Rightarrow> do {
         dev \<leftarrow> fetch i (dev_table s);
         devs \<leftarrow> store i (dev\<lparr>open_count := open_count dev + 1\<rparr>) (dev_table s);
         Some (leave_crit fl (s\<lparr>dev_table := devs\<rparr>), i) }
     | Inr free \<Rightarrow>
         if free \<noteq> - 1
         then case find_type major None support_table of
           Some t \<Rightarrow> do {
             dev \<leftarrow> fetch free (dev_table s);
             let dev = dev\<lparr>d_type := t, d_minor := minor, d_param := param\<rparr>;
             devs \<leftarrow> store free dev (dev_table s);
             (s, err) \<leftarrow> op_open dev (s\<lparr>dev_table := devs\<rparr>);
             if err = 0 then do {
               devs \<leftarrow> store free (dev\<lparr>open_count := 1\<rparr>) (dev_table s);
               Some (leave_crit fl (s\<lparr>dev_table := devs\<rparr>), free) }
             else Some (leave_crit fl s, - ENODEV) }
         | None \<Rightarrow> Some (leave_crit fl s, - ENODEV)
         else Some (leave_crit fl s, - ENODEV) }"

definition dev_close :: "int \<Rightarrow> ('d, 'a) fsys_scheme \<Rightarrow> ('d, 'a) fsys_scheme option" where
  "dev_close dev_id s = do {
     let (s, fl) = enter_crit s;
     dev \<leftarrow> fetch dev_id (dev_table s);
     let dev = dev\<lparr>open_count := open_count dev - 1\<rparr>;
     devs \<leftarrow> store dev_id dev (dev_table s);
     let s = s\<lparr>dev_table := devs\<rparr>;
     s \<leftarrow> (if open_count dev = 0
           then case ty_op (d_type dev) of Some DiskOp \<Rightarrow> Some (disk_close s) | None \<Rightarrow> None
           else Some s);
     Some (leave_crit fl s) }"

definition dev_read :: "int \<Rightarrow> int \<Rightarrow> int \<Rightarrow> ('d, 'a) fsys_scheme \<Rightarrow> (('d, 'a) fsys_scheme \<times> int \<times> uchar list) option" where
  "dev_read dev_id begin_sec sz s = do {
     dev \<leftarrow> fetch dev_id (dev_table s);
     case ty_op (d_type dev) of Some DiskOp \<Rightarrow> disk_read dev begin_sec sz s | None \<Rightarrow> None }"

definition dev_write :: "int \<Rightarrow> int \<Rightarrow> uchar list \<Rightarrow> int \<Rightarrow> ('d, 'a) fsys_scheme \<Rightarrow> (('d, 'a) fsys_scheme \<times> int) option" where
  "dev_write dev_id begin_sec buf sz s = do {
     dev \<leftarrow> fetch dev_id (dev_table s);
     case ty_op (d_type dev) of Some DiskOp \<Rightarrow> disk_write dev begin_sec buf sz s | None \<Rightarrow> None }"

definition dev_ctrol :: "int \<Rightarrow> int \<Rightarrow> ('d, 'a) fsys_scheme \<Rightarrow> (('d, 'a) fsys_scheme \<times> int) option" where
  "dev_ctrol dev_id cmd s = do {
     dev \<leftarrow> fetch dev_id (dev_table s);
     case ty_op (d_type dev) of Some DiskOp \<Rightarrow> Some (disk_ctrol dev cmd s) | None \<Rightarrow> None }"

section \<open>Properties\<close>

definition open_as :: "int \<Rightarrow> int \<Rightarrow> device_t \<Rightarrow> bool" where
  "open_as major minor d \<longleftrightarrow> open_count d \<noteq> 0 \<and> ty_major (d_type d) = major \<and> d_minor d = minor"

lemma scan_hit:
  "j < length devs \<Longrightarrow> open_as major minor (devs ! j) \<Longrightarrow> \<forall>k < j. \<not> open_as major minor (devs ! k)
   \<Longrightarrow> scan_devices major minor i f devs = Inl (i + int j)"
proof (induction devs arbitrary: i f j)
  case (Cons d devs)
  show ?case
  proof (cases j)
    case (Suc k)
    then have "\<not> open_as major minor d" "\<forall>l < k. \<not> open_as major minor (devs ! l)"
      using Cons.prems(3) by (force dest: spec [of _ 0] spec [of _ "Suc _"])+
    then show ?thesis using Cons.IH [of k] Cons.prems Suc by (auto simp: open_as_def)
  qed (use Cons.prems in \<open>simp add: open_as_def\<close>)
qed simp

lemma scan_taken:
  "\<forall>d \<in> set devs. \<not> open_as major minor d \<Longrightarrow> f \<noteq> - 1 \<Longrightarrow> scan_devices major minor i f devs = Inr f"
  by (induction devs arbitrary: i) (auto simp: open_as_def)

lemma scan_free:
  "\<forall>d \<in> set devs. \<not> open_as major minor d \<Longrightarrow> j < length devs \<Longrightarrow> open_count (devs ! j) = 0
   \<Longrightarrow> \<forall>k < j. open_count (devs ! k) \<noteq> 0 \<Longrightarrow> 0 \<le> i \<Longrightarrow> scan_devices major minor i (- 1) devs = Inr (i + int j)"
proof (induction devs arbitrary: i j)
  case (Cons d devs)
  show ?case
  proof (cases j)
    case (Suc k)
    then have "open_count d \<noteq> 0" "\<forall>l < k. open_count (devs ! l) \<noteq> 0"
      using Cons.prems(4) by (force dest: spec [of _ 0] spec [of _ "Suc _"])+
    then show ?thesis using Cons.IH [of k "i + 1"] Cons.prems Suc by (auto simp: open_as_def)
  qed (use Cons.prems in \<open>simp add: scan_taken\<close>)
qed simp

lemma crit_roundtrip [simp]: "leave_crit (eflags (dcpu s)) (s\<lparr>dcpu := cli (dcpu s)\<rparr>) = s"
  by (simp add: leave_crit_def leave_critical_def cli_def)

lemma enter_crit_eq: "enter_crit s = (s\<lparr>dcpu := cli (dcpu s)\<rparr>, eflags (dcpu s))"
  by (simp add: enter_crit_def enter_critical_def)

text \<open>Opening a device that is already open only counts: the call returns the device's index with
  its count one higher, and the matching close gives back the state before the open.\<close>

theorem dev_open_close_shared:
  assumes "j < length (dev_table s)" "open_as major minor (dev_table s ! j)"
    and "\<forall>k < j. \<not> open_as major minor (dev_table s ! k)"
  shows "\<exists>s'. dev_open major minor param s = Some (s', int j)
    \<and> dev_table s' = (dev_table s)[j := (dev_table s ! j)\<lparr>open_count := open_count (dev_table s ! j) + 1\<rparr>]
    \<and> dev_close (int j) s' = Some s"
proof -
  let ?d = "dev_table s ! j"
  let ?s = "s\<lparr>dev_table := (dev_table s)[j := ?d\<lparr>open_count := open_count ?d + 1\<rparr>]\<rparr>"
  have "leave_crit (eflags (dcpu s)) (s\<lparr>dcpu := cli (dcpu s), dev_table := x\<rparr>) = s\<lparr>dev_table := x\<rparr>" for x
    by (simp add: leave_crit_def leave_critical_def cli_def)
  then have "dev_open major minor param s = Some (?s, int j)"
    using scan_hit [OF assms] assms(1) by (simp add: dev_open_def enter_crit_eq store_def)
  moreover have "dev_close (int j) ?s = Some s"
    using assms(1,2) by (simp add: dev_close_def enter_crit_eq store_def open_as_def leave_crit_def leave_critical_def cli_def)
  ultimately show ?thesis by auto
qed

lemma dev_open_close_shared_witness:
  "\<exists>s'. dev_open 1 1 0 demo_fs = Some (s', 0) \<and> dev_close 0 s' = Some demo_fs"
  using dev_open_close_shared [of 0 demo_fs 1 1 0]
  by (auto simp: demo_fs_fields open_as_def demo_dev_def)

text \<open>Opening a device that is not open takes the first free entry, lets the driver open it
  and unmasks its interrupt line - whatever the major number is: a number no driver has gets the
  last driver of the table, the disk's.\<close>

theorem dev_open_takes_any_major:
  assumes new: "\<forall>d \<in> set (dev_table s). \<not> open_as major minor d"
    and free: "j < length (dev_table s)" "open_count (dev_table s ! j) = 0" "\<forall>k < j. open_count (dev_table s ! k) \<noteq> 0"
    and part: "nat (minor AND 0xF) < length (part_info s)" "p_count (part_info s ! nat (minor AND 0xF)) \<noteq> 0"
  shows "\<exists>c. dev_open major minor param s = Some (s\<lparr>dcpu := c, dev_table := (dev_table s)[j := (dev_table s ! j)
      \<lparr>d_type := dev_disk, d_minor := minor, d_param := param, open_count := 1\<rparr>]\<rparr>, int j)
    \<and> eflags c = eflags (dcpu s)"
proof -
  have type: "find_type major None support_table = Some dev_disk" by (simp add: support_table_def)
  let ?d = "(dev_table s ! j)\<lparr>d_type := dev_disk, d_minor := minor, d_param := param\<rparr>"
  let ?s = "s\<lparr>dcpu := cli (dcpu s), dev_table := (dev_table s)[j := ?d]\<rparr>"
  have "scan_devices major minor 0 (- 1) (dev_table s) = Inr (int j)"
    using scan_free [OF new free] by simp
  moreover define c where "c = enable_8259 (pic s) 0x2E (cli (dcpu s)\<lparr>idt_table :=
      (idt_table (cli (dcpu s)))[0x2E := int_gate 0 (ide_entry s)]\<rparr>)"
  then have "op_open ?d ?s = Some (?s\<lparr>dcpu := c\<rparr>, 0)"
    using part by (simp add: op_open_def dev_disk_def disk_open_def part_of_def irq_install_ok cong: if_cong)
  ultimately show ?thesis
    using free(1) type
    by (intro exI [of _ "c\<lparr>eflags := eflags (dcpu s)\<rparr>"]) (simp add: dev_open_def enter_crit_eq fetch_def store_def leave_crit_def leave_critical_def)
qed

lemma dev_open_takes_any_major_witness:
  "\<exists>c. dev_open 77 17 0 demo_fs = Some (demo_fs\<lparr>dcpu := c, dev_table := (dev_table demo_fs)[1 := no_dev
      \<lparr>d_type := dev_disk, d_minor := 17, d_param := 0, open_count := 1\<rparr>]\<rparr>, 1)"
proof -
  have "\<forall>d \<in> set (dev_table demo_fs). \<not> open_as 77 17 d"
    by (auto simp: demo_fs_fields open_as_def demo_dev_def no_dev_def)
  moreover have "nat ((17 :: int) AND 0xF) = 1" by simp
  ultimately show ?thesis
    using dev_open_takes_any_major [of demo_fs 77 17 1 0]
    by (auto simp: demo_fs_fields demo_disk_def console.defs no_dev_def demo_dev_def)
qed

end
