(* ===== verification/File.thy ===== *)
theory File
  imports Fs_Demo
begin

text \<open>The table of open files of \<open>source/fs/file.c\<close>, with reference counts.\<close>

section \<open>The code\<close>

definition file_table_init :: "('d, 'a) fsys_scheme \<Rightarrow> ('d, 'a) fsys_scheme" where
  "file_table_init s = mutex_init FILE_MUTEX s"

text \<open>The loop over the table: \<open>file\<close> is left at the entry where it stops, the last one if none
  is free.\<close>

fun alloc_scan :: "nat \<Rightarrow> nat \<Rightarrow> file_t list \<Rightarrow> nat \<times> bool" where
  "alloc_scan i last_file [] = (last_file, False)"
| "alloc_scan i last_file (f # fs) = (if f_ref f = 0 then (i, True) else alloc_scan (i + 1) i fs)"

definition alloc_file :: "('d, 'a) fsys_scheme \<Rightarrow> (('d, 'a) fsys_scheme \<times> nat) option" where
  "alloc_file s = do {
     s \<leftarrow> at_once (mutex_lock FILE_MUTEX) s;
     let (f, found) = alloc_scan 0 0 (take (nat MAX_OPEN_FILES) (file_table s));
     let s = (if found then upd_file f (\<lambda>x. x\<lparr>f_ref := 1\<rparr>) s else s);
     s \<leftarrow> at_once (mutex_unlock FILE_MUTEX) s;
     Some (s, f) }"

definition free_file :: "nat \<Rightarrow> ('d, 'a) fsys_scheme \<Rightarrow> ('d, 'a) fsys_scheme option" where
  "free_file f s = do {
     s \<leftarrow> at_once (mutex_lock FILE_MUTEX) s;
     file \<leftarrow> the_file f s;
     let s = (if f_ref file > 0 then upd_file f (\<lambda>x. x\<lparr>f_ref := f_ref x - 1\<rparr>) s else s);
     at_once (mutex_unlock FILE_MUTEX) s }"

definition file_inc_ref :: "nat \<Rightarrow> ('d, 'a) fsys_scheme \<Rightarrow> ('d, 'a) fsys_scheme option" where
  "file_inc_ref f s = do {
     s \<leftarrow> at_once (mutex_lock FILE_MUTEX) s;
     _ \<leftarrow> the_file f s;
     let s = upd_file f (\<lambda>x. x\<lparr>f_ref := f_ref x + 1\<rparr>) s;
     at_once (mutex_unlock FILE_MUTEX) s }"

section \<open>Properties\<close>

text \<open>The entries that are not in use, in order.\<close>

definition free_files :: "('d, 'a) fsys_scheme \<Rightarrow> nat list" where
  "free_files s = filter (\<lambda>i. f_ref (file_table s ! i) = 0) [0..<length (file_table s)]"

lemma alloc_scan_eq:
  "alloc_scan i l fs = (case filter (\<lambda>k. f_ref (fs ! k) = 0) [0..<length fs] of
     [] \<Rightarrow> (if fs = [] then l else i + length fs - 1, False) | k # _ \<Rightarrow> (i + k, True))"
proof (induction fs arbitrary: i l)
  case (Cons f fs)
  have "filter (\<lambda>k. f_ref ((f # fs) ! k) = 0) [0..<length (f # fs)] =
      (if f_ref f = 0 then [0] else []) @ map Suc (filter (\<lambda>k. f_ref (fs ! k) = 0) [0..<length fs])"
    by (simp del: upt_Suc add: upt_conv_Cons map_Suc_upt [symmetric] filter_map o_def)
  then show ?case using Cons by (auto split: list.splits)
qed simp

lemma file_lock_unlock:
  assumes "idle_mutex FILE_MUTEX s"
  shows "at_once (mutex_lock FILE_MUTEX) s = Some (hold FILE_MUTEX s)"
    and "at_once (mutex_unlock FILE_MUTEX) (upd_file f g (hold FILE_MUTEX s)) = Some (upd_file f g s)"
    and "at_once (mutex_unlock FILE_MUTEX) (hold FILE_MUTEX s) = Some s"
  using assms
  by (simp_all add: lock_idle unlock_hold [of _ s] upd_file_def hold_def)

lemma alloc_file_free:
  assumes "idle_mutex FILE_MUTEX s" "length (file_table s) = 2048"
  shows "alloc_file s = Some (case free_files s of
      [] \<Rightarrow> (s, 2047)
    | i # _ \<Rightarrow> (upd_file i (\<lambda>x. x\<lparr>f_ref := 1\<rparr>) s, i))"
proof -
  have len: "length (file_table (hold FILE_MUTEX s)) = 2048" "file_table (hold FILE_MUTEX s) = file_table s"
    using assms(2) by (simp_all add: hold_def)
  show ?thesis
    using assms(2) len file_lock_unlock [OF assms(1)]
    by (auto simp: alloc_file_def alloc_scan_eq free_files_def MAX_OPEN_FILES_def split: list.splits)
qed

text \<open>\<open>alloc_file\<close> hands out the lowest entry whose reference count is 0 and sets the count to 1.
  When every entry is in use it does not fail: it hands out the last one, which belongs to
  another open file, and changes nothing.\<close>

theorem alloc_file_lowest:
  assumes "idle_mutex FILE_MUTEX s" "length (file_table s) = 2048"
  shows "alloc_file s = Some (case free_files s of
      [] \<Rightarrow> (s, 2047)
    | i # _ \<Rightarrow> (upd_file i (\<lambda>x. x\<lparr>f_ref := 1\<rparr>) s, i))"
  by (rule alloc_file_free [OF assms])

lemma demo_files:
  "length (file_table demo_fs) = 2048" "free_files demo_fs = 1 # [2..<2048]"
proof -
  show l: "length (file_table demo_fs) = 2048" by (simp add: demo_fs_fields)
  have "f_ref (file_table demo_fs ! i) = (if i = 0 then 1 else 0)" if "i < 2048" for i
    using that by (cases i) (simp_all add: demo_fs_fields demo_file_def no_file_def)
  then have "free_files demo_fs = filter (\<lambda>i. i \<noteq> 0) [0..<2048]"
    unfolding free_files_def l by (intro filter_cong) auto
  also have "[0..<2048] = 0 # 1 # [2..<2048]"
    using upt_conv_Cons [of 0 2048] upt_conv_Cons [of 1 2048] by (simp del: upt_rec_numeral One_nat_def add: Suc_1 flip: One_nat_def)
  also have "filter (\<lambda>i. i \<noteq> 0) \<dots> = 1 # [2..<2048]"
    by (auto simp: filter_id_conv simp del: upt_rec_numeral)
  finally show "free_files demo_fs = 1 # [2..<2048]" .
qed

lemma alloc_file_lowest_witness:
  "alloc_file demo_fs = Some (upd_file 1 (\<lambda>x. x\<lparr>f_ref := 1\<rparr>) demo_fs, 1)"
  using alloc_file_lowest [OF demo_fs_idle(2) demo_files(1)] by (simp add: demo_files(2) del: upt_rec_numeral)

text \<open>The state with \<open>k\<close> references to file \<open>f\<close>.\<close>

definition with_refs :: "nat \<Rightarrow> int \<Rightarrow> ('d, 'a) fsys_scheme \<Rightarrow> ('d, 'a) fsys_scheme" where
  "with_refs f k s = upd_file f (\<lambda>x. x\<lparr>f_ref := k\<rparr>) s"

lemma with_refs_steps:
  assumes "idle_mutex FILE_MUTEX s" "f < length (file_table s)"
  shows "file_inc_ref f (with_refs f k s) = Some (with_refs f (k + 1) s)"
    and "0 \<le> k \<Longrightarrow> free_file f (with_refs f (k + 1) s) = Some (with_refs f k s)"
proof -
  have i: "idle_mutex FILE_MUTEX (with_refs f k s)" for k
    using assms(1) by (simp add: with_refs_def upd_file_def idle_mutex_def)
  have h: "the_file f (hold FILE_MUTEX (with_refs f k s)) = Some ((file_table s ! f)\<lparr>f_ref := k\<rparr>)"
    "upd_file f (\<lambda>x. x\<lparr>f_ref := f_ref x + j\<rparr>) (with_refs f k s) = with_refs f (k + j) s"
    "upd_file f (\<lambda>x. x\<lparr>f_ref := f_ref x - j\<rparr>) (with_refs f k s) = with_refs f (k - j) s" for k j
    using assms(2) by (simp_all add: the_file_def hold_def with_refs_def upd_file_def)
  show "file_inc_ref f (with_refs f k s) = Some (with_refs f (k + 1) s)"
    using file_lock_unlock [OF i [of k]] h by (simp add: file_inc_ref_def)
  show "free_file f (with_refs f (k + 1) s) = Some (with_refs f k s)" if "0 \<le> k"
    using file_lock_unlock [OF i [of "k + 1"]] h that by (simp add: free_file_def)
qed

fun times :: "nat \<Rightarrow> ('s \<Rightarrow> 's option) \<Rightarrow> 's \<Rightarrow> 's option" where
  "times 0 f s = Some s"
| "times (Suc n) f s = f s \<bind> times n f"

lemma times_refs:
  assumes "idle_mutex FILE_MUTEX s" "f < length (file_table s)"
  shows "times n (file_inc_ref f) (with_refs f k s) = Some (with_refs f (k + int n) s)"
    and "0 \<le> k \<Longrightarrow> times n (free_file f) (with_refs f (k + int n) s) = Some (with_refs f k s)"
proof -
  show "times n (file_inc_ref f) (with_refs f k s) = Some (with_refs f (k + int n) s)"
    by (induction n arbitrary: k) (simp_all add: with_refs_steps(1) [OF assms] add_ac)
  have "times n (free_file f) (with_refs f j s) = Some (with_refs f k s)" if "0 \<le> k" "j = k + int n" for j
    using that
  proof (induction n arbitrary: j)
    case (Suc n)
    then show ?case using with_refs_steps(2) [OF assms, of "k + int n"] by (simp add: add_ac)
  qed simp
  then show "0 \<le> k \<Longrightarrow> times n (free_file f) (with_refs f (k + int n) s) = Some (with_refs f k s)" by simp
qed



end
