(* ===== verification/Buffer.thy ===== *)
theory Buffer
  imports Fs_Demo
begin

text \<open>
  The block buffers of \<open>source/fs/buffer.c\<close>: hash buckets of at most a hundred buffers, each a
  doubly linked list through the buffers' \<open>node\<close> fields.  The loop over a bucket follows the
  links; a list without a way back to its head does not return.
\<close>

section \<open>The code\<close>

definition bb_init :: "('d, 'a) fsys_scheme \<Rightarrow> ('d, 'a) fsys_scheme" where
  "bb_init s =
     (let h = fold (\<lambda>i. list_init (Bucket i)) [0..<nat BUFFER_HASH_SIZE] (blinks s);
          h = list_init DirtyHead h
      in mutex_init BUFFER_MUTEX (s\<lparr>bh_size := replicate (nat BUFFER_HASH_SIZE) 0, blinks := h\<rparr>))"

definition hash_bh :: "int \<Rightarrow> int" where
  "hash_bh bno = cmod bno BUFFER_HASH_SIZE"

fun bnode_bb :: "bnode \<Rightarrow> addr option" where
  "bnode_bb (BNode a) = Some a"
| "bnode_bb _ = None"

text \<open>The walk through a full bucket: the block's buffer, if it is there and loaded, otherwise the
  oldest buffer and the last one.\<close>

partial_function (option) scan_bucket ::
    "bnode \<Rightarrow> bnode \<Rightarrow> int \<Rightarrow> addr \<Rightarrow> addr \<Rightarrow> ('d, 'a) fsys_scheme \<Rightarrow> (addr + addr \<times> addr) option" where
  "scan_bucket bl head bno exp_bb bb s =
     (if bl = head then Some (Inr (exp_bb, bb))
      else do {
        bb \<leftarrow> bnode_bb bl;
        if block_no (bbs s bb) = word_of_int bno \<and> b_state (bbs s bb) = 1 then Some (Inl bb)
        else scan_bucket (nxt (blinks s) bl) head bno
          (if exp_time (bbs s bb) < exp_time (bbs s exp_bb) then bb else exp_bb) bb s })"

declare scan_bucket.simps [code]

definition bget_block :: "addr \<Rightarrow> int \<Rightarrow> ('d, 'a) fsys_scheme \<Rightarrow> (('d, 'a) fsys_scheme \<times> addr) option" where
  "bget_block block bno s = do {
     let hash = hash_bh bno;
     sz \<leftarrow> fetch hash (bh_size s);
     if sz \<ge> 100
     then do {
       s \<leftarrow> at_once (mutex_lock BUFFER_MUTEX) s;
       let head = Bucket (nat hash);
       exp_bb \<leftarrow> bnode_bb (nxt (blinks s) head);
       r \<leftarrow> scan_bucket (nxt (blinks s) head) head bno exp_bb 0 s;
       case r of
         Inl bb \<Rightarrow> Some (upd_bb bb (\<lambda>b. b\<lparr>exp_time := timestamp s\<rparr>) s, bb)
       | Inr (exp_bb, bb) \<Rightarrow> do {
           let s = upd_bb exp_bb (\<lambda>b. b\<lparr>block_no := word_of_int bno, exp_time := timestamp s\<rparr>) s;
           let s = upd_bb bb (\<lambda>b. b\<lparr>b_state := 2\<rparr>) s;
           s \<leftarrow> at_once (mutex_unlock BUFFER_MUTEX) s;
           Some (s, exp_bb) } }
     else do {
       (s, bb) \<leftarrow> kmalloc sizeof_block_buffer s;
       _ \<leftarrow> the_bb bb s;
       let s = upd_bb bb (\<lambda>b. b\<lparr>block_no := word_of_int bno, exp_time := timestamp s, b_state := 0\<rparr>) s;
       sb \<leftarrow> the_super block s;
       (s, a) \<leftarrow> kmalloc (ucast (block_size sb)) s;
       let s = upd_bb bb (\<lambda>b. b\<lparr>bb_data := (if a = 0 then [] else fresh_bytes a (uint (block_size sb)) s)\<rparr>) s;
       s \<leftarrow> at_once (mutex_lock BUFFER_MUTEX) s;
       let s = s\<lparr>blinks := list_insert_head (Bucket (nat hash)) (BNode bb) (blinks s)\<rparr>;
       szs \<leftarrow> store hash (sz + 1) (bh_size s);
       s \<leftarrow> at_once (mutex_unlock BUFFER_MUTEX) (s\<lparr>bh_size := szs\<rparr>);
       Some (s, bb) } }"

section \<open>Memory for buffers\<close>

text \<open>The first free block of the kernel heap has at least \<open>n\<close> bytes.\<close>

definition heap_room :: "int \<Rightarrow> 'a heap_scheme \<Rightarrow> bool" where
  "heap_room n s \<longleftrightarrow> (\<exists>b bs. free_blocks (pmem s) (free_list s) (b # bs)
     \<and> n \<le> uint (b_size (pmem s) b) \<and> uint (b_size (pmem s) b) \<le> 2 ^ 32 - 34)"

lemma heap_room_upd:
  "pmem s' = pmem s \<Longrightarrow> free_list s' = free_list s \<Longrightarrow> heap_room n s' = heap_room n s"
  by (simp add: heap_room_def)

lemma kmalloc_room:
  assumes room: "heap_room (n + uint k + 17) s" and n: "18 \<le> n" and k: "uint k \<le> 8 * 4096 - 17"
  shows "\<exists>m fl a. kmalloc k s = Some (s\<lparr>pmem := m, free_list := fl\<rparr>, a) \<and> a \<noteq> 0
    \<and> heap_room n (s\<lparr>pmem := m, free_list := fl\<rparr>)"
proof -
  obtain b bs where b: "free_blocks (pmem s) (free_list s) ([] @ b # bs)"
    "n + uint k + 17 \<le> uint (b_size (pmem s) b)" "uint (b_size (pmem s) b) \<le> 2 ^ 32 - 34"
    using room by (auto simp: heap_room_def)
  have cut: "uint k + 34 < uint (b_size (pmem s) b)" using b(2) n by simp
  obtain s' where s': "kmalloc k s = Some (s', b + 17)"
    "free_blocks (pmem s') (free_list s') ((b + (k + 17)) # bs)"
    "b_size (pmem s') (b + (k + 17)) = b_size (pmem s) b - (k + 17)"
    "s' = s\<lparr>pmem := pmem s', free_list := free_list s'\<rparr>"
    using kmalloc_takes_first [OF b(1) _ _ k b(3)] cut b(2) n by auto
  have "uint (k + 17) = uint k + 17" using k uint_ge_0 [of k] by (subst uint_add_small) simp_all
  then have sz: "uint (b_size (pmem s) b - (k + 17)) = uint (b_size (pmem s) b) - uint k - 17"
    using cut by (subst uint_sub_small) simp_all
  have "uint b + uint (b_size (pmem s) b) \<le> 2 ^ 32" using b(1) by (simp add: free_blocks_def)
  then have "uint b + 17 < 2 ^ 32" using cut uint_ge_0 [of k] by linarith
  then have "uint (b + 17) = uint b + 17" by (subst uint_add_small) simp_all
  moreover have "0 < uint b + 17" using uint_ge_0 [of b] by linarith
  ultimately have "b + 17 \<noteq> 0" by auto
  moreover have "n \<le> uint (b_size (pmem s) b - (k + 17))" "uint (b_size (pmem s) b - (k + 17)) \<le> 2 ^ 32 - 34"
    using sz b(2,3) uint_ge_0 [of k] by linarith+
  then have "heap_room n s'" unfolding heap_room_def using s'(2,3) by metis
  ultimately show ?thesis using s'(1,4) by metis
qed

section \<open>A bucket with room\<close>

text \<open>In a bucket with fewer than a hundred buffers the code does not search: it adds a buffer.\<close>

definition bucket_room :: "int \<Rightarrow> ('d, 'a) fsys_scheme \<Rightarrow> bool" where
  "bucket_room k s \<longleftrightarrow> length (bh_size s) = 10 \<and> (\<forall>n \<in> set (bh_size s). n + k \<le> 100)"

lemma hash_range:
  assumes "0 \<le> bno"
  shows "0 \<le> hash_bh bno" "hash_bh bno < 10"
  using assms by (simp_all add: hash_bh_def BUFFER_HASH_SIZE_def)

lemma whole_buffer:
  "b\<lparr>block_no := x, exp_time := t, b_state := st, bb_data := d\<rparr>
    = (\<lparr>block_no = x, bb_data = d, b_state = st, exp_time = t\<rparr> :: block_buffer_t)"
  by (cases b) simp

lemma bget_block_new:
  fixes s :: "('d, 'a) fsys_scheme"
  assumes idle: "idle_mutex BUFFER_MUTEX s" and bucket: "bucket_room (k + 1) s" "0 \<le> k" and bno: "0 \<le> bno"
    and room: "heap_room (n + 4162) s" "18 \<le> n"
    and block: "block \<noteq> 0" "block_size (supers s block) = 4096"
  shows "\<exists>m fl bb data szs. bget_block block bno s = Some (s\<lparr>pmem := m, free_list := fl, bbs := (bbs s)(bb :=
      \<lparr>block_no = word_of_int bno, bb_data = data, b_state = 0, exp_time = timestamp s\<rparr>),
      blinks := list_insert_head (Bucket (nat (hash_bh bno))) (BNode bb) (blinks s), bh_size := szs\<rparr>, bb)
    \<and> bb \<noteq> 0 \<and> length data = 4096
    \<and> (\<forall>s'. pmem s' = m \<longrightarrow> free_list s' = fl \<longrightarrow> heap_room n (s' :: ('d, 'a) fsys_scheme))
    \<and> (\<forall>s'. bh_size s' = szs \<longrightarrow> bucket_room k (s' :: ('d, 'a) fsys_scheme))"
proof -
  let ?h = "hash_bh bno"
  have h: "0 \<le> ?h" "nat ?h < length (bh_size s)" "length (bh_size s) = 10"
    using bno bucket hash_range [OF bno] by (simp_all add: bucket_room_def)
  then have sz: "fetch ?h (bh_size s) = Some (bh_size s ! nat ?h)" "\<not> 100 \<le> bh_size s ! nat ?h"
    using bucket by (auto simp: fetch_def bucket_room_def all_set_conv_all_nth)
  have u: "uint sizeof_block_buffer = 32" by (simp add: sizeof_block_buffer_def)
  have "(n + 4113) + uint sizeof_block_buffer + 17 = n + 4162" by (simp only: u)
  then have r1: "heap_room ((n + 4113) + uint sizeof_block_buffer + 17) s" using room(1) by (simp only:)
  obtain m1 fl1 bb where k1: "kmalloc sizeof_block_buffer s = Some (s\<lparr>pmem := m1, free_list := fl1\<rparr>, bb)" "bb \<noteq> 0"
    "heap_room (n + 4113) (s\<lparr>pmem := m1, free_list := fl1\<rparr>)"
    using kmalloc_room [OF r1] room(2) by (auto simp: u)
  define t1 where "t1 = s\<lparr>pmem := m1, free_list := fl1\<rparr>"
  define s1 where "s1 = upd_bb bb (\<lambda>b. b\<lparr>block_no := word_of_int bno, exp_time := timestamp t1, b_state := 0\<rparr>) t1"
  have e: "n + uint (4096 :: uint) + 17 = n + 4113" by simp
  have "heap_room (n + uint (4096 :: uint) + 17) s1"
    unfolding e using k1(3) heap_room_upd [of s1 t1] by (simp add: s1_def t1_def upd_bb_def)
  from kmalloc_room [OF this room(2)]
  obtain m2 fl2 a where k2: "kmalloc 4096 s1 = Some (s1\<lparr>pmem := m2, free_list := fl2\<rparr>, a)" "a \<noteq> 0"
    "heap_room n (s1\<lparr>pmem := m2, free_list := fl2\<rparr>)"
    by auto
  define t2 where "t2 = s1\<lparr>pmem := m2, free_list := fl2\<rparr>"
  define s2 where "s2 = upd_bb bb (\<lambda>b. b\<lparr>bb_data := fresh_bytes a 4096 t2\<rparr>) t2"
  let ?bl = "list_insert_head (Bucket (nat ?h)) (BNode bb) (blinks s)"
  let ?szs = "(bh_size s)[nat ?h := bh_size s ! nat ?h + 1]"
  let ?s3 = "(hold BUFFER_MUTEX s2)\<lparr>blinks := ?bl, bh_size := ?szs\<rparr>"
  have f: "blinks s2 = blinks s" "bh_size s2 = bh_size s" "supers s1 = supers s" "mutexes s2 = mutexes s"
    "links s2 = links s" "current s2 = current s"
    by (simp_all add: s2_def t2_def s1_def t1_def upd_bb_def)
  have i: "idle_mutex BUFFER_MUTEX s2" using idle f by (simp add: idle_mutex_def)
  have "at_once (mutex_unlock BUFFER_MUTEX) ?s3 = Some (s2\<lparr>blinks := ?bl, bh_size := ?szs\<rparr>)"
    using unlock_hold [OF i, of ?s3] by (simp add: hold_def)
  then have "bget_block block bno s = Some (s2\<lparr>blinks := ?bl, bh_size := ?szs\<rparr>, bb)"
    using sz h k1(1,2) [folded t1_def] k2(1,2) block lock_idle [OF i] f
    by (simp add: bget_block_def the_bb_def the_super_def store_def t2_def [symmetric] s1_def [symmetric]
        s2_def [symmetric] hold_def Let_def)
  moreover have "length (fresh_bytes a 4096 t2) = 4096"
    by (simp add: fresh_bytes_def)
  moreover have "heap_room n s'" if "pmem s' = m2" "free_list s' = fl2" for s' :: "('d, 'a) fsys_scheme"
    using k2(3) heap_room_upd [of s' "s1\<lparr>pmem := m2, free_list := fl2\<rparr>"] that by simp
  moreover have "bucket_room k s'" if "bh_size s' = ?szs" for s' :: "('d, 'a) fsys_scheme"
    using bucket h that by (force simp: bucket_room_def dest: set_update_subset_insert [THEN subsetD])
  moreover have "s2\<lparr>blinks := ?bl, bh_size := ?szs\<rparr> = s\<lparr>pmem := m2, free_list := fl2, bbs := (bbs s)(bb :=
      \<lparr>block_no = word_of_int bno, bb_data = fresh_bytes a 4096 t2, b_state = 0, exp_time = timestamp s\<rparr>),
      blinks := ?bl, bh_size := ?szs\<rparr>"
    by (simp add: s2_def t2_def [symmetric] upd_bb_def) (simp add: t2_def s1_def t1_def upd_bb_def whole_buffer)
  ultimately show ?thesis
    using k1(2)
    by (intro exI [of _ m2] exI [of _ fl2] exI [of _ bb] exI [of _ "fresh_bytes a 4096 t2"]
      exI [of _ ?szs]) simp
qed

section \<open>A full bucket\<close>

text \<open>A buffer that holds the block, and the older of two buffers.\<close>

definition holds_block :: "int \<Rightarrow> ('d, 'a) fsys_scheme \<Rightarrow> addr \<Rightarrow> bool" where
  "holds_block bno s x \<longleftrightarrow> block_no (bbs s x) = word_of_int bno \<and> b_state (bbs s x) = 1"

definition older :: "('d, 'a) fsys_scheme \<Rightarrow> addr \<Rightarrow> addr \<Rightarrow> addr" where
  "older s e x = (if exp_time (bbs s x) < exp_time (bbs s e) then x else e)"

lemma scan_bucket_list:
  "dseg (blinks s) a (map BNode xs) (Bucket h) \<Longrightarrow>
   scan_bucket (nxt (blinks s) a) (Bucket h) bno e b s = Some (case find (holds_block bno s) xs of
     Some x \<Rightarrow> Inl x | None \<Rightarrow> Inr (foldl (older s) e xs, last (b # xs)))"
proof (induction xs arbitrary: a e b)
  case Nil
  then show ?case by (simp add: scan_bucket.simps)
next
  case (Cons x xs)
  then have "nxt (blinks s) a = BNode x" "dseg (blinks s) (BNode x) (map BNode xs) (Bucket h)" by simp_all
  then show ?case
    using Cons.IH [of "BNode x" "older s e x" x]
    by (subst scan_bucket.simps) (simp flip: holds_block_def older_def split: option.split)
qed

text \<open>C32: A look-up in a full bucket.  If a buffer holds the block it is returned with a new time, but
  the call returns with the mutex of the buffers locked.  If none does, the oldest buffer is
  renamed to the block and returned; it is the last buffer of the bucket that is marked to be
  written back, not the one that is reused.\<close>

theorem bget_block_full_bucket:
  assumes idle: "idle_mutex BUFFER_MUTEX s"
    and full: "fetch (hash_bh bno) (bh_size s) = Some n" "100 \<le> n"
    and bucket: "cdl (blinks s) (Bucket (nat (hash_bh bno))) (map BNode xs)" "xs \<noteq> []"
  defines "old \<equiv> foldl (older s) (hd xs) xs"
  shows "bget_block block bno s = Some (case find (holds_block bno s) xs of
      Some x \<Rightarrow> (upd_bb x (\<lambda>b. b\<lparr>exp_time := timestamp s\<rparr>) (hold BUFFER_MUTEX s), x)
    | None \<Rightarrow> (upd_bb (last xs) (\<lambda>b. b\<lparr>b_state := 2\<rparr>)
        (upd_bb old (\<lambda>b. b\<lparr>block_no := word_of_int bno, exp_time := timestamp s\<rparr>) s), old))"
proof -
  let ?s = "hold BUFFER_MUTEX s" and ?hd = "Bucket (nat (hash_bh bno))"
  have f: "blinks ?s = blinks s" "bbs ?s = bbs s" "timestamp ?s = timestamp s" by (simp_all add: hold_def)
  have h: "holds_block bno ?s = holds_block bno s" "older ?s = older s"
    by (simp_all add: holds_block_def older_def f fun_eq_iff)
  have seg: "dseg (blinks ?s) ?hd (map BNode xs) ?hd" using bucket(1) by (simp add: cdl_def f)
  have first: "nxt (blinks ?s) ?hd = BNode (hd xs)" using seg bucket(2) by (cases xs) auto
  have unlock: "at_once (mutex_unlock BUFFER_MUTEX) (upd_bb a g (upd_bb b k ?s)) = Some (upd_bb a g (upd_bb b k s))" for a b g k
    using unlock_hold [OF idle, of "upd_bb a g (upd_bb b k ?s)"] by (simp add: hold_def upd_bb_def)
  show ?thesis
    using full scan_bucket_list [OF seg, of bno "hd xs" 0] bucket(2) lock_idle [OF idle]
    by (simp add: bget_block_def Let_def first [unfolded f] f h unlock old_def split: option.splits)
qed

definition demo_bucket :: "ide fsys" where
  "demo_bucket = demo_fs\<lparr>bh_size := 100 # replicate 9 0,
     blinks := list_insert_head (Bucket 0) (BNode 0x8100) (list_insert_head (Bucket 0) (BNode 0x8200) (blinks demo_fs)),
     bbs := (\<lambda>a. if a = 0x8100 then no_buffer\<lparr>block_no := 20, b_state := 1, exp_time := 7\<rparr> else no_buffer)\<rparr>"

lemma bget_block_full_bucket_witness:
  "map_option snd (bget_block 0x9000 20 demo_bucket) = Some 0x8100 \<and>
   map_option snd (bget_block 0x9000 30 demo_bucket) = Some 0x8200"
proof -
  have i: "idle_mutex BUFFER_MUTEX demo_bucket"
    using demo_fs_idle(2) by (simp add: idle_mutex_def demo_bucket_def)
  have h: "hash_bh 20 = 0" "hash_bh 30 = 0" by (simp_all add: hash_bh_def BUFFER_HASH_SIZE_def)
  have c: "cdl (blinks demo_bucket) (Bucket (nat 0)) (map BNode [0x8100, 0x8200])"
    by (simp add: demo_bucket_def demo_fs_fields cdl_def list_insert_head_def Let_def)
  have n: "fetch 0 (bh_size demo_bucket) = Some 100" by (simp add: demo_bucket_def fetch_def)
  show ?thesis
    using bget_block_full_bucket [of demo_bucket 20 100 "[0x8100, 0x8200]", unfolded h, OF i n _ c]
      bget_block_full_bucket [of demo_bucket 30 100 "[0x8100, 0x8200]", unfolded h, OF i n _ c]
    by (simp add: holds_block_def older_def demo_bucket_def no_buffer_def)
qed

end
