(* ===== verification/Ext2_Core.thy ===== *)
theory Ext2_Core
  imports Dev File Buffer
begin

text \<open>
  The lower half of \<open>source/fs/ext2.c\<close>: mounting, block input and output, the inode cache and
  the bitmaps.  A pointer result is an address or a reference, 0 or \<open>None\<close> for the null
  pointer.  Loops that the code may not leave are \<open>partial_function\<close>s.
\<close>

section \<open>Mounting\<close>

text \<open>\<open>kmemcpy\<close> to a place in allocated memory does nothing when the address is null.\<close>

definition memcpy_to :: "addr \<Rightarrow> int \<Rightarrow> uchar list \<Rightarrow> uchar list \<Rightarrow> uchar list option" where
  "memcpy_to p off bs mm = (if p = 0 \<and> off = 0 \<or> bs = [] then Some mm else put_bytes off bs mm)"

definition desc_pos :: "super_block_t \<Rightarrow> int" where
  "desc_pos sb = (if block_size sb > 1024 then 6 else 2)"

text \<open>The descriptor of group \<open>i\<close> from the raw sectors, with its two bitmaps allocated.\<close>

definition read_desc ::
    "uchar list \<Rightarrow> super_block_t \<Rightarrow> int \<Rightarrow> ('d, 'a) fsys_scheme \<Rightarrow> (('d, 'a) fsys_scheme \<times> group_desc_t) option" where
  "read_desc data sb i s = do {
     let at = i * 32 + desc_pos sb * 512;
     bm \<leftarrow> get32 (at + 0) data;
     im \<leftarrow> get32 (at + 4) data;
     it \<leftarrow> get32 (at + 8) data;
     fb \<leftarrow> get16 (at + 12) data;
     fi \<leftarrow> get16 (at + 14) data;
     di \<leftarrow> get16 (at + 16) data;
     let bsz = (ucast ((group_block sb + 7) div 8) :: ushort);
     let isz = (ucast ((group_inode sb + 7) div 8) :: ushort);
     (s, pb) \<leftarrow> kmalloc (ucast bsz) s;
     let bb = (if pb = 0 then [] else fresh_bytes pb (uint bsz) s);
     (s, pi) \<leftarrow> kmalloc (ucast isz) s;
     let ib = (if pi = 0 then [] else fresh_bytes pi (uint isz) s);
     Some (s, \<lparr>g_block_bitmap = bm, g_inode_bitmap = im, g_inode_table = it, g_free_block = fb,
       g_free_inode = fi, g_dir_inode = di, block_bitmap_size = bsz, inode_bitmap_size = isz,
       p_block_bitmap = pb, block_bits = bb, p_inode_bitmap = pi, inode_bits = ib,
       inode_begin = 0, p_inode_data = 0, inode_data = []\<rparr>) }"

fun read_descs ::
    "uchar list \<Rightarrow> super_block_t \<Rightarrow> nat list \<Rightarrow> ('d, 'a) fsys_scheme \<Rightarrow> (('d, 'a) fsys_scheme \<times> group_desc_t list) option" where
  "read_descs data sb [] s = Some (s, [])"
| "read_descs data sb (i # is) s = do {
     (s, gd) \<leftarrow> read_desc data sb (int i) s;
     (s, gds) \<leftarrow> read_descs data sb is s;
     Some (s, gd # gds) }"

text \<open>A bitmap is read eight sectors at a time through the buffer \<open>data\<close>; the result is \<open>None\<close>
  in the last component when the device reports an error.\<close>

partial_function (option) load_bits ::
    "int \<Rightarrow> int \<Rightarrow> int \<Rightarrow> int \<Rightarrow> int \<Rightarrow> addr \<Rightarrow> uchar list \<Rightarrow> uchar list \<Rightarrow> ('d, 'a) fsys_scheme \<Rightarrow>
       (('d, 'a) fsys_scheme \<times> uchar list \<times> uchar list option) option" where
  "load_bits dev_id block_sec sec_count offset sz p bits data s = do {
     (s, count, rd) \<leftarrow> dev_read dev_id block_sec (if sec_count > 8 then 8 else sec_count) s;
     data \<leftarrow> put_bytes 0 rd data;
     if count \<le> 0 then Some (s, data, None)
     else do {
       bits \<leftarrow> (if sec_count > 8 then memcpy_to p (offset * 512) (take (8 * 512) data) bits
         else do {
           bits \<leftarrow> memcpy_to p (offset * 512) (take (nat (sec_count * 512)) data) bits;
           if cmod sz 512 \<noteq> 0 then do {
             tl \<leftarrow> get_bytes (sec_count * 512) (cmod sz 512) data;
             memcpy_to p ((offset + sec_count) * 512) tl bits }
           else Some bits });
       if sec_count - 8 > 0 then load_bits dev_id block_sec (sec_count - 8) (offset + 1) sz p bits data s
       else Some (s, data, Some bits) } }"

text \<open>The first sector of a bitmap that starts at block \<open>b\<close>.\<close>

definition block_sec :: "super_block_t \<Rightarrow> uint \<Rightarrow> int" where
  "block_sec sb b = sint (b * ucast (block_size sb) div 512)"

text \<open>The clean-up loops of a failed mount count down to \<open>group_table[-1]\<close> and release what they find
  there: no result.\<close>

partial_function (option) release_bitmaps ::
    "int \<Rightarrow> group_desc_t list \<Rightarrow> ('d, 'a) fsys_scheme \<Rightarrow> ('d, 'a) fsys_scheme option" where
  "release_bitmaps i gds s =
     (if i \<ge> 0 then do {
        let i = i - 1;
        gd \<leftarrow> fetch i gds;
        s \<leftarrow> kfree (p_block_bitmap gd) s;
        s \<leftarrow> kfree (p_inode_bitmap gd) s;
        release_bitmaps i gds s }
      else Some s)"

declare load_bits.simps [code] release_bitmaps.simps [code]

fun load_groups ::
    "int \<Rightarrow> super_block_t \<Rightarrow> addr \<Rightarrow> nat list \<Rightarrow> group_desc_t list \<Rightarrow> uchar list \<Rightarrow> ('d, 'a) fsys_scheme \<Rightarrow>
       (('d, 'a) fsys_scheme \<times> group_desc_t list option) option" where
  "load_groups dev_id sb sbp [] gds data s = Some (s, Some gds)"
| "load_groups dev_id sb sbp (i # is) gds data s = do {
     let fail = (\<lambda>s. do {
       s \<leftarrow> release_bitmaps (int i) gds s;
       s \<leftarrow> kfree sbp s;
       s \<leftarrow> dev_close dev_id s;
       Some (s, None) });
     gd \<leftarrow> fetch (int i) gds;
     (s, data, r) \<leftarrow> load_bits dev_id (block_sec sb (g_block_bitmap gd))
       (cdiv (uint (block_bitmap_size gd)) 512) 0 (uint (block_bitmap_size gd)) (p_block_bitmap gd) (block_bits gd) data s;
     case r of
       None \<Rightarrow> fail s
     | Some bits \<Rightarrow> do {
         let gd = gd\<lparr>block_bits := bits\<rparr>;
         (s, data, r) \<leftarrow> load_bits dev_id (block_sec sb (g_inode_bitmap gd))
           (cdiv (uint (inode_bitmap_size gd)) 512) 0 (uint (inode_bitmap_size gd)) (p_inode_bitmap gd) (inode_bits gd) data s;
         case r of
           None \<Rightarrow> fail s
         | Some bits \<Rightarrow> do {
             (s, p) \<leftarrow> kmalloc (word_of_int (PAGE_SIZE * 5)) s;
             let gd = gd\<lparr>inode_bits := bits, inode_begin := - 1, p_inode_data := p,
               inode_data := (if p = 0 then [] else old_inodes s)\<rparr>;
             load_groups dev_id sb sbp is (gds[i := gd]) data s } } }"

fun release_groups :: "group_desc_t list \<Rightarrow> ('d, 'a) fsys_scheme \<Rightarrow> ('d, 'a) fsys_scheme option" where
  "release_groups [] s = Some s"
| "release_groups (gd # gds) s = do {
     s \<leftarrow> kfree (p_block_bitmap gd) s;
     s \<leftarrow> kfree (p_inode_bitmap gd) s;
     s \<leftarrow> kfree (p_inode_data gd) s;
     release_groups gds s }"

text \<open>\<open>1024 << log_size\<close> with a \<open>char\<close>: a shift out of the range of \<open>int\<close> has no result.\<close>

definition shifted_size :: "uchar \<Rightarrow> ushort option" where
  "shifted_size log_size =
     (let k = sint log_size in if 0 \<le> k \<and> k < 21 then Some (word_of_int (1024 * 2 ^ nat k)) else None)"

definition ext2_mount :: "nat \<Rightarrow> int \<Rightarrow> int \<Rightarrow> ('d, 'a) fsys_scheme \<Rightarrow> (('d, 'a) fsys_scheme \<times> int) option" where
  "ext2_mount fs major minor s = do {
     (s, dev_id) \<leftarrow> dev_open major minor 0 s;
     if dev_id < 0 then Some (s, dev_id)
     else do {
       (s, count, rd) \<leftarrow> dev_read dev_id 2 7 s;
       data \<leftarrow> put_bytes 0 rd (stack_bytes s);
       if count \<le> 0 then Some (s, count)
       else do {
         (s, psb) \<leftarrow> kmalloc 4096 s;
         let s = s\<lparr>p_super_block := psb, raw_super := (if psb = 0 then [] else data)\<rparr>;
         blocks \<leftarrow> get32 4 data;
         per_group \<leftarrow> get32 32 data;
         if per_group = 0 then None
         else do {
           let groups = sint (blocks div per_group) + (if blocks mod per_group \<noteq> 0 then 1 else 0);
           (s, sbp) \<leftarrow> kmalloc (sizeof_super_block + word_of_int groups * sizeof_group_desc) s;
           if sbp = 0 then do { s \<leftarrow> dev_close dev_id s; Some (s, - ENOMEM) }
           else do {
             magic \<leftarrow> get16 56 data;
             inodes \<leftarrow> get32 0 data;
             used \<leftarrow> get32 8 data;
             fb \<leftarrow> get32 12 data;
             fi \<leftarrow> get32 16 data;
             isize \<leftarrow> get16 88 data;
             log_size \<leftarrow> get8 24 data;
             bsize \<leftarrow> shifted_size log_size;
             gi \<leftarrow> get32 40 data;
             let sb = \<lparr>sb_name = [0x65, 0x78, 0x74, 0x32], sb_magic = magic, inode_count = inodes, block_count = blocks,
               used_block = used, free_block = fb, free_inode = fi, inode_size = isize, block_size = bsize,
               group_block = per_group, group_inode = gi, group_count = word_of_int groups, sb_fs = fs, group_table = []\<rparr>;
             (s, gds) \<leftarrow> read_descs data sb [0..<nat groups] s;
             (s, r) \<leftarrow> load_groups dev_id sb sbp [0..<nat groups] gds data s;
             case r of
               None \<Rightarrow> Some (s, - ENOMEM)
             | Some gds \<Rightarrow> do {
                 let s = s\<lparr>supers := (supers s)(sbp := sb\<lparr>group_table := gds\<rparr>)\<rparr>;
                 let s = upd_fs fs (\<lambda>f. f\<lparr>fs_data := sbp, fs_dev_id := dev_id\<rparr>) s;
                 (s, mx) \<leftarrow> kmalloc sizeof_mutex s;
                 if mx = 0 then do {
                   s \<leftarrow> release_groups gds s;
                   s \<leftarrow> kfree sbp s;
                   s \<leftarrow> dev_close dev_id s;
                   Some (s, - ENOMEM) }
                 else Some (upd_fs fs (\<lambda>f. f\<lparr>fs_mutex := mx\<rparr>) (mutex_init (unat mx) s), dev_id) } } } } } }"

fun umount_groups :: "group_desc_t list \<Rightarrow> ('d, 'a) fsys_scheme \<Rightarrow> ('d, 'a) fsys_scheme option" where
  "umount_groups [] s = Some s"
| "umount_groups (gd # gds) s = do {
     s \<leftarrow> (if p_block_bitmap gd \<noteq> 0 then kfree (p_block_bitmap gd) s else Some s);
     s \<leftarrow> (if p_inode_bitmap gd \<noteq> 0 then kfree (p_inode_bitmap gd) s else Some s);
     s \<leftarrow> kfree (p_inode_data gd) s;
     umount_groups gds s }"

definition ext2_umount :: "nat \<Rightarrow> ('d, 'a) fsys_scheme \<Rightarrow> ('d, 'a) fsys_scheme option" where
  "ext2_umount fs s = do {
     f \<leftarrow> fetch (int fs) (fs_table s);
     s \<leftarrow> dev_close (fs_dev_id f) s;
     sb \<leftarrow> the_super (fs_data f) s;
     s \<leftarrow> umount_groups (group_table sb) s;
     s \<leftarrow> kfree (p_super_block s) s;
     s \<leftarrow> kfree (fs_data f) s;
     kfree (fs_mutex f) s }"

section \<open>Blocks\<close>

definition dev_of :: "super_block_t \<Rightarrow> ('d, 'a) fsys_scheme \<Rightarrow> int option" where
  "dev_of sb s = map_option fs_dev_id (fetch (int (sb_fs sb)) (fs_table s))"

text \<open>The buffer of a block, loaded; 0 when the device fails.\<close>

definition read_block :: "addr \<Rightarrow> uint \<Rightarrow> ('d, 'a) fsys_scheme \<Rightarrow> (('d, 'a) fsys_scheme \<times> addr) option" where
  "read_block block bno s = do {
     (s, bb) \<leftarrow> bget_block block (sint bno) s;
     b \<leftarrow> the_bb bb s;
     if b_state b = 1 then Some (s, bb)
     else do {
       sb \<leftarrow> the_super block s;
       dev \<leftarrow> dev_of sb s;
       (s, ok) \<leftarrow> (if b_state b = 2
         then map_option (\<lambda>(s, count). (s, count > 0)) (dev_write dev (block_sec sb bno) (bb_data b) 8 s)
         else Some (s, True));
       if \<not> ok then Some (s, 0)
       else do {
         (s, count, rd) \<leftarrow> dev_read dev (block_sec sb bno) 8 s;
         data \<leftarrow> put_bytes 0 rd (bb_data b);
         let s = upd_bb bb (\<lambda>b. b\<lparr>bb_data := data\<rparr>) s;
         if count \<le> 0 then Some (s, 0)
         else Some (upd_bb bb (\<lambda>b. b\<lparr>b_state := 1\<rparr>) s, bb) } } }"

section \<open>The inode cache\<close>

text \<open>\<open>15\<close> block pointers as bytes and back.\<close>

definition inode_to_bytes :: "int \<Rightarrow> inode_t \<Rightarrow> uchar list \<Rightarrow> uchar list option" where
  "inode_to_bytes step t d = do {
     d \<leftarrow> put32 (step + 28) (ucast (i_blocks t)) d;
     d \<leftarrow> put16 (step + 2) (i_uid t) d;
     d \<leftarrow> put16 (step + 24) (i_uid t) d;
     d \<leftarrow> put32 (step + 4) (i_size t) d;
     d \<leftarrow> put32 (step + 8) (i_atime t) d;
     d \<leftarrow> put32 (step + 16) (i_mtime t) d;
     d \<leftarrow> put32 (step + 12) (i_ctime t) d;
     put_bytes (step + 40) (concat (map bytes32 (i_block t))) d }"

definition inode_from_bytes :: "addr \<Rightarrow> int \<Rightarrow> uchar list \<Rightarrow> inode_t \<Rightarrow> inode_t option" where
  "inode_from_bytes block step d t = do {
     mode \<leftarrow> get16 (step + 0) d;
     blocks \<leftarrow> get32 (step + 28) d;
     uid \<leftarrow> get16 (step + 2) d;
     gid \<leftarrow> get16 (step + 24) d;
     sz \<leftarrow> get32 (step + 4) d;
     atime \<leftarrow> get32 (step + 8) d;
     mtime \<leftarrow> get32 (step + 16) d;
     ctime \<leftarrow> get32 (step + 12) d;
     blk \<leftarrow> get_bytes (step + 40) (15 * 4) d;
     Some (t\<lparr>i_mode := mode, i_blocks := ucast blocks, i_uid := uid, i_gid := gid, i_size := sz,
       i_atime := atime, i_mtime := mtime, i_ctime := ctime,
       i_block := map (\<lambda>i. le32 (drop (4 * i) blk)) [0..<15], i_sb := block\<rparr>) }"

text \<open>The loop over the cached inodes; \<open>bb\<close> is the current buffer and \<open>step\<close> the offset in it.\<close>

fun write_inodes ::
    "addr \<Rightarrow> nat \<Rightarrow> int \<Rightarrow> int \<Rightarrow> uint \<Rightarrow> int list \<Rightarrow> addr \<Rightarrow> int \<Rightarrow> ('d, 'a) fsys_scheme \<Rightarrow>
       (('d, 'a) fsys_scheme \<times> int) option" where
  "write_inodes block g num in_cache inode_block [] bb step s = Some (s, 0)"
| "write_inodes block g num in_cache inode_block (i # is) bb step s = do {
     (s, bb, step) \<leftarrow> (if cmod i num = 0
       then map_option (\<lambda>(s, bb). (s, bb, 0)) (read_block block (inode_block + word_of_int (cdiv i num)) s)
       else Some (s, bb, step));
     if bb = 0 then Some (s, - 1)
     else do {
       sb \<leftarrow> the_super block s;
       t \<leftarrow> the_inode (block, g, nat i) s;
       b \<leftarrow> the_bb bb s;
       d \<leftarrow> inode_to_bytes step t (bb_data b);
       let s = upd_bb bb (\<lambda>b. b\<lparr>bb_data := d\<rparr>) s;
       s \<leftarrow> (if cmod i num = num - 1 \<or> i = in_cache - 1
         then do {
           dev \<leftarrow> dev_of sb s;
           map_option fst (dev_write dev (block_sec sb (block_no b)) d 8 s) }
         else Some s);
       write_inodes block g num in_cache inode_block is bb (step + uint (inode_size sb)) s } }"

definition write_inode :: "addr \<Rightarrow> nat \<Rightarrow> ('d, 'a) fsys_scheme \<Rightarrow> (('d, 'a) fsys_scheme \<times> int) option" where
  "write_inode block g s = do {
     gd \<leftarrow> the_group block g s;
     if inode_begin gd = - 1 then Some (s, - 1)
     else do {
       sb \<leftarrow> the_super block s;
       let isz = uint (inode_size sb);
       if isz = 0 \<or> cdiv (uint (block_size sb)) isz = 0 then None
       else do {
         let in_cache = cdiv (PAGE_SIZE * 5) isz;
         write_inodes block g (cdiv (uint (block_size sb)) isz) in_cache (word_of_int (inode_begin gd))
           [0 .. in_cache - 1] 0 0 s } } }"

fun read_inodes ::
    "addr \<Rightarrow> nat \<Rightarrow> int \<Rightarrow> uint \<Rightarrow> int list \<Rightarrow> addr \<Rightarrow> int \<Rightarrow> ('d, 'a) fsys_scheme \<Rightarrow>
       (('d, 'a) fsys_scheme \<times> bool) option" where
  "read_inodes block g num inode_block [] bb step s = Some (s, True)"
| "read_inodes block g num inode_block (i # is) bb step s = do {
     (s, bb, step) \<leftarrow> (if cmod i num = 0
       then map_option (\<lambda>(s, bb). (s, bb, 0)) (read_block block (inode_block + word_of_int (cdiv i num)) s)
       else Some (s, bb, step));
     if bb = 0 then Some (s, False)
     else do {
       sb \<leftarrow> the_super block s;
       t \<leftarrow> the_inode (block, g, nat i) s;
       b \<leftarrow> the_bb bb s;
       t \<leftarrow> inode_from_bytes block step (bb_data b) t;
       let s = upd_inode (block, g, nat i) (\<lambda>_. t) s;
       read_inodes block g num inode_block is bb (step + uint (inode_size sb)) s } }"

definition iget_inode :: "addr \<Rightarrow> uint \<Rightarrow> ('d, 'a) fsys_scheme \<Rightarrow> (('d, 'a) fsys_scheme \<times> iref option) option" where
  "iget_inode block ino s = do {
     sb \<leftarrow> the_super block s;
     if ino < 1 \<or> ino > inode_count sb then Some (s, None)
     else if group_inode sb = 0 \<or> block_size sb = 0 \<or> inode_size sb = 0
       \<or> cdiv (uint (block_size sb)) (uint (inode_size sb)) = 0 then None
     else do {
       let g = unat ((ino - 1) div group_inode sb);
       let index = (ino - 1) mod group_inode sb;
       gd \<leftarrow> the_group block g s;
       let bsz = (ucast (block_size sb) :: uint);
       let isz = (ucast (inode_size sb) :: uint);
       let inode_block = g_inode_table gd + (index * isz) div bsz;
       let offset = (index * isz) mod bsz;
       if inode_begin gd \<noteq> - 1 \<and> inode_block - word_of_int (inode_begin gd) < 5
       then Some (s, Some (block, g,
         unat ((inode_block - word_of_int (inode_begin gd)) * bsz div isz + offset div isz)))
       else do {
         (s, _) \<leftarrow> write_inode block g s;
         (s, ok) \<leftarrow> read_inodes block g (cdiv (uint (block_size sb)) (uint (inode_size sb))) inode_block
           [0 .. cdiv (PAGE_SIZE * 5) (uint (inode_size sb)) - 1] 0 0 s;
         if \<not> ok then Some (s, None)
         else Some (upd_group block g (\<lambda>gd. gd\<lparr>inode_begin := sint inode_block\<rparr>) s,
           Some (block, g, unat (offset div isz))) } } }"

section \<open>Bitmaps\<close>

text \<open>\<open>|= flag << n\<close> with 1 or 0: clearing changes nothing.\<close>

definition set_bit :: "uchar list \<Rightarrow> uint \<Rightarrow> int \<Rightarrow> uchar list option" where
  "set_bit data index flag = do {
     b \<leftarrow> get8 (uint (index div 8)) data;
     let v = (if flag = 1 then b OR push_bit (unat (index mod 8)) 1 else b OR push_bit (unat (index mod 8)) 0);
     put_bytes (uint (index div 8)) [v] data }"

partial_function (option) ffs_loop :: "uint \<Rightarrow> int \<Rightarrow> int option" where
  "ffs_loop word i = (if word AND 1 = 0 then ffs_loop word (i + 1) else Some i)"

definition ffs :: "uint \<Rightarrow> int option" where
  "ffs word = (if word = 0 then Some 0 else ffs_loop word 1)"

partial_function (option) zero_bit_loop :: "uchar list \<Rightarrow> uint \<Rightarrow> uint \<Rightarrow> uint option" where
  "zero_bit_loop bits sz i =
     (if i < sz div 32
      then do {
        word \<leftarrow> get32 (4 * uint i) bits;
        if NOT word \<noteq> 0 then do { k \<leftarrow> ffs (NOT word); Some (i * 4 * 8 + word_of_int k) }
        else zero_bit_loop bits sz (i + 1) }
      else Some sz)"

definition find_first_zero_bit :: "uchar list \<Rightarrow> uint \<Rightarrow> uint option" where
  "find_first_zero_bit bits sz = zero_bit_loop bits sz 0"

declare ffs_loop.simps [code] zero_bit_loop.simps [code]

fun alloc_inode_in :: "addr \<Rightarrow> nat list \<Rightarrow> ('d, 'a) fsys_scheme \<Rightarrow> (('d, 'a) fsys_scheme \<times> uint) option" where
  "alloc_inode_in block [] s = Some (s, 0)"
| "alloc_inode_in block (g # gs) s = do {
     gd \<leftarrow> the_group block g s;
     ino \<leftarrow> find_first_zero_bit (inode_bits gd) (ucast (inode_bitmap_size gd));
     if ino = ucast (inode_bitmap_size gd) then alloc_inode_in block gs s
     else do {
       bits \<leftarrow> set_bit (inode_bits gd) ino 1;
       let s = upd_super block (\<lambda>sb. sb\<lparr>free_inode := free_inode sb - 1\<rparr>) s;
       Some (upd_group block g (\<lambda>gd. gd\<lparr>inode_bits := bits, g_free_inode := g_free_inode gd - 1\<rparr>) s, ino) } }"

definition alloc_inode :: "addr \<Rightarrow> ('d, 'a) fsys_scheme \<Rightarrow> (('d, 'a) fsys_scheme \<times> uint) option" where
  "alloc_inode block s = do {
     sb \<leftarrow> the_super block s;
     if group_inode sb = 0 then None
     else alloc_inode_in block [0 ..< nat (sint (inode_count sb div group_inode sb))] s }"

end
