(* ===== verification/Ext2.thy ===== *)
theory Ext2
  imports Ext2_Core
begin

text \<open>
  The upper half of \<open>source/fs/ext2.c\<close>: directories and paths, the block map of a file, and the
  operations of the file system interface.
\<close>

section \<open>Directories\<close>

definition is_dir :: "ushort \<Rightarrow> bool" where
  "is_dir m \<longleftrightarrow> m AND 0xF000 = 0x4000"

text \<open>\<open>kmemcmp\<close> against the bytes of a buffer, which stops at the first difference.\<close>

fun mem_same :: "int \<Rightarrow> uchar list \<Rightarrow> uchar list \<Rightarrow> bool option" where
  "mem_same off [] d = Some True"
| "mem_same off (c # cs) d = do { x \<leftarrow> get8 off d; if x \<noteq> c then Some False else mem_same (off + 1) cs d }"

text \<open>The entries of one block from offset \<open>off\<close>: the matching one, or the first empty one.\<close>

partial_function (option) scan_dir ::
    "int \<Rightarrow> int \<Rightarrow> uchar list \<Rightarrow> uchar list \<Rightarrow> addr \<Rightarrow> (addr \<times> int) option \<Rightarrow> (int + (addr \<times> int) option) option" where
  "scan_dir off bsize d name bb gap =
     (if off < bsize
      then do {
        ino \<leftarrow> get32 off d;
        hit \<leftarrow> (if ino \<noteq> 0 then mem_same (off + 8) name d else Some False);
        if hit then Some (Inl off)
        else do {
          rec_len \<leftarrow> get16 (off + 4) d;
          scan_dir (off + uint rec_len) bsize d name bb
            (if ino = 0 \<and> gap = None then Some (bb, off) else gap) } }
      else Some (Inr gap))"

text \<open>The loop over the blocks of a directory; the result is the buffer and the offset of the entry, or
  the first empty entry and the last buffer.\<close>

datatype dir_result = DirFail | DirFound addr int | DirMissing addr "(addr \<times> int) option"

partial_function (option) scan_blocks ::
    "iref \<Rightarrow> uchar list \<Rightarrow> int \<Rightarrow> addr \<Rightarrow> (addr \<times> int) option \<Rightarrow> ('d, 'a) fsys_scheme \<Rightarrow>
       (('d, 'a) fsys_scheme \<times> dir_result) option" where
  "scan_blocks dir name pos bb gap s = do {
     di \<leftarrow> the_inode dir s;
     if \<not> word_of_int pos < i_size di then Some (s, DirMissing bb gap)
     else do {
       sb \<leftarrow> the_super (i_sb di) s;
       bsize \<leftarrow> blksize sb;
       bno \<leftarrow> fetch (cdiv pos bsize) (i_block di);
       (s, bb) \<leftarrow> read_block (i_sb di) bno s;
       if bb = 0 then Some (s, DirFail)
       else do {
         r \<leftarrow> scan_dir 0 bsize (bb_data (bbs s bb)) name bb gap;
         case r of
           Inl off \<Rightarrow> Some (s, DirFound bb off)
         | Inr gap \<Rightarrow> scan_blocks dir name (pos + bsize) bb gap s } } }"

declare scan_dir.simps [code] scan_blocks.simps [code]

definition find_inode_in_dir ::
    "nat \<Rightarrow> iref option \<Rightarrow> uchar list \<Rightarrow> int \<Rightarrow> ('d, 'a) fsys_scheme \<Rightarrow> (('d, 'a) fsys_scheme \<times> iref option) option" where
  "find_inode_in_dir f dir name end_flag s = do {
     dir \<leftarrow> dir;
     di \<leftarrow> the_inode dir s;
     if \<not> is_dir (i_mode di) then Some (s, None)
     else do {
       (s, r) \<leftarrow> scan_blocks dir name 0 0 None s;
       case r of
         DirFail \<Rightarrow> Some (s, None)
       | DirFound bb off \<Rightarrow> do {
           di \<leftarrow> the_inode dir s;
           ino \<leftarrow> get32 off (bb_data (bbs s bb));
           (s, inode) \<leftarrow> iget_inode (i_sb di) ino s;
           ino \<leftarrow> get32 off (bb_data (bbs s bb));
           Some (upd_file f (\<lambda>x. x\<lparr>f_ino := sint ino\<rparr>) s, inode) }
       | DirMissing bb gap \<Rightarrow> do {
           file \<leftarrow> the_file f s;
           if f_mode file AND O_CREAT = O_CREAT \<and> end_flag \<noteq> 0
           then do {
             di \<leftarrow> the_inode dir s;
             (s, ino) \<leftarrow> alloc_inode (i_sb di) s;
             di \<leftarrow> the_inode dir s;
             (s, inode) \<leftarrow> iget_inode (i_sb di) ino s;
             (ebb, off) \<leftarrow> gap;
             d \<leftarrow> put32 off ino (bb_data (bbs s ebb));
             d \<leftarrow> put_bytes (off + 8) name d;
             d \<leftarrow> put_bytes (off + 6) [of_nat (length name)] d;
             d \<leftarrow> put16 (off + 4) (8 + of_nat (length name)) d;
             let s = upd_bb ebb (\<lambda>b. b\<lparr>bb_data := d\<rparr>) s;
             _ \<leftarrow> the_bb bb s;
             Some (s\<lparr>blinks := list_insert_tail DirtyHead (DNode bb) (blinks s)\<rparr>, inode) }
           else Some (s, None) } } }"

section \<open>Paths\<close>

text \<open>The next component: the rest of the path, the component cut to the buffer's size, and the
  flag that says that nothing follows.\<close>

definition SLASH :: uchar where "SLASH = 0x2f"

definition iget_name :: "uchar list \<Rightarrow> int \<Rightarrow> (uchar list \<times> uchar list \<times> int) option" where
  "iget_name path end_flag =
     (if length path = 0 then None
      else let path = dropWhile (\<lambda>c. c = SLASH) path;
               name = take (MAX_NAME_LEN - 1) (takeWhile (\<lambda>c. c \<noteq> SLASH) path);
               path = drop (length name) path;
               rest = dropWhile (\<lambda>c. c = SLASH) path
           in Some (rest, name, if rest = path then end_flag else 0))"

partial_function (option) walk_path ::
    "nat \<Rightarrow> uchar list \<Rightarrow> iref option \<Rightarrow> int \<Rightarrow> ('d, 'a) fsys_scheme \<Rightarrow> (('d, 'a) fsys_scheme \<times> iref option) option" where
  "walk_path f path inode end_flag s =
     (case iget_name path end_flag of
        None \<Rightarrow> Some (s, inode)
      | Some (path, name, end_flag) \<Rightarrow> do {
          let parent = inode;
          (s, inode) \<leftarrow> find_inode_in_dir f inode name end_flag s;
          case inode of
            None \<Rightarrow> Some (s, None)
          | Some i \<Rightarrow> do {
              _ \<leftarrow> the_inode i s;
              walk_path f path inode end_flag (upd_inode i (\<lambda>t. t\<lparr>i_parent := parent\<rparr>) s) } })"

declare walk_path.simps [code]

definition find_inode_by_path :: "nat \<Rightarrow> uchar list \<Rightarrow> ('d, 'a) fsys_scheme \<Rightarrow> (('d, 'a) fsys_scheme \<times> iref option) option" where
  "find_inode_by_path f path s = do {
     block \<leftarrow> file_super f s;
     (s, inode) \<leftarrow> iget_inode block 2 s;
     walk_path f path inode 1 s }"

section \<open>The block map of a file\<close>

text \<open>\<open>*(uint * )(bb->data + n)\<close>: the index is added to a byte pointer.\<close>

definition load_word :: "addr \<Rightarrow> uint \<Rightarrow> ('d, 'a) fsys_scheme \<Rightarrow> uint option" where
  "load_word bb n s = get32 (uint n) (bb_data (bbs s bb))"

definition iget_bno :: "iref \<Rightarrow> uint \<Rightarrow> ('d, 'a) fsys_scheme \<Rightarrow> (('d, 'a) fsys_scheme \<times> uint) option" where
  "iget_bno inode index s = do {
     t \<leftarrow> the_inode inode s;
     if index < 12 then do { b \<leftarrow> fetch (uint index) (i_block t); Some (s, b) }
     else if index < 1036
     then do {
       b \<leftarrow> fetch 12 (i_block t);
       (s, bb) \<leftarrow> read_block (i_sb t) b s;
       if bb = 0 then Some (s, - 1)
       else do { w \<leftarrow> load_word bb (index - 12) s; Some (s, w) } }
     else if index < 1049612
     then do {
       b \<leftarrow> fetch 13 (i_block t);
       (s, bb) \<leftarrow> read_block (i_sb t) b s;
       if bb = 0 then Some (s, - 1)
       else do {
         cur_bno \<leftarrow> load_word bb ((index - 1036) div 1024) s;
         (s, bb) \<leftarrow> read_block (i_sb t) cur_bno s;
         if bb = 0 then Some (s, - 1)
         else do { w \<leftarrow> load_word bb ((index - 1036) mod 1024) s; Some (s, w) } } }
     else do {
       b \<leftarrow> fetch 14 (i_block t);
       (s, bb) \<leftarrow> read_block (i_sb t) b s;
       if bb = 0 then Some (s, - 1)
       else do {
         cur_bno \<leftarrow> load_word bb ((index - 1049612) div 1048576) s;
         (s, bb) \<leftarrow> read_block (i_sb t) cur_bno s;
         if bb = 0 then Some (s, - 1)
         else do {
           cur_bno \<leftarrow> load_word bb ((index - 1049612) mod 1048576 div 1024) s;
           (s, bb) \<leftarrow> read_block (i_sb t) cur_bno s;
           if bb = 0 then Some (s, - 1)
           else do { w \<leftarrow> load_word bb ((index - 1049612) mod 1048576 mod 1024) s; Some (s, w) } } } } }"

text \<open>The pieces \<open>alloc_block\<close> repeats: find a block, mark a block, write an entry of a block's table
  (here the index counts words).\<close>

definition find_block :: "addr \<Rightarrow> nat \<Rightarrow> ('d, 'a) fsys_scheme \<Rightarrow> uint option" where
  "find_block block g s = do {
     gd \<leftarrow> the_group block g s;
     find_first_zero_bit (block_bits gd) (ucast (block_bitmap_size gd)) }"

definition mark_block :: "addr \<Rightarrow> nat \<Rightarrow> uint \<Rightarrow> int \<Rightarrow> ('d, 'a) fsys_scheme \<Rightarrow> ('d, 'a) fsys_scheme option" where
  "mark_block block g bno flag s = do {
     gd \<leftarrow> the_group block g s;
     bits \<leftarrow> set_bit (block_bits gd) bno flag;
     Some (upd_group block g (\<lambda>gd. gd\<lparr>block_bits := bits\<rparr>) s) }"

definition put_entry :: "addr \<Rightarrow> int \<Rightarrow> uint \<Rightarrow> ('d, 'a) fsys_scheme \<Rightarrow> ('d, 'a) fsys_scheme option" where
  "put_entry bb k v s = do {
     d \<leftarrow> put32 (4 * k) v (bb_data (bbs s bb));
     Some (upd_bb bb (\<lambda>b. b\<lparr>bb_data := d\<rparr>) s) }"

definition get_entry :: "addr \<Rightarrow> int \<Rightarrow> ('d, 'a) fsys_scheme \<Rightarrow> uint option" where
  "get_entry bb k s = get32 (4 * k) (bb_data (bbs s bb))"

text \<open>A block read that ends the function with \<open>-1\<close> when it fails.\<close>

definition with_block ::
    "addr \<Rightarrow> uint \<Rightarrow> (addr \<Rightarrow> ('d, 'a) fsys_scheme \<Rightarrow> (('d, 'a) fsys_scheme \<times> uint) option) \<Rightarrow>
       ('d, 'a) fsys_scheme \<Rightarrow> (('d, 'a) fsys_scheme \<times> uint) option" where
  "with_block block bno k s = do {
     (s, bb) \<leftarrow> read_block block bno s;
     if bb = 0 then Some (s, - 1) else k bb s }"

text \<open>A fresh table block \<open>bno\<close> whose first entry is a block found free in turn.\<close>

definition first_entry ::
    "addr \<Rightarrow> nat \<Rightarrow> uint \<Rightarrow> (uint \<Rightarrow> ('d, 'a) fsys_scheme \<Rightarrow> (('d, 'a) fsys_scheme \<times> uint) option) \<Rightarrow>
       ('d, 'a) fsys_scheme \<Rightarrow> (('d, 'a) fsys_scheme \<times> uint) option" where
  "first_entry block g bno k s = with_block block bno (\<lambda>bb s. do {
     nbno \<leftarrow> find_block block g s;
     s \<leftarrow> put_entry bb 0 nbno s;
     s \<leftarrow> mark_block block g nbno 1 s;
     k nbno s }) s"

definition set_slot :: "iref \<Rightarrow> int \<Rightarrow> uint \<Rightarrow> ('d, 'a) fsys_scheme \<Rightarrow> ('d, 'a) fsys_scheme option" where
  "set_slot inode k bno s = do {
     t \<leftarrow> the_inode inode s;
     blocks \<leftarrow> store k bno (i_block t);
     Some (upd_inode inode (\<lambda>t. t\<lparr>i_block := blocks\<rparr>) s) }"

definition get_slot :: "iref \<Rightarrow> int \<Rightarrow> ('d, 'a) fsys_scheme \<Rightarrow> uint option" where
  "get_slot inode k s = the_inode inode s \<bind> (\<lambda>t. fetch k (i_block t))"

text \<open>Single, double and triple indirection, each with its cases for a fresh table.\<close>

definition alloc_single ::
    "addr \<Rightarrow> nat \<Rightarrow> iref \<Rightarrow> uint \<Rightarrow> int \<Rightarrow> ('d, 'a) fsys_scheme \<Rightarrow> (('d, 'a) fsys_scheme \<times> uint) option" where
  "alloc_single block g inode bno bindex s =
     (if bindex = 11
      then do {
        s \<leftarrow> set_slot inode 12 bno s;
        s \<leftarrow> mark_block block g bno 1 s;
        first_entry block g bno (\<lambda>nbno s. Some (s, nbno)) s }
      else do {
        b \<leftarrow> get_slot inode 12 s;
        with_block block b (\<lambda>bb s. do {
          s \<leftarrow> put_entry bb (bindex - 12) bno s;
          s \<leftarrow> mark_block block g bno 1 s;
          Some (s, bno) }) s })"

definition alloc_double ::
    "addr \<Rightarrow> nat \<Rightarrow> iref \<Rightarrow> uint \<Rightarrow> int \<Rightarrow> ('d, 'a) fsys_scheme \<Rightarrow> (('d, 'a) fsys_scheme \<times> uint) option" where
  "alloc_double block g inode bno bindex s =
     (if bindex = 1035
      then do {
        s \<leftarrow> set_slot inode 13 bno s;
        s \<leftarrow> mark_block block g bno 1 s;
        first_entry block g bno (\<lambda>nbno. first_entry block g nbno (\<lambda>nnbno s. Some (s, nnbno))) s }
      else if cmod (bindex - 1035) 1024 = 0
      then do {
        b \<leftarrow> get_slot inode 13 s;
        with_block block b (\<lambda>bb s. do {
          s \<leftarrow> put_entry bb (cdiv (bindex - 1035) 1024) bno s;
          s \<leftarrow> mark_block block g bno 1 s;
          first_entry block g bno (\<lambda>nbno s. Some (s, nbno)) s }) s }
      else do {
        b \<leftarrow> get_slot inode 13 s;
        with_block block b (\<lambda>bb s. do {
          anbo \<leftarrow> get_entry bb (cdiv (bindex - 1035) 1024) s;
          with_block block anbo (\<lambda>bb s. do {
            s \<leftarrow> put_entry bb (cmod (bindex - 1035) 1024) bno s;
            s \<leftarrow> mark_block block g bno 1 s;
            Some (s, bno) }) s }) s })"

definition alloc_triple ::
    "addr \<Rightarrow> nat \<Rightarrow> iref \<Rightarrow> uint \<Rightarrow> int \<Rightarrow> ('d, 'a) fsys_scheme \<Rightarrow> (('d, 'a) fsys_scheme \<times> uint) option" where
  "alloc_triple block g inode bno bindex s =
     (let k = bindex - 1049611 in
      if k = 0
      then do {
        s \<leftarrow> set_slot inode 14 bno s;
        s \<leftarrow> mark_block block g bno 1 s;
        first_entry block g bno (\<lambda>nbno. first_entry block g nbno
          (\<lambda>nnbno. first_entry block g nnbno (\<lambda>nnnbno s. Some (s, nnnbno)))) s }
      else if cmod k 1048576 = 0
      then do {
        b \<leftarrow> get_slot inode 14 s;
        with_block block b (\<lambda>bb s. do {
          s \<leftarrow> put_entry bb (cdiv k 1048576) bno s;
          s \<leftarrow> mark_block block g bno 1 s;
          first_entry block g bno (\<lambda>nbno. first_entry block g nbno (\<lambda>nnbno s. Some (s, nnbno))) s }) s }
      else if cmod (cmod k 1048576) 1024 = 0
      then do {
        b \<leftarrow> get_slot inode 14 s;
        with_block block b (\<lambda>bb s. do {
          anbo \<leftarrow> get_entry bb (cdiv k 1048576) s;
          with_block block anbo (\<lambda>bb s. do {
            s \<leftarrow> put_entry bb (cdiv (cmod k 1048576) 1024) bno s;
            s \<leftarrow> mark_block block g bno 1 s;
            first_entry block g bno (\<lambda>nbno s. Some (s, nbno)) s }) s }) s }
      else do {
        b \<leftarrow> get_slot inode 14 s;
        with_block block b (\<lambda>bb s. do {
          anbo \<leftarrow> get_entry bb (cdiv k 1048576) s;
          with_block block anbo (\<lambda>bb s. do {
            annbo \<leftarrow> get_entry bb (cdiv (cmod k 1048576) 1024) s;
            with_block block annbo (\<lambda>bb s. do {
              s \<leftarrow> put_entry bb (cmod (cmod k 1048576) 1024) bno s;
              s \<leftarrow> mark_block block g bno 1 s;
              Some (s, bno) }) s }) s }) s })"

definition alloc_block :: "nat \<Rightarrow> ('d, 'a) fsys_scheme \<Rightarrow> (('d, 'a) fsys_scheme \<times> uint) option" where
  "alloc_block f s = do {
     block \<leftarrow> file_super f s;
     file \<leftarrow> the_file f s;
     inode \<leftarrow> f_inode file;
     sb \<leftarrow> the_super block s;
     bsize \<leftarrow> blksize sb;
     if group_inode sb = 0 then None
     else do {
       let g = unat (word_of_int (f_ino file) div group_inode sb);
       bno \<leftarrow> find_block block g s;
       let bindex = cdiv (f_pos file) bsize;
       if bindex < 11 then do {
         s \<leftarrow> set_slot inode (bindex + 1) bno s;
         s \<leftarrow> mark_block block g bno 1 s;
         Some (s, bno) }
       else if bindex < 1035 then alloc_single block g inode bno bindex s
       else if bindex < 1049611 then alloc_double block g inode bno bindex s
       else alloc_triple block g inode bno bindex s } }"

section \<open>Files\<close>

definition ext2_open :: "nat \<Rightarrow> uchar list \<Rightarrow> ('d, 'a) fsys_scheme \<Rightarrow> (('d, 'a) fsys_scheme \<times> int) option" where
  "ext2_open f path s = do {
     (s, inode) \<leftarrow> find_inode_by_path f path s;
     case inode of
       None \<Rightarrow> Some (s, - ENOTEXIST)
     | Some i \<Rightarrow> do {
         t \<leftarrow> the_inode i s;
         if is_dir (i_mode t) then Some (s, - ENOTEXIST)
         else do {
           _ \<leftarrow> the_file f s;
           Some (upd_file f (\<lambda>x. x\<lparr>f_inode := Some i, f_pos := 0, f_start_block := 0, f_cur_block := 0\<rparr>) s, 0) } } }"

text \<open>The loop of \<open>ext2_read\<close>; the bytes copied to the caller's buffer so far are \<open>out\<close>.\<close>

partial_function (option) read_loop ::
    "nat \<Rightarrow> addr \<Rightarrow> int \<Rightarrow> int \<Rightarrow> uint \<Rightarrow> int \<Rightarrow> uchar list \<Rightarrow> ('d, 'a) fsys_scheme \<Rightarrow>
       (('d, 'a) fsys_scheme \<times> int \<times> uchar list) option" where
  "read_loop f block sz begn bno r_size out s =
     (if r_size > 0
      then do {
        (s, bb) \<leftarrow> read_block block bno s;
        if bb = 0 then Some (s, 0, out)
        else do {
          sb \<leftarrow> the_super block s;
          let room = uint (block_size sb) - begn;
          if sz \<le> room
          then do {
            bs \<leftarrow> get_bytes begn r_size (bb_data (bbs s bb));
            Some (upd_file f (\<lambda>x. x\<lparr>f_pos := f_pos x + r_size\<rparr>) s, sz, out @ bs) }
          else do {
            bs \<leftarrow> get_bytes begn room (bb_data (bbs s bb));
            let s = upd_file f (\<lambda>x. x\<lparr>f_pos := f_pos x + room, f_cur_block := f_cur_block x + 1\<rparr>) s;
            file \<leftarrow> the_file f s;
            inode \<leftarrow> f_inode file;
            (s, bno) \<leftarrow> iget_bno inode (word_of_int (f_cur_block file)) s;
            read_loop f block sz 0 bno (r_size - room) (out @ bs) s } } }
      else Some (s, sz, out))"

declare read_loop.simps [code]

definition ext2_read :: "nat \<Rightarrow> int \<Rightarrow> ('d, 'a) fsys_scheme \<Rightarrow> (('d, 'a) fsys_scheme \<times> int \<times> uchar list) option" where
  "ext2_read f sz s = do {
     let sz = (if sz > 49152 then 49152 else sz);
     file \<leftarrow> the_file f s;
     inode \<leftarrow> f_inode file;
     t \<leftarrow> the_inode inode s;
     let sz = (if word_of_int (f_pos file + sz) > i_size t then sint (i_size t - word_of_int (f_pos file)) else sz);
     block \<leftarrow> file_super f s;
     sb \<leftarrow> the_super block s;
     bsize \<leftarrow> blksize sb;
     (s, bno) \<leftarrow> iget_bno inode (word_of_int (f_cur_block file)) s;
     read_loop f block sz (cmod (f_pos file) bsize) bno sz [] s }"

text \<open>The loop of \<open>ext2_write\<close> is left after its first round by both branches, so what follows the
  branches is never reached.\<close>

definition ext2_write :: "nat \<Rightarrow> uchar list \<Rightarrow> int \<Rightarrow> ('d, 'a) fsys_scheme \<Rightarrow> (('d, 'a) fsys_scheme \<times> int) option" where
  "ext2_write f data sz s = do {
     block \<leftarrow> file_super f s;
     file \<leftarrow> the_file f s;
     inode \<leftarrow> f_inode file;
     sb \<leftarrow> the_super block s;
     bsize \<leftarrow> blksize sb;
     let begn = cmod (f_pos file) bsize;
     (s, bno) \<leftarrow> iget_bno inode (word_of_int (cdiv (f_pos file) bsize)) s;
     (s, bb) \<leftarrow> (if sz > 0 then read_block block bno s else Some (s, 0));
     if sz > 0 \<and> bb = 0 then Some (s, 0)
     else do {
       s \<leftarrow> (if sz > 0
         then do {
           let n = (if sz \<le> bsize - begn then sz else bsize - begn);
           bs \<leftarrow> get_bytes 0 n data;
           d \<leftarrow> put_bytes begn bs (bb_data (bbs s bb));
           let s = upd_bb bb (\<lambda>b. b\<lparr>bb_data := d\<rparr>) s;
           let s = upd_file f (\<lambda>x. x\<lparr>f_pos := f_pos x + n\<rparr>) s;
           Some (s\<lparr>blinks := list_insert_tail DirtyHead (DNode bb) (blinks s)\<rparr>) }
         else Some s);
       _ \<leftarrow> the_inode inode s;
       Some (upd_inode inode (\<lambda>t. t\<lparr>i_size := i_size t + word_of_int sz, i_atime := timestamp s\<rparr>) s, sz) } }"

definition ext2_seek :: "nat \<Rightarrow> uint \<Rightarrow> ('d, 'a) fsys_scheme \<Rightarrow> (('d, 'a) fsys_scheme \<times> int) option" where
  "ext2_seek f offset s = do {
     _ \<leftarrow> the_file f s;
     if offset \<ge> 0
     then do {
       let s = upd_file f (\<lambda>x. x\<lparr>f_pos := sint offset\<rparr>) s;
       block \<leftarrow> file_super f s;
       sb \<leftarrow> the_super block s;
       bsize \<leftarrow> blksize sb;
       Some (upd_file f (\<lambda>x. x\<lparr>f_cur_block := cdiv (f_pos x) bsize\<rparr>) s, 0) }
     else Some (s, 0) }"

section \<open>Writing back\<close>

text \<open>The loop over the dirty blocks: after a removal the loop steps on from the successor.\<close>

fun dnode_bb :: "bnode \<Rightarrow> addr option" where
  "dnode_bb (DNode a) = Some a"
| "dnode_bb _ = None"

partial_function (option) sync_dirty ::
    "int \<Rightarrow> super_block_t \<Rightarrow> bnode \<Rightarrow> ('d, 'a) fsys_scheme \<Rightarrow> (('d, 'a) fsys_scheme \<times> bool) option" where
  "sync_dirty dev sb bn s =
     (if bn = DirtyHead then Some (s, True)
      else do {
        bb \<leftarrow> dnode_bb bn;
        (s, count) \<leftarrow> dev_write dev (block_sec sb (block_no (bbs s bb))) (bb_data (bbs s bb)) 8 s;
        if count \<le> 0 then Some (s, False)
        else do {
          let temp = nxt (blinks s) bn;
          let s = s\<lparr>blinks := list_remove bn (blinks s)\<rparr>;
          sync_dirty dev sb (nxt (blinks s) temp) s } })"

partial_function (option) write_bits ::
    "int \<Rightarrow> int \<Rightarrow> int \<Rightarrow> int \<Rightarrow> uchar list \<Rightarrow> ('d, 'a) fsys_scheme \<Rightarrow> (('d, 'a) fsys_scheme \<times> bool) option" where
  "write_bits dev sec sec_count offset bits s = do {
     (s, count) \<leftarrow> dev_write dev sec (drop (nat (offset * 512)) bits) (if sec_count > 8 then 8 else sec_count) s;
     if count < 0 then Some (s, False)
     else if sec_count - 8 > 0 then write_bits dev sec (sec_count - 8) (offset + 1) bits s
     else Some (s, True) }"

declare sync_dirty.simps [code] write_bits.simps [code]

fun sync_groups :: "int \<Rightarrow> addr \<Rightarrow> nat list \<Rightarrow> ('d, 'a) fsys_scheme \<Rightarrow> (('d, 'a) fsys_scheme \<times> bool) option" where
  "sync_groups dev block [] s = Some (s, True)"
| "sync_groups dev block (g # gs) s = do {
     sb \<leftarrow> the_super block s;
     gd \<leftarrow> the_group block g s;
     (s, ok) \<leftarrow> write_bits dev (block_sec sb (g_block_bitmap gd)) (cdiv (uint (block_bitmap_size gd)) 512) 0 (block_bits gd) s;
     if \<not> ok then Some (s, False)
     else do {
       (s, ok) \<leftarrow> write_bits dev (block_sec sb (g_inode_bitmap gd)) (cdiv (uint (inode_bitmap_size gd)) 512) 0 (inode_bits gd) s;
       if \<not> ok then Some (s, False)
       else do {
         (s, _) \<leftarrow> write_inode block g s;
         sync_groups dev block gs s } } }"

fun put_counts :: "int \<Rightarrow> int \<Rightarrow> group_desc_t list \<Rightarrow> uchar list \<Rightarrow> uchar list option" where
  "put_counts pos i [] raw = Some raw"
| "put_counts pos i (gd # gds) raw = do {
     raw \<leftarrow> put16 (i * 32 + pos * 512 + 12) (g_free_block gd) raw;
     raw \<leftarrow> put16 (i * 32 + pos * 512 + 14) (g_free_inode gd) raw;
     put_counts pos (i + 1) gds raw }"

definition ext2_sync :: "addr \<Rightarrow> ('d, 'a) fsys_scheme \<Rightarrow> (('d, 'a) fsys_scheme \<times> int) option" where
  "ext2_sync block s = do {
     sb \<leftarrow> the_super block s;
     dev \<leftarrow> dev_of sb s;
     (s, ok) \<leftarrow> sync_dirty dev sb (nxt (blinks s) DirtyHead) s;
     if \<not> ok then Some (s, - 1)
     else do {
       (s, ok) \<leftarrow> sync_groups dev block [0 ..< nat (uint (group_count sb))] s;
       if \<not> ok then Some (s, - EIO)
       else do {
         sb \<leftarrow> the_super block s;
         raw \<leftarrow> put32 8 (used_block sb) (raw_super s);
         raw \<leftarrow> put32 12 (free_block sb) raw;
         raw \<leftarrow> put_counts (desc_pos sb) 0 (take (nat (uint (group_count sb))) (group_table sb)) raw;
         (s, count) \<leftarrow> dev_write dev 2 raw 7 (s\<lparr>raw_super := raw\<rparr>);
         if count < 0 then Some (s, - EIO) else Some (s, 0) } } }"

text \<open>\<open>mode & O_RDONLY == O_RDONLY\<close> is \<open>mode & (0 == 0)\<close>.\<close>

definition ext2_close :: "nat \<Rightarrow> ('d, 'a) fsys_scheme \<Rightarrow> (('d, 'a) fsys_scheme \<times> int) option" where
  "ext2_close f s = do {
     file \<leftarrow> the_file f s;
     if f_mode file AND (if O_RDONLY = O_RDONLY then 1 else 0) \<noteq> 0 then Some (s, 0)
     else do {
       block \<leftarrow> file_super f s;
       (s, _) \<leftarrow> ext2_sync block s;
       Some (s, 0) } }"

section \<open>Removing a name\<close>

text \<open>A matching entry sets the entry pointer to null, which is then followed: no result.\<close>

partial_function (option) unlink_scan :: "int \<Rightarrow> int \<Rightarrow> uchar list \<Rightarrow> uchar list \<Rightarrow> unit option" where
  "unlink_scan off limit d name =
     (if off < limit
      then do {
        ino \<leftarrow> get32 off d;
        hit \<leftarrow> (if ino \<noteq> 0 then mem_same (off + 8) name d else Some False);
        if hit then None
        else do { rec_len \<leftarrow> get16 (off + 4) d; unlink_scan (off + uint rec_len) limit d name } }
      else Some ())"

partial_function (option) ulink_loop ::
    "iref \<Rightarrow> uchar list \<Rightarrow> int \<Rightarrow> ('d, 'a) fsys_scheme \<Rightarrow> ('d, 'a) fsys_scheme option" where
  "ulink_loop inode name pos s = do {
     t \<leftarrow> the_inode inode s;
     if \<not> word_of_int pos < i_size t then Some s
     else do {
       sb \<leftarrow> the_super (i_sb t) s;
       bsize \<leftarrow> blksize sb;
       p \<leftarrow> i_parent t;
       pt \<leftarrow> the_inode p s;
       bno \<leftarrow> fetch (cdiv pos bsize) (i_block pt);
       (s, bb) \<leftarrow> read_block (i_sb t) bno s;
       if bb = 0 then Some s
       else do {
         _ \<leftarrow> unlink_scan 0 (uint (i_size t)) (bb_data (bbs s bb)) name;
         ulink_loop inode name (pos + bsize) s } } }"

definition ulink_inode :: "nat \<Rightarrow> uchar list \<Rightarrow> ('d, 'a) fsys_scheme \<Rightarrow> ('d, 'a) fsys_scheme option" where
  "ulink_inode f name s = do {
     file \<leftarrow> the_file f s;
     inode \<leftarrow> f_inode file;
     ulink_loop inode name 0 s }"

text \<open>The loop bound is the length of what is left of the path, which the loop shortens.\<close>

fun name_index_loop :: "uchar list \<Rightarrow> nat \<Rightarrow> nat \<Rightarrow> nat" where
  "name_index_loop [] i beg = beg"
| "name_index_loop (c # cs) i beg =
     (if i < length (c # cs) then name_index_loop cs (i + 1) (if c = SLASH then i + 1 else beg) else beg)"

definition get_name_index :: "uchar list \<Rightarrow> nat" where
  "get_name_index path = name_index_loop path 0 0"

text \<open>A buffer is dropped from the cache and its block marked, which is meant to clear its bit.\<close>

definition drop_block :: "addr \<Rightarrow> nat \<Rightarrow> addr \<Rightarrow> ('d, 'a) fsys_scheme \<Rightarrow> ('d, 'a) fsys_scheme option" where
  "drop_block block g bb s = do {
     b \<leftarrow> the_bb bb s;
     let s = upd_bb bb (\<lambda>b. b\<lparr>b_state := 0\<rparr>) s;
     mark_block block g (block_no b) 0 s }"

definition drop_cached :: "addr \<Rightarrow> nat \<Rightarrow> addr \<Rightarrow> ('d, 'a) fsys_scheme \<Rightarrow> ('d, 'a) fsys_scheme option" where
  "drop_cached block g bb s = do {
     b \<leftarrow> the_bb bb s;
     if b_state b \<noteq> 0 then drop_block block g bb s else Some s }"

text \<open>A table block is loaded at the first of its entries, else the last one loaded is used; the
  result 0 ends the function.\<close>

definition table_block ::
    "bool \<Rightarrow> addr \<Rightarrow> uint option \<Rightarrow> addr \<Rightarrow> ('d, 'a) fsys_scheme \<Rightarrow> (('d, 'a) fsys_scheme \<times> addr \<times> bool) option" where
  "table_block first block bno bb s =
     (if first
      then do {
        b \<leftarrow> bno;
        (s, bb) \<leftarrow> read_block block b s;
        Some (s, bb, bb \<noteq> 0) }
      else Some (s, bb, True))"

text \<open>One round of the loop that releases the blocks: the buffers of the tables of the first, second
  and third level are carried from round to round.\<close>

definition unlink_block_no ::
    "iref \<Rightarrow> nat \<Rightarrow> int \<Rightarrow> addr \<times> addr \<times> addr \<Rightarrow> ('d, 'a) fsys_scheme \<Rightarrow>
       (('d, 'a) fsys_scheme \<times> (addr \<times> addr \<times> addr) option) option" where
  "unlink_block_no inode g i bufs s = do {
     t \<leftarrow> the_inode inode s;
     let block = i_sb t;
     let final = (i = uint (i_blocks t) - 1);
     let (bb, nbb, nnbb) = bufs;
     if i < 12
     then do {
       b \<leftarrow> fetch i (i_block t);
       (s, bb) \<leftarrow> bget_block block (sint b) s;
       s \<leftarrow> drop_cached block g bb s;
       Some (s, Some (bb, nbb, nnbb)) }
     else if i < 1036
     then do {
       (s, bb, ok) \<leftarrow> table_block (i = 12) block (fetch 12 (i_block t)) bb s;
       if \<not> ok then Some (s, None)
       else do {
         _ \<leftarrow> the_bb bb s;
         w \<leftarrow> get_entry bb (i - 12) s;
         (s, x) \<leftarrow> bget_block block (sint w) s;
         s \<leftarrow> drop_cached block g x s;
         s \<leftarrow> (if i = 1035 \<or> final then drop_block block g bb s else Some s);
         Some (s, Some (bb, nbb, nnbb)) } }
     else if i < 1049612
     then do {
       (s, bb, ok) \<leftarrow> table_block (i = 1036) block (fetch 13 (i_block t)) bb s;
       if \<not> ok then Some (s, None)
       else do {
         (s, nbb, ok) \<leftarrow> table_block (cmod (i - 1036) 1024 = 0) block (get_entry bb (cdiv (i - 1036) 1024) s) nbb s;
         if \<not> ok then Some (s, None)
         else do {
           _ \<leftarrow> the_bb nbb s;
           w \<leftarrow> get_entry nbb (cmod (i - 1036) 1024) s;
           (s, nnbb) \<leftarrow> bget_block block (sint w) s;
           s \<leftarrow> drop_cached block g nnbb s;
           s \<leftarrow> (if cmod (i - 1036) 1024 = 1023 \<or> final then drop_cached block g nbb s else Some s);
           s \<leftarrow> (if i = 1049611 \<or> final then drop_block block g bb s else Some s);
           Some (s, Some (bb, nbb, nnbb)) } } }
     else do {
       let k = i - 1049612;
       (s, bb, ok) \<leftarrow> table_block (k = 0) block (fetch 14 (i_block t)) bb s;
       if \<not> ok then Some (s, None)
       else do {
         (s, nbb, ok) \<leftarrow> table_block (cmod k 1048576 = 0) block (get_entry bb (cdiv k 1048576) s) nbb s;
         if \<not> ok then Some (s, None)
         else do {
           (s, nnbb, ok) \<leftarrow> table_block (cmod (cmod k 1048576) 1024 = 0) block
             (get_entry nbb (cdiv (cmod k 1048576) 1024) s) nnbb s;
           if \<not> ok then Some (s, None)
           else do {
             _ \<leftarrow> the_bb nbb s;
             w \<leftarrow> get_entry nbb (cmod (cmod k 1048576) 1024) s;
             (s, x) \<leftarrow> bget_block block (sint w) s;
             s \<leftarrow> drop_cached block g x s;
             s \<leftarrow> (if cmod (cmod k 1048576) 1024 = 1023 \<or> final then drop_cached block g nnbb s else Some s);
             s \<leftarrow> (if cmod k 1048576 = 1048575 \<or> final then drop_cached block g nbb s else Some s);
             s \<leftarrow> (if final then drop_block block g bb s else Some s);
             Some (s, Some (bb, nbb, nnbb)) } } } } }"

partial_function (option) unlink_blocks ::
    "iref \<Rightarrow> nat \<Rightarrow> int \<Rightarrow> addr \<times> addr \<times> addr \<Rightarrow> ('d, 'a) fsys_scheme \<Rightarrow> (('d, 'a) fsys_scheme \<times> bool) option" where
  "unlink_blocks inode g i bufs s = do {
     t \<leftarrow> the_inode inode s;
     if i < uint (i_blocks t)
     then do {
       (s, r) \<leftarrow> unlink_block_no inode g i bufs s;
       case r of
         None \<Rightarrow> Some (s, False)
       | Some bufs \<Rightarrow> unlink_blocks inode g (i + 1) bufs s }
     else Some (s, True) }"

declare unlink_scan.simps [code] ulink_loop.simps [code] unlink_blocks.simps [code]

definition ext2_unlink :: "nat \<Rightarrow> uchar list \<Rightarrow> ('d, 'a) fsys_scheme \<Rightarrow> (('d, 'a) fsys_scheme \<times> int) option" where
  "ext2_unlink f path s = do {
     (s, inode) \<leftarrow> find_inode_by_path f path s;
     case inode of
       None \<Rightarrow> Some (s, - ENOTEXIST)
     | Some i \<Rightarrow> do {
         t \<leftarrow> the_inode i s;
         sb \<leftarrow> the_super (i_sb t) s;
         file \<leftarrow> the_file f s;
         if group_inode sb = 0 then None
         else do {
           let g = unat (word_of_int (f_ino file) div group_inode sb);
           (s, ok) \<leftarrow> unlink_blocks i g 0 (0, 0, 0) s;
           if \<not> ok then Some (s, - EIO)
           else do {
             s \<leftarrow> ulink_inode f (drop (get_name_index path) path) s;
             Some (s, 0) } } } }"

end
