(* ===== verification/Fs.thy ===== *)
theory Fs
  imports Ext2
begin

text \<open>
  The file system interface of \<open>source/fs/fs.c\<close>: the mount table and the file calls of a
  process.  The calls go through the operations of the mounted file system; \<open>ext2\<close> is the only
  one.
\<close>

section \<open>Mounting\<close>

definition op_from_fs :: "int \<Rightarrow> fs_op option" where
  "op_from_fs type = (if type = FS_EXT2 then Some Ext2Op else None)"

text \<open>The scan of the mount table: \<open>None\<close> if the mount point is taken, else the first free entry.\<close>

fun mount_scan :: "uchar list \<Rightarrow> int \<Rightarrow> int \<Rightarrow> fs_t list \<Rightarrow> int option" where
  "mount_scan mp i free [] = Some free"
| "mount_scan mp i free (fs # fss) =
     (if same_start (mount_point fs) mp then None
      else mount_scan mp (i + 1) (if fs_type fs = 0 \<and> free = - 1 then i else free) fss)"

definition mount :: "int \<Rightarrow> uchar list \<Rightarrow> int \<Rightarrow> int \<Rightarrow> ('d, 'a) fsys_scheme \<Rightarrow> (('d, 'a) fsys_scheme \<times> nat option) option" where
  "mount type mp major minor s =
     (case mount_scan mp 0 (- 1) (take MAX_MOUNT (fs_table s)) of
        None \<Rightarrow> Some (s, None)
      | Some free \<Rightarrow>
          if free = - 1 then Some (s, None)
          else do {
            let fs = nat free;
            let s = upd_fs fs (\<lambda>f. f\<lparr>mount_point := mp, fs_type := type, fs_ops := op_from_fs type\<rparr>) s;
            Ext2Op \<leftarrow> op_from_fs type;
            (s, r) \<leftarrow> ext2_mount fs major minor s;
            if r < 0 then Some (s, None) else Some (s, Some fs) })"

text \<open>When the root file system cannot be mounted the machine stops.\<close>

definition fs_init :: "addr \<Rightarrow> ('d, 'a) fsys_scheme \<Rightarrow> ('d, 'a) fsys_scheme option" where
  "fs_init data s = do {
     s \<leftarrow> disk_init data s;
     let s = file_table_init s;
     let s = bb_init s;
     (s, fs) \<leftarrow> mount FS_EXT2 [SLASH] 1 1 s;
     if fs = None then None else Some (s\<lparr>fs_root := fs\<rparr>) }"

section \<open>Locks and lookups\<close>

definition lock_fs :: "fs_t \<Rightarrow> ('d, 'a) fsys_scheme \<Rightarrow> ('d, 'a) fsys_scheme option" where
  "lock_fs fs s = (if fs_mutex fs = 0 then None else at_once (mutex_lock (unat (fs_mutex fs))) s)"

definition unlock_fs :: "fs_t \<Rightarrow> ('d, 'a) fsys_scheme \<Rightarrow> ('d, 'a) fsys_scheme option" where
  "unlock_fs fs s = (if fs_mutex fs = 0 then None else at_once (mutex_unlock (unat (fs_mutex fs))) s)"

text \<open>The first entry whose mount point starts the name, or the root.\<close>

fun find_mount :: "uchar list \<Rightarrow> nat \<Rightarrow> fs_t list \<Rightarrow> nat option" where
  "find_mount name i [] = None"
| "find_mount name i (fs # fss) = (if same_start name (mount_point fs) then Some i else find_mount name (i + 1) fss)"

definition fs_for :: "uchar list \<Rightarrow> ('d, 'a) fsys_scheme \<Rightarrow> nat option" where
  "fs_for name s =
     (case find_mount name 0 (take MAX_MOUNT (fs_table s)) of Some i \<Rightarrow> Some i | None \<Rightarrow> fs_root s)"

text \<open>The open file behind a descriptor: the range test is against the size of another table, so the
  access to the process's table may be out of range.  The inner \<open>None\<close> is the null pointer.\<close>

definition fd_file :: "int \<Rightarrow> ('d, 'a) fsys_scheme \<Rightarrow> nat option option" where
  "fd_file fd s = do {
     cur \<leftarrow> current s;
     fetch fd (open_file_table (tasks s cur)) }"

definition file_fs :: "nat \<Rightarrow> ('d, 'a) fsys_scheme \<Rightarrow> fs_t option" where
  "file_fs f s = do {
     file \<leftarrow> the_file f s;
     i \<leftarrow> f_fs file;
     fetch (int i) (fs_table s) }"

section \<open>The calls\<close>

definition sys_open :: "uchar list \<Rightarrow> int \<Rightarrow> ('d, 'a) fsys_scheme \<Rightarrow> (('d, 'a) fsys_scheme \<times> int) option" where
  "sys_open name mode s = do {
     (s, f) \<leftarrow> alloc_file s;
     (fd, s) \<leftarrow> task_alloc_fd f s;
     if fd < 0 then Some (s, - ETMFILES)
     else do {
       i \<leftarrow> fs_for name s;
       fs \<leftarrow> fetch (int i) (fs_table s);
       let s = upd_file f (\<lambda>x. x\<lparr>f_mode := mode, f_fs := Some i\<rparr>) s;
       s \<leftarrow> lock_fs fs s;
       Ext2Op \<leftarrow> fs_ops fs;
       (s, err) \<leftarrow> ext2_open f name s;
       if err < 0
       then do {
         s \<leftarrow> unlock_fs fs s;
         s \<leftarrow> task_free_fd fd s;
         s \<leftarrow> free_file f s;
         Some (s, err) }
       else do {
         s \<leftarrow> unlock_fs fs s;
         if mode AND O_APPEND = O_APPEND
         then do {
           file \<leftarrow> the_file f s;
           inode \<leftarrow> f_inode file;
           t \<leftarrow> the_inode inode s;
           Some (upd_file f (\<lambda>x. x\<lparr>f_pos := sint (i_size t)\<rparr>) s, fd) }
         else Some (s, fd) } } }"

definition sys_read :: "int \<Rightarrow> int \<Rightarrow> ('d, 'a) fsys_scheme \<Rightarrow> (('d, 'a) fsys_scheme \<times> int \<times> uchar list) option" where
  "sys_read fd len s =
     (if fd < 0 \<or> fd \<ge> MAX_OPEN_FILES then Some (s, - 1, [])
      else do {
        file \<leftarrow> fd_file fd s;
        case file of
          None \<Rightarrow> Some (s, - 1, [])
        | Some f \<Rightarrow> do {
            fs \<leftarrow> file_fs f s;
            s \<leftarrow> lock_fs fs s;
            Ext2Op \<leftarrow> fs_ops fs;
            (s, err, out) \<leftarrow> ext2_read f len s;
            s \<leftarrow> unlock_fs fs s;
            Some (s, err, out) } })"

definition sys_write :: "int \<Rightarrow> uchar list \<Rightarrow> int \<Rightarrow> ('d, 'a) fsys_scheme \<Rightarrow> (('d, 'a) fsys_scheme \<times> int) option" where
  "sys_write fd data len s =
     (if fd < 0 \<or> fd \<ge> MAX_OPEN_FILES then Some (s, - 1)
      else do {
        file \<leftarrow> fd_file fd s;
        case file of
          None \<Rightarrow> Some (s, - 1)
        | Some f \<Rightarrow> do {
            fs \<leftarrow> file_fs f s;
            s \<leftarrow> lock_fs fs s;
            Ext2Op \<leftarrow> fs_ops fs;
            (s, err) \<leftarrow> ext2_write f data len s;
            s \<leftarrow> unlock_fs fs s;
            Some (s, err) } })"

definition sys_seek :: "int \<Rightarrow> int \<Rightarrow> ('d, 'a) fsys_scheme \<Rightarrow> (('d, 'a) fsys_scheme \<times> int) option" where
  "sys_seek fd offset s =
     (if fd < 0 \<or> fd \<ge> MAX_OPEN_FILES then Some (s, - 1)
      else do {
        file \<leftarrow> fd_file fd s;
        case file of
          None \<Rightarrow> Some (s, - 1)
        | Some f \<Rightarrow> do {
            fs \<leftarrow> file_fs f s;
            s \<leftarrow> lock_fs fs s;
            Ext2Op \<leftarrow> fs_ops fs;
            (s, _) \<leftarrow> ext2_seek f (word_of_int offset) s;
            s \<leftarrow> unlock_fs fs s;
            Some (s, 0) } })"

text \<open>All entries of the mount table are synchronised, the empty ones included.\<close>

fun sync_all :: "fs_t list \<Rightarrow> ('d, 'a) fsys_scheme \<Rightarrow> ('d, 'a) fsys_scheme option" where
  "sync_all [] s = Some s"
| "sync_all (fs # fss) s = do {
     s \<leftarrow> lock_fs fs s;
     Ext2Op \<leftarrow> fs_ops fs;
     (s, _) \<leftarrow> ext2_sync (fs_data fs) s;
     s \<leftarrow> unlock_fs fs s;
     sync_all fss s }"

definition sys_sync :: "('d, 'a) fsys_scheme \<Rightarrow> (('d, 'a) fsys_scheme \<times> int) option" where
  "sys_sync s = do { s \<leftarrow> sync_all (take MAX_MOUNT (fs_table s)) s; Some (s, 0) }"

definition sys_close :: "int \<Rightarrow> ('d, 'a) fsys_scheme \<Rightarrow> (('d, 'a) fsys_scheme \<times> int) option" where
  "sys_close fd s =
     (if fd < 0 \<or> fd \<ge> MAX_OPEN_FILES then Some (s, - 1)
      else do {
        file \<leftarrow> fd_file fd s;
        case file of
          None \<Rightarrow> Some (s, - 1)
        | Some f \<Rightarrow> do {
            s \<leftarrow> free_file f s;
            x \<leftarrow> the_file f s;
            s \<leftarrow> (if f_ref x = 0
              then do {
                fs \<leftarrow> file_fs f s;
                s \<leftarrow> lock_fs fs s;
                Ext2Op \<leftarrow> fs_ops fs;
                (s, _) \<leftarrow> ext2_close f s;
                unlock_fs fs s }
              else Some s);
            s \<leftarrow> task_free_fd fd s;
            Some (s, 0) } })"

definition sys_unlink :: "uchar list \<Rightarrow> ('d, 'a) fsys_scheme \<Rightarrow> (('d, 'a) fsys_scheme \<times> int) option" where
  "sys_unlink name s = do {
     (s, f) \<leftarrow> alloc_file s;
     (fd, s) \<leftarrow> task_alloc_fd f s;
     if fd < 0 then Some (s, - ETMFILES)
     else do {
       i \<leftarrow> fs_for name s;
       fs \<leftarrow> fetch (int i) (fs_table s);
       let s = upd_file f (\<lambda>x. x\<lparr>f_fs := Some i\<rparr>) s;
       s \<leftarrow> lock_fs fs s;
       Ext2Op \<leftarrow> fs_ops fs;
       (s, err) \<leftarrow> ext2_unlink f name s;
       s \<leftarrow> unlock_fs fs s;
       s \<leftarrow> free_file f s;
       s \<leftarrow> task_free_fd fd s;
       Some (s, err) } }"

end
