(* ===== verification/Ext2_IO.thy ===== *)
theory Ext2_IO
  imports Fs
begin

text \<open>
  Reading and writing files: \<open>ext2_read\<close>, \<open>ext2_write\<close> and the first phase of \<open>ext2_sync\<close>, composed
  with the buffers, the devices and the disk driver, against the contents of the medium.
  Blocks have 4096 bytes, eight sectors, as in the image the repository builds.
\<close>

section \<open>Blocks of the medium\<close>

definition block_lba :: "part_info_t \<Rightarrow> uint \<Rightarrow> nat" where
  "block_lba info b = unat (p_begin_sec info + 8 * b)"

definition disk_block :: "part_info_t \<Rightarrow> ide \<Rightarrow> uint \<Rightarrow> uchar list" where
  "disk_block info d b = concat (map (medium d) [block_lba info b ..< block_lba info b + 8])"

lemma disk_block_length [simp]: "length (disk_block info d b) = 4096"
  by (simp add: disk_block_def length_concat o_def sum_list_triv)

lemma disk_block_cong: "medium d = medium d' \<Longrightarrow> disk_block info d = disk_block info d'"
  by (rule ext) (simp only: disk_block_def)

lemma block_sec_eq:
  assumes "uint b < 2 ^ 20" "block_size sb = 4096"
  shows "block_sec sb b = 8 * uint b" "word_of_int (block_sec sb b) = 8 * b"
proof -
  have "uint (b * 4096) = uint b * 4096"
    using assms(1) by (simp add: uint_word_ariths mod_pos_pos_trivial)
  then have "uint (b * 4096 div 512) = 8 * uint b" by (simp add: uint_div)
  then show "block_sec sb b = 8 * uint b"
    using assms by (simp add: block_sec_def sint_of_small)
  then show "word_of_int (block_sec sb b) = 8 * b" by simp
qed

section \<open>A mounted file system with room for \<open>k\<close> more buffers\<close>

definition disk_of :: "addr \<Rightarrow> ('d, 'a) fsys_scheme \<Rightarrow> part_info_t option" where
  "disk_of block s = do {
     dev \<leftarrow> dev_of (supers s block) s;
     d \<leftarrow> fetch dev (dev_table s);
     if ty_op (d_type d) = Some DiskOp then part_of d s else None }"

definition fs_ready :: "part_info_t \<Rightarrow> addr \<Rightarrow> int \<Rightarrow> (ide, 'a) fsys_scheme \<Rightarrow> bool" where
  "fs_ready info block k s \<longleftrightarrow> disk_idle s \<and> ata s = ide_ops \<and> idle_mutex BUFFER_MUTEX s
     \<and> bucket_room k s \<and> heap_room (18 + 4162 * k) s
     \<and> block \<noteq> 0 \<and> block_size (supers s block) = 4096 \<and> disk_of block s = Some info
     \<and> p_count info \<noteq> 0 \<and> uint (p_begin_sec info) < 2 ^ 31"

text \<open>What block input and output leave alone.\<close>

definition keeps :: "('d, 'a) fsys_scheme \<Rightarrow> ('d, 'a) fsys_scheme \<Rightarrow> bool" where
  "keeps s s' \<longleftrightarrow> supers s' = supers s \<and> fs_table s' = fs_table s \<and> file_table s' = file_table s
     \<and> dev_table s' = dev_table s \<and> part_info s' = part_info s \<and> timestamp s' = timestamp s
     \<and> mutexes s' = mutexes s \<and> links s' = links s \<and> current s' = current s \<and> sem_count s' = sem_count s
     \<and> ata s' = ata s"

lemma keeps_refl: "keeps s s" by (simp add: keeps_def)

lemma keeps_trans: "keeps s s' \<Longrightarrow> keeps s' s'' \<Longrightarrow> keeps s s''" by (simp add: keeps_def)

lemma disk_of_cong:
  assumes "supers s' = supers s" "fs_table s' = fs_table s" "dev_table s' = dev_table s" "part_info s' = part_info s"
  shows "disk_of block s' = disk_of block s"
proof -
  have "part_of d s' = part_of d s" for d using assms(4) by (simp add: part_of_def Let_def cong: if_cong)
  then show ?thesis using assms(1-3) by (simp add: disk_of_def dev_of_def cong: if_cong)
qed

lemma disk_of_keeps: "keeps s s' \<Longrightarrow> disk_of block s' = disk_of block s"
  by (intro disk_of_cong) (simp_all add: keeps_def)

lemma dev_read_block:
  fixes s :: "(ide, 'a) fsys_scheme"
  assumes "disk_idle s" "ata s = ide_ops" "disk_of block s = Some info" "p_count info \<noteq> 0"
    and "block_size (supers s block) = 4096" "uint b < 2 ^ 20" "dev_of (supers s block) s = Some dev"
  shows "\<exists>d c. dev_read dev (block_sec (supers s block) b) 8 s =
      Some (s\<lparr>wait_interupt := 1, drv := d, dcpu := c\<rparr>, 8, disk_block info (drv s) b) \<and> medium d = medium (drv s)"
proof -
  obtain dv where dv: "fetch dev (dev_table s) = Some dv" "ty_op (d_type dv) = Some DiskOp" "part_of dv s = Some info"
    using assms(3,7) by (auto simp: disk_of_def bind_eq_Some_conv split: if_splits)
  show ?thesis
    using ide.disk_read_sectors [OF assms(1,2) dv(3) assms(4), of 8 "block_sec (supers s block) b"] dv(1,2)
      block_sec_eq(2) [OF assms(6,5)]
    by (simp add: dev_read_def disk_block_def block_lba_def)
qed

lemma block_lba_int:
  "uint b < 2 ^ 20 \<Longrightarrow> uint (p_begin_sec info) < 2 ^ 31 \<Longrightarrow> block_lba info b = nat (uint (p_begin_sec info)) + 8 * nat (uint b)"
proof -
  assume a: "uint b < 2 ^ 20" "uint (p_begin_sec info) < 2 ^ 31"
  have e: "uint (8 * b) = 8 * uint b"
    using a(1) uint_ge_0 [of b] by (simp only: uint_word_ariths) (simp add: mod_pos_pos_trivial)
  have "uint (p_begin_sec info) + uint (8 * b) < 2 ^ 32" using a [simplified] e by simp
  from uint_add_small [OF this] have "uint (p_begin_sec info + 8 * b) = uint (p_begin_sec info) + 8 * uint b"
    by (simp only: e)
  then have "unat (p_begin_sec info + 8 * b) = nat (uint (p_begin_sec info) + 8 * uint b)" by (simp only: unat_eq_nat_uint)
  then show ?thesis by (simp only: block_lba_def) (simp add: nat_add_distrib nat_mult_distrib)
qed

lemma disk_block_written:
  assumes "\<forall>i. medium d i = (if block_lba info b \<le> i \<and> i < block_lba info b + 8
      then take 512 (drop (512 * (i - block_lba info b)) data) else medium d0 i)"
    and "length data = 4096" "uint b < 2 ^ 20" "uint x < 2 ^ 20" "uint (p_begin_sec info) < 2 ^ 31"
  shows "disk_block info d x = (if x = b then data else disk_block info d0 x)"
proof (cases "x = b")
  case True
  have m: "map (medium d) [block_lba info b ..< block_lba info b + 8] =
      map (\<lambda>i. take 512 (drop (512 * (i - block_lba info b)) data)) [block_lba info b ..< block_lba info b + 8]"
    using assms(1) by (intro map_cong) auto
  have "concat (map (medium d) [block_lba info b ..< block_lba info b + 8]) = data"
    unfolding m using assms(2) by (intro concat_sectors) simp
  then show ?thesis using True by (simp add: disk_block_def)
next
  case False
  then have "uint x \<noteq> uint b" by (simp add: word_uint_eq_iff)
  then have "nat (uint x) \<noteq> nat (uint b)" using uint_ge_0 [of x] uint_ge_0 [of b] by linarith
  then have "map (medium d) [block_lba info x ..< block_lba info x + 8] = map (medium d0) [block_lba info x ..< block_lba info x + 8]"
    using assms(1) block_lba_int [OF assms(3,5)] block_lba_int [OF assms(4,5)] by (intro map_cong) auto
  then show ?thesis using False by (simp only: disk_block_def if_False)
qed

lemma dev_write_block:
  fixes s :: "(ide, 'a) fsys_scheme"
  assumes "disk_idle s" "ata s = ide_ops" "disk_of block s = Some info" "p_count info \<noteq> 0" "uint (p_begin_sec info) < 2 ^ 31"
    and "block_size (supers s block) = 4096" "uint b < 2 ^ 20" "dev_of (supers s block) s = Some dev"
    and "length data = 4096"
  shows "\<exists>d c. dev_write dev (block_sec (supers s block) b) data 8 s =
      Some (s\<lparr>wait_interupt := 1, drv := d, dcpu := c\<rparr>, 8)
    \<and> (\<forall>x. uint x < 2 ^ 20 \<longrightarrow> disk_block info d x = (if x = b then data else disk_block info (drv s) x))"
proof -
  obtain dv where dv: "fetch dev (dev_table s) = Some dv" "ty_op (d_type dv) = Some DiskOp" "part_of dv s = Some info"
    using assms(3,8) by (auto simp: disk_of_def bind_eq_Some_conv split: if_splits)
  obtain d c where w: "disk_write dv (block_sec (supers s block) b) data 8 s = Some (s\<lparr>wait_interupt := 1, drv := d, dcpu := c\<rparr>, 8)"
    "\<forall>i. medium d i = (if block_lba info b \<le> i \<and> i < block_lba info b + 8
      then take 512 (drop (512 * (i - block_lba info b)) data) else medium (drv s) i)"
    using ide.disk_write_sectors [OF assms(1,2) dv(3) assms(4), of 8 data "block_sec (supers s block) b"]
      block_sec_eq(2) [OF assms(7,6)] assms(9) by (auto simp: block_lba_def)
  then show ?thesis using disk_block_written [OF w(2) assms(9,7) _ assms(5)] dv(1,2) by (auto simp: dev_write_def)
qed

section \<open>Loading a block\<close>

lemma fs_ready_mono:
  assumes "fs_ready info block k s" "0 \<le> j" "j \<le> k"
  shows "fs_ready info block j s"
proof -
  obtain b bs where "free_blocks (pmem s) (free_list s) (b # bs)" "18 + 4162 * k \<le> uint (b_size (pmem s) b)"
    "uint (b_size (pmem s) b) \<le> 2 ^ 32 - 34"
    using assms(1) by (auto simp: fs_ready_def heap_room_def)
  then have "heap_room (18 + 4162 * j) s" unfolding heap_room_def using assms(2,3) by (intro exI conjI) auto
  moreover have "bucket_room j s" using assms by (force simp: fs_ready_def bucket_room_def)
  ultimately show ?thesis using assms(1) by (simp add: fs_ready_def)
qed

lemma fs_ready_keeps:
  assumes "fs_ready info block k s" "keeps s s'" "bucket_room j s'" "heap_room (18 + 4162 * j) s'"
  shows "fs_ready info block j s'"
  using assms disk_of_keeps [OF assms(2), of block]
  by (simp add: fs_ready_def keeps_def disk_idle_def idle_mutex_def quiet_def)

lemma read_block_loads:
  fixes s :: "(ide, 'a) fsys_scheme"
  assumes ready: "fs_ready info block (k + 1) s" and k: "0 \<le> k" and b: "uint b < 2 ^ 20"
  shows "\<exists>s' bb. read_block block b s = Some (s', bb) \<and> bb \<noteq> 0
    \<and> bbs s' = (bbs s)(bb := \<lparr>block_no = b, bb_data = disk_block info (drv s) b, b_state = 1, exp_time = timestamp s\<rparr>)
    \<and> blinks s' = list_insert_head (Bucket (nat (hash_bh (sint b)))) (BNode bb) (blinks s)
    \<and> medium (drv s') = medium (drv s) \<and> keeps s s' \<and> fs_ready info block k s'"
proof -
  note r = ready [unfolded fs_ready_def]
  have bn: "sint b = uint b" "0 \<le> sint b" using b by (simp_all add: sint_of_small)
  have room: "heap_room ((18 + 4162 * k) + 4162) s" using r by (simp add: algebra_simps)
  define bl where "bl = (\<lambda>bb. list_insert_head (Bucket (nat (hash_bh (sint b)))) (BNode bb) (blinks s))"
  obtain m fl bb data szs where g: "bget_block block (sint b) s = Some (s\<lparr>pmem := m, free_list := fl, bbs := (bbs s)(bb :=
      \<lparr>block_no = word_of_int (sint b), bb_data = data, b_state = 0, exp_time = timestamp s\<rparr>), blinks := bl bb, bh_size := szs\<rparr>, bb)"
    "bb \<noteq> 0" "length data = 4096" "\<forall>s'. pmem s' = m \<longrightarrow> free_list s' = fl \<longrightarrow> heap_room (18 + 4162 * k) (s' :: (ide, 'a) fsys_scheme)"
    "\<forall>s'. bh_size s' = szs \<longrightarrow> bucket_room k (s' :: (ide, 'a) fsys_scheme)"
    using bget_block_new [OF _ _ k bn(2) room, of block] r k unfolding bl_def by (elim conjE) (simp, blast)
  define s1 where "s1 = s\<lparr>pmem := m, free_list := fl, bbs := (bbs s)(bb :=
      \<lparr>block_no = word_of_int (sint b), bb_data = data, b_state = 0, exp_time = timestamp s\<rparr>), blinks := bl bb, bh_size := szs\<rparr>"
  have kp: "keeps s s1" by (simp add: keeps_def s1_def)
  have r1: "fs_ready info block k s1" using g(4,5) by (intro fs_ready_keeps [OF ready kp]) (simp_all add: s1_def)
  obtain dev where dev: "dev_of (supers s block) s1 = Some dev" "supers s1 block = supers s block"
    using r1 by (auto simp: fs_ready_def disk_of_def bind_eq_Some_conv s1_def)
  obtain d c where rd: "dev_read dev (block_sec (supers s block) b) 8 s1 =
      Some (s1\<lparr>wait_interupt := 1, drv := d, dcpu := c\<rparr>, 8, disk_block info (drv s) b)" "medium d = medium (drv s)"
    using dev_read_block [of s1 block info b dev] r1 b dev by (auto simp: fs_ready_def s1_def)
  have p: "put_bytes 0 (disk_block info (drv s) b) data = Some (disk_block info (drv s) b)"
    using g(3) by (simp add: put_bytes_def)
  let ?s2 = "upd_bb bb (\<lambda>x. x\<lparr>b_state := 1\<rparr>) (upd_bb bb (\<lambda>x. x\<lparr>bb_data := disk_block info (drv s) b\<rparr>)
      (s1\<lparr>wait_interupt := 1, drv := d, dcpu := c\<rparr>))"
  have st: "bbs s1 bb = \<lparr>block_no = word_of_int (sint b), bb_data = data, b_state = 0, exp_time = timestamp s\<rparr>"
    by (simp add: s1_def)
  have "read_block block b s = Some (?s2, bb)"
    using g(1,2) [folded s1_def] st r dev rd(1) p
    by (simp add: read_block_def the_bb_def the_super_def)
  moreover have "keeps s ?s2" using kp by (simp add: keeps_def upd_bb_def)
  moreover have "fs_ready info block k ?s2"
    using g(4,5) by (intro fs_ready_keeps [OF ready \<open>keeps s ?s2\<close>]) (simp_all add: s1_def upd_bb_def)
  moreover have "bbs ?s2 = (bbs s)(bb := \<lparr>block_no = b, bb_data = disk_block info (drv s) b, b_state = 1, exp_time = timestamp s\<rparr>)"
    by (simp add: upd_bb_def st) (simp add: s1_def)
  moreover have "blinks ?s2 = bl bb" by (simp add: upd_bb_def) (simp add: s1_def)
  ultimately show ?thesis
    using g(2) rd(2) unfolding bl_def by (intro exI [of _ ?s2] exI [of _ bb]) (simp add: upd_bb_def)
qed

section \<open>Reading a file\<close>

text \<open>The contents of a file as the medium has them, by the direct blocks of its inode.\<close>

definition file_data :: "part_info_t \<Rightarrow> ide \<Rightarrow> inode_t \<Rightarrow> uchar list" where
  "file_data info d t = concat (map (disk_block info d) (take 12 (i_block t)))"

text \<open>An open file of an inode with 15 block numbers on the file system at \<open>block\<close>.\<close>

definition file_ready :: "addr \<Rightarrow> nat \<Rightarrow> iref \<Rightarrow> inode_t \<Rightarrow> ('d, 'a) fsys_scheme \<Rightarrow> bool" where
  "file_ready block f i t s \<longleftrightarrow> f < length (file_table s) \<and> f_inode (file_table s ! f) = Some i
     \<and> the_inode i s = Some t \<and> file_super f s = Some block
     \<and> length (i_block t) = 15 \<and> (\<forall>b \<in> set (i_block t). uint b < 2 ^ 20)"

lemma concat_nth_chunk:
  assumes "\<forall>x \<in> set xss. length x = k" "j < length xss"
  shows "take k (drop (k * j) (concat xss)) = xss ! j"
  using assms
proof (induction xss arbitrary: j)
  case (Cons xs xss)
  then show ?case by (cases j) simp_all
qed simp

lemma concat_drop_chunks:
  assumes "\<forall>x \<in> set xss. length x = k" "j \<le> length xss"
  shows "drop (k * j) (concat xss) = concat (drop j xss)"
  using assms
proof (induction xss arbitrary: j)
  case (Cons xs xss)
  then show ?case by (cases j) simp_all
qed simp

lemma file_data_from:
  assumes "length (i_block t) = 15" "j < 12"
  shows "drop (4096 * j) (file_data info d t) =
    disk_block info d (i_block t ! j) @ concat (map (disk_block info d) (drop (Suc j) (take 12 (i_block t))))"
proof -
  have "drop (4096 * j) (file_data info d t) = concat (drop j (map (disk_block info d) (take 12 (i_block t))))"
    unfolding file_data_def using assms by (intro concat_drop_chunks) auto
  also have "drop j (map (disk_block info d) (take 12 (i_block t))) =
      map (disk_block info d) (take 12 (i_block t)) ! j # drop (Suc j) (map (disk_block info d) (take 12 (i_block t)))"
    using assms by (intro Cons_nth_drop_Suc [symmetric]) simp
  finally show ?thesis using assms by (simp add: drop_map)
qed

lemma iget_bno_direct:
  assumes "the_inode i s = Some t" "length (i_block t) = 15" "0 \<le> n" "n < 12"
  shows "iget_bno i (word_of_int n) s = Some (s, i_block t ! nat n)"
proof -
  have "uint (word_of_int n :: uint) = n" using assms by (intro uint_of_small) simp_all
  then show ?thesis using assms by (simp add: iget_bno_def fetch_def word_less_def)
qed

lemma fs_ready_cong:
  assumes "supers s' = supers s" "fs_table s' = fs_table s" "dev_table s' = dev_table s" "part_info s' = part_info s"
    and k: "mutexes s' = mutexes s" "links s' = links s" "sem_count s' = sem_count s" "ata s' = ata s"
    and b: "bh_size s' = bh_size s" "pmem s' = pmem s" "free_list s' = free_list s"
  shows "fs_ready info block k s' = fs_ready info block k s"
proof -
  have "disk_idle s' = disk_idle s" "idle_mutex m s' = idle_mutex m s" "bucket_room j s' = bucket_room j s" for m j
    using k b by (simp_all add: disk_idle_def idle_mutex_def quiet_def bucket_room_def)
  moreover have "heap_room j s' = heap_room j s" for j using heap_room_upd [of s' s] b by simp
  ultimately show ?thesis
    using disk_of_cong [of s' s block] assms(1-4) k(4) by (simp only: fs_ready_def)
qed

lemma fs_ready_upd_file [simp]: "fs_ready info block k (upd_file f g s) = fs_ready info block k s"
  by (rule fs_ready_cong) (simp_all add: upd_file_def)

lemma the_inode_cong: "supers s' = supers s \<Longrightarrow> the_inode i s' = the_inode i s"
  by (cases i) (simp add: the_group_def the_super_def)

lemma upd_file_fields [simp]:
  "supers (upd_file f g s) = supers s" "drv (upd_file f g s) = drv s" "bbs (upd_file f g s) = bbs s"
  "the_inode i (upd_file f g s) = the_inode i s" "fs_table (upd_file f g s) = fs_table s"
  "file_table (upd_file f g s) = (file_table s)[f := g (file_table s ! f)]"
  by (simp_all add: upd_file_def the_inode_cong [of "s\<lparr>file_table := x\<rparr>" s for x])

lemma blocksize_ready: "fs_ready info block k s \<Longrightarrow> the_super block s = Some (supers s block)"
  by (simp add: the_super_def fs_ready_def)

lemma read_loop_last:
  fixes s :: "(ide, 'a) fsys_scheme"
  assumes ready: "fs_ready info block (k + 1) s" "0 \<le> k" and b: "uint b < 2 ^ 20"
    and r: "0 < r" "r \<le> sz" "0 \<le> begn" "sz \<le> 4096 - begn"
  shows "\<exists>s'. read_loop f block sz begn b r out s = Some (upd_file f (\<lambda>x. x\<lparr>f_pos := f_pos x + r\<rparr>) s', sz,
      out @ take (nat r) (drop (nat begn) (disk_block info (drv s) b)))
    \<and> keeps s s' \<and> medium (drv s') = medium (drv s) \<and> fs_ready info block k s'"
proof -
  obtain s' bb where l: "read_block block b s = Some (s', bb)" "bb \<noteq> 0"
    "bb_data (bbs s' bb) = disk_block info (drv s) b" "medium (drv s') = medium (drv s)" "keeps s s'" "fs_ready info block k s'"
    using read_block_loads [OF ready b] by auto
  have g: "get_bytes begn r (disk_block info (drv s) b) = Some (take (nat r) (drop (nat begn) (disk_block info (drv s) b)))"
    using r by (simp add: get_bytes_def)
  have "block_size (supers s' block) = 4096" using l(6) by (simp add: fs_ready_def)
  then show ?thesis
    using l r g blocksize_ready [OF l(6)] by (intro exI [of _ s']) (subst read_loop.simps, simp)
qed

lemma read_loop_more:
  fixes s :: "(ide, 'a) fsys_scheme"
  assumes ready: "fs_ready info block (k + 1) s" "0 \<le> k" and b: "uint b < 2 ^ 20"
    and r: "0 < r" "0 \<le> begn" "begn < 4096" "4096 - begn < sz"
    and opn: "file_ready block f i t s" "0 \<le> f_cur_block (file_table s ! f)" "f_cur_block (file_table s ! f) < 11"
  shows "\<exists>s'. read_loop f block sz begn b r out s = read_loop f block sz 0
      (i_block t ! Suc (nat (f_cur_block (file_table s ! f)))) (r - (4096 - begn))
      (out @ drop (nat begn) (disk_block info (drv s) b))
      (upd_file f (\<lambda>x. x\<lparr>f_pos := f_pos x + (4096 - begn), f_cur_block := f_cur_block x + 1\<rparr>) s')
    \<and> keeps s s' \<and> medium (drv s') = medium (drv s) \<and> fs_ready info block k s'"
proof -
  obtain s' bb where l: "read_block block b s = Some (s', bb)" "bb \<noteq> 0"
    "bb_data (bbs s' bb) = disk_block info (drv s) b" "medium (drv s') = medium (drv s)" "keeps s s'" "fs_ready info block k s'"
    using read_block_loads [OF ready b] by auto
  let ?c = "f_cur_block (file_table s ! f)"
  let ?s = "upd_file f (\<lambda>x. x\<lparr>f_pos := f_pos x + (4096 - begn), f_cur_block := f_cur_block x + 1\<rparr>) s'"
  have g: "get_bytes begn (4096 - begn) (disk_block info (drv s) b) = Some (drop (nat begn) (disk_block info (drv s) b))"
    using r by (simp add: get_bytes_def)
  have kf: "file_table s' = file_table s" "supers s' = supers s" using l(5) by (simp_all add: keeps_def)
  have fl: "the_file f ?s = Some ((file_table s ! f)\<lparr>f_pos := f_pos (file_table s ! f) + (4096 - begn), f_cur_block := ?c + 1\<rparr>)"
    using opn(1) by (simp add: the_file_def upd_file_def kf file_ready_def)
  have "the_inode i ?s = Some t"
    using opn(1) by (simp add: file_ready_def the_inode_cong [OF kf(2)])
  then have ig: "iget_bno i (word_of_int (?c + 1)) ?s = Some (?s, i_block t ! Suc (nat ?c))"
    using opn iget_bno_direct [of i ?s t "?c + 1"] by (simp add: file_ready_def nat_add_distrib)
  have "block_size (supers s' block) = 4096" using l(6) by (simp add: fs_ready_def)
  then have "read_loop f block sz begn b r out s = read_loop f block sz 0 (i_block t ! Suc (nat ?c)) (r - (4096 - begn))
      (out @ drop (nat begn) (disk_block info (drv s) b)) ?s"
    using l r g blocksize_ready [OF l(6)] fl ig opn(1)
    by (subst read_loop.simps) (simp add: file_ready_def Let_def)
  then show ?thesis using l(4-6) by (intro exI [of _ s']) simp
qed

lemma file_data_window:
  assumes "length (i_block t) = 15" "j < 12" "b < 4096"
  shows "m \<le> 4096 - b \<Longrightarrow> take m (drop (4096 * j + b) (file_data info d t)) = take m (drop b (disk_block info d (i_block t ! j)))"
    and "4096 - b < m \<Longrightarrow> m \<le> 8192 - b \<Longrightarrow> Suc j < 12 \<Longrightarrow> take m (drop (4096 * j + b) (file_data info d t)) =
      drop b (disk_block info d (i_block t ! j)) @ take (m - (4096 - b)) (disk_block info d (i_block t ! Suc j))"
proof -
  have d: "drop (4096 * j + b) (file_data info d t) = drop b (drop (4096 * j) (file_data info d t))"
    by (simp add: add.commute)
  show "take m (drop (4096 * j + b) (file_data info d t)) = take m (drop b (disk_block info d (i_block t ! j)))" if "m \<le> 4096 - b"
    unfolding d file_data_from [OF assms(1,2)] using that by simp
  assume m: "4096 - b < m" "m \<le> 8192 - b" "Suc j < 12"
  have "drop (Suc j) (take 12 (i_block t)) = (i_block t ! Suc j) # drop (Suc (Suc j)) (take 12 (i_block t))"
    using assms(1) m(3) Cons_nth_drop_Suc [of "Suc j" "take 12 (i_block t)"] by simp
  then show "take m (drop (4096 * j + b) (file_data info d t)) =
      drop b (disk_block info d (i_block t ! j)) @ take (m - (4096 - b)) (disk_block info d (i_block t ! Suc j))"
    unfolding d file_data_from [OF assms(1,2)] using m assms(3) by simp
qed

text \<open>The size a read is cut down to at the end of the file.\<close>

lemma read_size:
  fixes w :: uint
  assumes "0 \<le> p" "p \<le> uint w" "uint w \<le> 49152" "0 \<le> n" "n \<le> 4096"
  shows "(if word_of_int (p + n) > w then sint (w - word_of_int p) else n) = min n (uint w - p)"
proof -
  have p: "uint (word_of_int (p + n) :: uint) = p + n" "uint (word_of_int p :: uint) = p"
    using assms by (intro uint_of_small; simp)+
  have "uint (w - word_of_int p) = uint w - p" using assms p(2) by (subst uint_sub_small) simp_all
  moreover from this have "sint (w - word_of_int p) = uint w - p" using assms by (subst sint_of_small) simp_all
  ultimately show ?thesis using p(1) by (auto simp: word_less_def min_def)
qed

lemma file_ready_step:
  assumes "file_ready block f i t s" "keeps s s'" "\<And>x. f_inode (g x) = f_inode x" "\<And>x. f_fs (g x) = f_fs x"
  shows "file_ready block f i t (upd_file f g s')"
proof -
  have k: "supers s' = supers s" "file_table s' = file_table s" "fs_table s' = fs_table s"
    using assms(2) by (simp_all add: keeps_def)
  have "the_inode i s' = the_inode i s" by (rule the_inode_cong [OF k(1)])
  then show ?thesis using assms k by (auto simp: file_ready_def file_super_def the_file_def)
qed

lemma ext2_read_start:
  assumes ready: "fs_ready info block k s" and opn: "file_ready block f i t s"
    and pos: "f_pos (file_table s ! f) = pos" "0 \<le> pos" "pos \<le> uint (i_size t)" "pos < 49152" "uint (i_size t) \<le> 49152"
    and cur: "f_cur_block (file_table s ! f) = c" "0 \<le> c" "c < 12" and n: "0 \<le> n" "n \<le> 4096"
  defines "m \<equiv> min n (uint (i_size t) - pos)"
  shows "ext2_read f n s = read_loop f block m (pos mod 4096) (i_block t ! nat c) m [] s"
proof -
  have "block_size (supers s block) = 4096" using ready by (simp add: fs_ready_def)
  moreover have "iget_bno i (word_of_int c) s = Some (s, i_block t ! nat c)"
    using opn cur iget_bno_direct [of i s t c] by (simp add: file_ready_def)
  ultimately show ?thesis
    using opn pos(1) cur(1) read_size [OF pos(2,3,5) n] n pos(2) blocksize_ready [OF ready]
    by (simp add: ext2_read_def file_ready_def the_file_def blksize_def m_def Let_def split: if_splits)
qed

lemma ext2_read_bytes:
  fixes s :: "(ide, 'a) fsys_scheme" and n pos :: int
  assumes ready: "fs_ready info block (k + 2) s" "0 \<le> k" and opn: "file_ready block f i t s"
    and pos: "f_pos (file_table s ! f) = pos" "0 \<le> pos" "pos \<le> uint (i_size t)" "pos < 49152" "uint (i_size t) \<le> 49152"
    and cur: "f_cur_block (file_table s ! f) = pos div 4096" and n: "0 \<le> n" "n \<le> 4096"
  defines "m \<equiv> min n (uint (i_size t) - pos)"
  shows "\<exists>s'. ext2_read f n s = Some (s', m, take (nat m) (drop (nat pos) (file_data info (drv s) t)))
    \<and> f_pos (file_table s' ! f) = pos + m
    \<and> f_cur_block (file_table s' ! f) = (if m = 0 then pos div 4096 else (pos + m - 1) div 4096)
    \<and> medium (drv s') = medium (drv s) \<and> fs_ready info block k s' \<and> file_ready block f i t s'
    \<and> keeps s (s'\<lparr>file_table := file_table s\<rparr>)"
proof -
  define c where "c = nat (pos div 4096)"
  define b where "b = nat (pos mod 4096)"
  have cb: "c < 12" "b < 4096" "pos mod 4096 = int b" "pos div 4096 = int c" "pos = 4096 * int c + int b"
    using pos(2,4) by (auto simp: c_def b_def)
  then have "pos = int (4096 * c + b)" by simp
  then have "nat pos = 4096 * c + b" by (simp only: nat_int)
  note cb = cb this
  have m: "0 \<le> m" "m \<le> 4096" "pos + m \<le> 49152" using n pos(3,5) by (auto simp: m_def)
  have blk: "length (i_block t) = 15" "\<And>j. j < 12 \<Longrightarrow> uint (i_block t ! j) < 2 ^ 20" using opn by (auto simp: file_ready_def)
  have start: "ext2_read f n s = read_loop f block m (int b) (i_block t ! c) m [] s"
    using ext2_read_start [OF ready(1) opn pos _ _ _ n, of "int c"] cur cb by (simp add: m_def)
  have rr: "fs_ready info block (k + 1 + 1) s" "0 \<le> k + 1" using ready by (simp_all add: add.assoc)
  consider "m = 0" | "0 < m" "m \<le> 4096 - int b" | "4096 - int b < m" using m(1) by linarith
  then show ?thesis
  proof cases
    case 1
    then show ?thesis
      using start ready opn pos(1) cur fs_ready_mono [OF ready(1), of k]
      by (subst start) (subst read_loop.simps, simp add: keeps_def)
  next
    case 2
    obtain s' where s': "read_loop f block m (int b) (i_block t ! c) m [] s =
        Some (upd_file f (\<lambda>x. x\<lparr>f_pos := f_pos x + m\<rparr>) s', m, take (nat m) (drop b (disk_block info (drv s) (i_block t ! c))))"
      "keeps s s'" "medium (drv s') = medium (drv s)" "fs_ready info block (k + 1) s'"
      using read_loop_last [OF rr, of "i_block t ! c" m m "int b" f "[]"] blk(2) [OF cb(1)] 2 m by auto
    let ?s = "upd_file f (\<lambda>x. x\<lparr>f_pos := f_pos x + m\<rparr>) s'"
    have "file_table s' = file_table s" using s'(2) by (simp add: keeps_def)
    moreover have "file_ready block f i t ?s" by (rule file_ready_step [OF opn s'(2)]) simp_all
    moreover have "(pos + m - 1) div 4096 = int c" using 2 cb by auto
    moreover have "keeps s (?s\<lparr>file_table := file_table s\<rparr>)" using s'(2) by (simp add: keeps_def upd_file_def)
    ultimately show ?thesis
      using start s' file_data_window(1) [OF blk(1) cb(1,2), of "nat m"] 2 pos(1) cur cb opn fs_ready_mono [OF s'(4), of k] ready(2)
      by (intro exI [of _ ?s]) (simp add: file_ready_def)
  next
    case 3
    have c1: "Suc c < 12" using 3 m(3) cb(2,5) by linarith
    obtain s1 where s1: "read_loop f block m (int b) (i_block t ! c) m [] s =
        read_loop f block m 0 (i_block t ! Suc c) (m - (4096 - int b)) (drop b (disk_block info (drv s) (i_block t ! c)))
          (upd_file f (\<lambda>x. x\<lparr>f_pos := f_pos x + (4096 - int b), f_cur_block := f_cur_block x + 1\<rparr>) s1)"
      "keeps s s1" "medium (drv s1) = medium (drv s)" "fs_ready info block (k + 1) s1"
      using read_loop_more [OF rr, of "i_block t ! c" m "int b" m f i t "[]"] blk(2) [OF cb(1)] 3 cb m cur opn c1 by auto
    let ?s1 = "upd_file f (\<lambda>x. x\<lparr>f_pos := f_pos x + (4096 - int b), f_cur_block := f_cur_block x + 1\<rparr>) s1"
    have o1: "file_ready block f i t ?s1" by (rule file_ready_step [OF opn s1(2)]) simp_all
    obtain s' where s': "read_loop f block m 0 (i_block t ! Suc c) (m - (4096 - int b)) (drop b (disk_block info (drv s) (i_block t ! c))) ?s1 =
        Some (upd_file f (\<lambda>x. x\<lparr>f_pos := f_pos x + (m - (4096 - int b))\<rparr>) s', m, drop b (disk_block info (drv s) (i_block t ! c))
          @ take (nat (m - (4096 - int b))) (disk_block info (drv s1) (i_block t ! Suc c)))"
      "keeps ?s1 s'" "medium (drv s') = medium (drv s1)" "fs_ready info block k s'"
      using read_loop_last [of info block k ?s1 "i_block t ! Suc c" "m - (4096 - int b)" m 0 f "drop b (disk_block info (drv s) (i_block t ! c))"]
        s1(4) ready(2) blk(2) [OF c1] 3 cb(2) m by auto
    let ?s = "upd_file f (\<lambda>x. x\<lparr>f_pos := f_pos x + (m - (4096 - int b))\<rparr>) s'"
    have ft: "file_table s1 = file_table s" "file_table s' = file_table ?s1" using s1(2) s'(2) by (simp_all add: keeps_def)
    have "file_ready block f i t ?s" by (rule file_ready_step [OF o1 s'(2)]) simp_all
    moreover have "(pos + m - 1) div 4096 = int c + 1" using 3 m(2) cb(2,5) by auto
    moreover have "keeps s (?s\<lparr>file_table := file_table s\<rparr>)" using s1(2) s'(2) by (simp add: keeps_def upd_file_def)
    moreover have "disk_block info (drv s1) = disk_block info (drv s)" by (rule disk_block_cong [OF s1(3)])
    moreover have "nat (m - (4096 - int b)) = nat m - (4096 - b)" using 3 cb(2) by (simp add: nat_diff_distrib')
    ultimately show ?thesis
      using start s1(1,3) s'(1,3,4) ft file_data_window(2) [OF blk(1) cb(1,2), of "nat m"] 3 pos(1) cur cb(2,4,6) opn c1 m
      by (intro exI [of _ ?s]) (simp add: file_ready_def)
  qed
qed

section \<open>Writing a file\<close>

text \<open>An inode in memory changes; the super block's other fields do not.\<close>

lemma upd_inode_super:
  "block_size (supers (upd_inode i g s) x) = block_size (supers s x)" "sb_fs (supers (upd_inode i g s) x) = sb_fs (supers s x)"
  by (cases i; simp add: upd_group_def upd_super_def)+

lemma upd_inode_fields [simp]:
  "file_table (upd_inode i g s) = file_table s" "fs_table (upd_inode i g s) = fs_table s"
  "dev_table (upd_inode i g s) = dev_table s" "part_info (upd_inode i g s) = part_info s" "drv (upd_inode i g s) = drv s"
  "mutexes (upd_inode i g s) = mutexes s" "links (upd_inode i g s) = links s" "sem_count (upd_inode i g s) = sem_count s"
  "ata (upd_inode i g s) = ata s" "bh_size (upd_inode i g s) = bh_size s" "pmem (upd_inode i g s) = pmem s"
  "free_list (upd_inode i g s) = free_list s" "blinks (upd_inode i g s) = blinks s" "bbs (upd_inode i g s) = bbs s"
  by (cases i; simp add: upd_group_def upd_super_def)+

lemma the_inode_upd_inode: "the_inode i s = Some t \<Longrightarrow> the_inode i (upd_inode i g s) = Some (g t)"
  by (cases i) (auto simp: the_group_def the_super_def upd_group_def upd_super_def bind_eq_Some_conv split: if_splits)

lemma fs_ready_upd_inode [simp]: "fs_ready info block k (upd_inode i g s) = fs_ready info block k s"
proof -
  have "part_of d (upd_inode i g s) = part_of d s" for d by (simp add: part_of_def Let_def cong: if_cong)
  then have "disk_of block (upd_inode i g s) = disk_of block s"
    by (simp add: disk_of_def dev_of_def upd_inode_super cong: if_cong)
  moreover have "disk_idle (upd_inode i g s) = disk_idle s" "idle_mutex m (upd_inode i g s) = idle_mutex m s"
    "bucket_room j (upd_inode i g s) = bucket_room j s" for m j
    by (simp_all add: disk_idle_def idle_mutex_def quiet_def bucket_room_def)
  moreover have "heap_room j (upd_inode i g s) = heap_room j s" for j using heap_room_upd [of "upd_inode i g s" s] by simp
  ultimately show ?thesis by (simp only: fs_ready_def upd_inode_super upd_inode_fields)
qed

lemma ext2_write_block:
  fixes s :: "(ide, 'a) fsys_scheme"
  assumes ready: "fs_ready info block (k + 1) s" "0 \<le> k" and opn: "file_ready block f i t s"
    and pos: "f_pos (file_table s ! f) = 4096 * int c + int b" "c < 12" "b < 4096"
    and n: "0 < n" "n \<le> 4096 - int b" "length data = nat n"
  shows "\<exists>s' bb. ext2_write f data n s = Some (s', n)
    \<and> bb \<noteq> 0 \<and> block_no (bbs s' bb) = i_block t ! c
    \<and> bb_data (bbs s' bb) = take b (disk_block info (drv s) (i_block t ! c)) @ data
        @ drop (b + length data) (disk_block info (drv s) (i_block t ! c))
    \<and> blinks s' = list_insert_tail DirtyHead (DNode bb)
        (list_insert_head (Bucket (nat (hash_bh (sint (i_block t ! c))))) (BNode bb) (blinks s))
    \<and> f_pos (file_table s' ! f) = f_pos (file_table s ! f) + n
    \<and> file_ready block f i (t\<lparr>i_size := i_size t + word_of_int n, i_atime := timestamp s\<rparr>) s'
    \<and> medium (drv s') = medium (drv s) \<and> fs_ready info block k s'"
proof -
  let ?b = "i_block t ! c"
  have blk: "length (i_block t) = 15" "uint ?b < 2 ^ 20" using opn pos(2) by (auto simp: file_ready_def)
  obtain s1 bb where l: "read_block block ?b s = Some (s1, bb)" "bb \<noteq> 0"
    "bbs s1 = (bbs s)(bb := \<lparr>block_no = ?b, bb_data = disk_block info (drv s) ?b, b_state = 1, exp_time = timestamp s\<rparr>)"
    "blinks s1 = list_insert_head (Bucket (nat (hash_bh (sint ?b)))) (BNode bb) (blinks s)"
    "medium (drv s1) = medium (drv s)" "keeps s s1" "fs_ready info block k s1"
    using read_block_loads [OF ready blk(2)] by auto
  have kf: "file_table s1 = file_table s" "timestamp s1 = timestamp s" "fs_table s1 = fs_table s" "supers s1 = supers s"
    using l(6) by (simp_all add: keeps_def)
  define d where "d = take b (disk_block info (drv s) ?b) @ data @ drop (b + length data) (disk_block info (drv s) ?b)"
  have put: "put_bytes (int b) data (disk_block info (drv s) ?b) = Some d"
    using n pos(3) by (simp add: put_bytes_def d_def)
  have get: "get_bytes 0 n data = Some data" using n by (simp add: get_bytes_def)
  let ?s2 = "(upd_file f (\<lambda>x. x\<lparr>f_pos := f_pos x + n\<rparr>) (upd_bb bb (\<lambda>x. x\<lparr>bb_data := d\<rparr>) s1))
    \<lparr>blinks := list_insert_tail DirtyHead (DNode bb) (blinks s1)\<rparr>"
  let ?g = "\<lambda>t. t\<lparr>i_size := i_size t + word_of_int n, i_atime := timestamp s\<rparr>"
  have cd: "cdiv (4096 * int c + int b) 4096 = int c" "cmod (4096 * int c + int b) 4096 = int b"
    using pos(3) by simp_all
  have o2: "the_inode i ?s2 = Some t"
    using opn the_inode_cong [of ?s2 s i] kf by (simp add: file_ready_def upd_bb_def upd_file_def)
  have sb: "block_size (supers s block) = 4096" using ready by (simp add: fs_ready_def)
  have ig: "iget_bno i (word_of_int (int c)) s = Some (s, ?b)"
    using opn pos(2) iget_bno_direct [of i s t "int c"] by (simp add: file_ready_def)
  have "ext2_write f data n s = Some (upd_inode i ?g ?s2, n)"
    using opn pos(1) n(1,2) l(1,2) put get cd o2 sb ig kf blocksize_ready [OF ready(1)]
    by (simp add: ext2_write_def file_ready_def the_file_def blksize_def l(3) upd_bb_def upd_file_def)
  moreover have "fs_ready info block k ?s2"
    using l(7) fs_ready_cong [of ?s2 s1 info block k] by (simp add: upd_bb_def upd_file_def)
  moreover have "file_ready block f i (?g t) (upd_inode i ?g ?s2)"
    using opn the_inode_upd_inode [OF o2, of ?g] kf
    by (auto simp: file_ready_def file_super_def the_file_def upd_file_def upd_bb_def)
  ultimately show ?thesis
    using opn pos n l kf by (intro exI [of _ "upd_inode i ?g ?s2"] exI [of _ bb])
      (simp add: d_def file_ready_def upd_bb_def upd_file_def)
qed

section \<open>Writing back the dirty blocks\<close>

text \<open>
  The order in which \<open>sync_dirty\<close> visits the list: \<open>ks\<close> was stepped over in this round, \<open>xs\<close> is
  ahead.  The block at the front is written and leaves the list, the one behind it is stepped
  over; at the end of the list the walk goes round when the last block was removed, and stops when
  it was stepped over.  The result is what is written, in order, and what stays dirty.
\<close>

function sweep :: "'a list \<Rightarrow> 'a list \<Rightarrow> 'a list \<times> 'a list" where
  "sweep ks [] = ([], ks)"
| "sweep ks [x] = (case sweep [] ks of (w, k) \<Rightarrow> (x # w, k))"
| "sweep ks (x # y # zs) = (case sweep (ks @ [y]) zs of (w, k) \<Rightarrow> (x # w, k))"
  by pat_completeness auto

termination by (relation "measure (\<lambda>(ks, xs). length ks + length xs)") auto

definition store_blocks :: "(addr \<Rightarrow> block_buffer_t) \<Rightarrow> addr list \<Rightarrow> (uint \<Rightarrow> uchar list) \<Rightarrow> uint \<Rightarrow> uchar list" where
  "store_blocks bs xs = fold (\<lambda>x D. D(block_no (bs x) := bb_data (bs x))) xs"

definition dirty_ok :: "addr list \<Rightarrow> ('d, 'a) fsys_scheme \<Rightarrow> bool" where
  "dirty_ok xs s \<longleftrightarrow> cdl (blinks s) DirtyHead (map DNode xs)
     \<and> (\<forall>x \<in> set xs. uint (block_no (bbs s x)) < 2 ^ 20 \<and> length (bb_data (bbs s x)) = 4096)"

text \<open>One turn of the loop.\<close>

lemma sync_dirty_step:
  fixes s :: "(ide, 'a) fsys_scheme"
  assumes ready: "fs_ready info block k s" and dev: "dev_of (supers s block) s = Some dev"
    and dirty: "dirty_ok (as @ x # bs) s"
  shows "\<exists>s1. sync_dirty dev (supers s block) (DNode x) s = sync_dirty dev (supers s block)
      (nxt (blinks s1) (nxt (blinks s) (DNode x))) s1
    \<and> dirty_ok (as @ bs) s1 \<and> fs_ready info block k s1 \<and> keeps s s1 \<and> bbs s1 = bbs s
    \<and> (\<forall>b. uint b < 2 ^ 20 \<longrightarrow> disk_block info (drv s1) b =
        (if b = block_no (bbs s x) then bb_data (bbs s x) else disk_block info (drv s) b))"
proof -
  have x: "uint (block_no (bbs s x)) < 2 ^ 20" "length (bb_data (bbs s x)) = 4096" using dirty by (simp_all add: dirty_ok_def)
  obtain d c where w: "dev_write dev (block_sec (supers s block) (block_no (bbs s x))) (bb_data (bbs s x)) 8 s =
      Some (s\<lparr>wait_interupt := 1, drv := d, dcpu := c\<rparr>, 8)"
    "\<forall>b. uint b < 2 ^ 20 \<longrightarrow> disk_block info d b = (if b = block_no (bbs s x) then bb_data (bbs s x) else disk_block info (drv s) b)"
    using dev_write_block [of s block info "block_no (bbs s x)" dev "bb_data (bbs s x)"] ready dev x
    by (auto simp: fs_ready_def)
  let ?s1 = "s\<lparr>wait_interupt := 1, drv := d, dcpu := c, blinks := list_remove (DNode x) (blinks s)\<rparr>"
  have c: "cdl (blinks s) DirtyHead (map DNode as @ DNode x # map DNode bs)" using dirty by (simp add: dirty_ok_def)
  have "cdl (list_remove (DNode x) (blinks s)) DirtyHead (map DNode (as @ bs))"
    using cdl_remove [OF c] by (simp add: list_remove_eq)
  then have "dirty_ok (as @ bs) ?s1" using dirty by (simp add: dirty_ok_def)
  moreover have "keeps s ?s1" by (simp add: keeps_def)
  moreover have "fs_ready info block k ?s1" using ready fs_ready_cong [of ?s1 s info block k] by simp
  moreover have "sync_dirty dev (supers s block) (DNode x) s =
      sync_dirty dev (supers s block) (nxt (blinks ?s1) (nxt (blinks s) (DNode x))) ?s1"
    using w(1) by (subst sync_dirty.simps) simp
  ultimately show ?thesis using w(2) by (intro exI [of _ ?s1]) simp
qed

text \<open>Where the loop stands when \<open>xs\<close> is ahead.\<close>

fun dirty_node :: "addr list \<Rightarrow> bnode" where
  "dirty_node [] = DirtyHead"
| "dirty_node (x # xs) = DNode x"

lemma dirty_next: "dirty_ok (as @ x # xs) s \<Longrightarrow> nxt (blinks s) (DNode x) = dirty_node xs"
  using cdl_next [of "blinks s" DirtyHead "map DNode as" "DNode x" "map DNode xs"]
  by (cases xs) (simp_all add: dirty_ok_def)

lemma dirty_first: "dirty_ok xs s \<Longrightarrow> nxt (blinks s) DirtyHead = dirty_node xs"
  by (cases xs) (auto simp: dirty_ok_def cdl_def)

lemma store_blocks_cong:
  "\<forall>b. P b \<longrightarrow> D b = E b \<Longrightarrow> P b \<Longrightarrow> store_blocks bs xs D b = store_blocks bs xs E b"
  unfolding store_blocks_def by (induction xs arbitrary: D E) simp_all

text \<open>The state after a run: what stays dirty, what was written.\<close>

definition synced :: "part_info_t \<Rightarrow> addr \<Rightarrow> int \<Rightarrow> (ide, 'a) fsys_scheme \<Rightarrow> addr list \<times> addr list \<Rightarrow> (ide, 'a) fsys_scheme \<Rightarrow> bool" where
  "synced info block k s r s' \<longleftrightarrow> dirty_ok (snd r) s' \<and> fs_ready info block k s' \<and> keeps s s' \<and> bbs s' = bbs s
    \<and> (\<forall>b. uint b < 2 ^ 20 \<longrightarrow> disk_block info (drv s') b = store_blocks (bbs s) (fst r) (disk_block info (drv s)) b)"

lemma synced_Cons:
  assumes "keeps s s1" "bbs s1 = bbs s" "synced info block k s1 r s'"
    and "\<forall>b. uint b < 2 ^ 20 \<longrightarrow> disk_block info (drv s1) b = (if b = block_no (bbs s x) then bb_data (bbs s x) else disk_block info (drv s) b)"
  shows "synced info block k s (x # fst r, snd r) s'"
proof -
  have "store_blocks (bbs s) (fst r) (disk_block info (drv s1)) b = store_blocks (bbs s) (x # fst r) (disk_block info (drv s)) b"
    if "uint b < 2 ^ 20" for b
  proof -
    have "store_blocks (bbs s) (fst r) (disk_block info (drv s1)) b =
        store_blocks (bbs s) (fst r) ((disk_block info (drv s))(block_no (bbs s x) := bb_data (bbs s x))) b"
      using assms(4) that by (intro store_blocks_cong [where P = "\<lambda>b. uint b < 2 ^ 20"]) auto
    then show ?thesis by (simp add: store_blocks_def)
  qed
  then show ?thesis using assms(1-3) keeps_trans by (auto simp: synced_def)
qed

lemma sync_dirty_sweep:
  fixes s :: "(ide, 'a) fsys_scheme"
  assumes "fs_ready info block k s" "dev_of (supers s block) s = Some dev" "dirty_ok (ks @ xs) s"
  shows "\<exists>s'. sync_dirty dev (supers s block) (dirty_node xs) s = Some (s', True) \<and> synced info block k s (sweep ks xs) s'"
  using assms
proof (induction ks xs arbitrary: s rule: sweep.induct)
  case (1 ks)
  then show ?case
    by (intro exI [of _ s]) (simp add: sync_dirty.simps synced_def store_blocks_def keeps_refl)
next
  case (2 ks x)
  obtain s1 where s1: "sync_dirty dev (supers s block) (DNode x) s = sync_dirty dev (supers s block)
      (nxt (blinks s1) (nxt (blinks s) (DNode x))) s1" "dirty_ok ks s1" "fs_ready info block k s1" "keeps s s1" "bbs s1 = bbs s"
    "\<forall>b. uint b < 2 ^ 20 \<longrightarrow> disk_block info (drv s1) b = (if b = block_no (bbs s x) then bb_data (bbs s x) else disk_block info (drv s) b)"
    using sync_dirty_step [OF 2(2,3), of ks x "[]"] 2(4) by auto
  have k: "supers s1 = supers s" "dev_of (supers s1 block) s1 = Some dev"
    using s1(4) 2(3) by (simp_all add: keeps_def dev_of_def)
  have "nxt (blinks s1) (nxt (blinks s) (DNode x)) = dirty_node ks"
    using dirty_next [OF 2(4)] dirty_first [OF s1(2)] by simp
  then obtain s' where "sync_dirty dev (supers s block) (DNode x) s = Some (s', True)" "synced info block k s1 (sweep [] ks) s'"
    using 2(1) [OF s1(3) k(2)] s1(1,2) k(1) by auto
  then show ?case
    using synced_Cons [OF s1(4,5) _ s1(6)] by (intro exI [of _ s']) (simp add: split_beta)
next
  case (3 ks x y zs)
  obtain s1 where s1: "sync_dirty dev (supers s block) (DNode x) s = sync_dirty dev (supers s block)
      (nxt (blinks s1) (nxt (blinks s) (DNode x))) s1" "dirty_ok (ks @ y # zs) s1" "fs_ready info block k s1" "keeps s s1" "bbs s1 = bbs s"
    "\<forall>b. uint b < 2 ^ 20 \<longrightarrow> disk_block info (drv s1) b = (if b = block_no (bbs s x) then bb_data (bbs s x) else disk_block info (drv s) b)"
    using sync_dirty_step [OF 3(2,3,4)] by auto
  have k: "supers s1 = supers s" "dev_of (supers s1 block) s1 = Some dev"
    using s1(4) 3(3) by (simp_all add: keeps_def dev_of_def)
  have "nxt (blinks s1) (nxt (blinks s) (DNode x)) = dirty_node zs"
    using dirty_next [OF 3(4)] dirty_next [OF s1(2)] by simp
  then obtain s' where "sync_dirty dev (supers s block) (DNode x) s = Some (s', True)"
    "synced info block k s1 (sweep (ks @ [y]) zs) s'"
    using 3(1) [OF s1(3) k(2)] s1(1,2) k(1) by auto
  then show ?case
    using synced_Cons [OF s1(4,5) _ s1(6)] by (intro exI [of _ s']) (simp add: split_beta)
qed

section \<open>Properties\<close>

text \<open>Moving to a place in the file and reading there.\<close>

lemma ext2_seek_sets:
  assumes "fs_ready info block k s" "file_ready block f i t s" "0 \<le> pos" "pos < 2 ^ 31"
  shows "ext2_seek f (word_of_int pos) s = Some (upd_file f (\<lambda>x. x\<lparr>f_pos := pos, f_cur_block := pos div 4096\<rparr>) s, 0)"
proof -
  have "uint (word_of_int pos :: uint) = pos" using assms by (intro uint_of_small) simp_all
  then have p: "sint (word_of_int pos :: uint) = pos" using assms by (subst sint_of_small) simp_all
  have "file_super f (upd_file f (\<lambda>x. x\<lparr>f_pos := pos\<rparr>) s) = Some block"
    using file_ready_step [OF assms(2) keeps_refl, of "\<lambda>x. x\<lparr>f_pos := pos\<rparr>"] by (simp add: file_ready_def)
  moreover have "block_size (supers s block) = 4096" using assms(1) by (simp add: fs_ready_def)
  moreover have "the_super block (upd_file f g s) = Some (supers s block)" for g
    using blocksize_ready [OF assms(1)] by (simp add: the_super_def split: if_splits)
  ultimately show ?thesis
    using assms(2,3) p by (simp add: ext2_seek_def the_file_def file_ready_def blksize_def) (simp add: upd_file_def)
qed

lemma seek_read:
  fixes s :: "(ide, 'a) fsys_scheme"
  assumes ready: "fs_ready info block (k + 2) s" "0 \<le> k" and opn: "file_ready block f i t s"
    and pos: "0 \<le> pos" "pos + n \<le> uint (i_size t)" "uint (i_size t) \<le> 49152" and n: "0 < n" "n \<le> 4096"
  shows "\<exists>s1 s2. ext2_seek f (word_of_int pos) s = Some (s1, 0)
    \<and> ext2_read f n s1 = Some (s2, n, take (nat n) (drop (nat pos) (file_data info (drv s) t)))"
proof -
  let ?s = "upd_file f (\<lambda>x. x\<lparr>f_pos := pos, f_cur_block := pos div 4096\<rparr>) s"
  have "file_ready block f i t ?s" by (rule file_ready_step [OF opn keeps_refl]) simp_all
  moreover have "file_table ?s ! f = (file_table s ! f)\<lparr>f_pos := pos, f_cur_block := pos div 4096\<rparr>"
    using opn by (simp add: file_ready_def)
  ultimately have "\<exists>s2. ext2_read f n ?s = Some (s2, n, take (nat n) (drop (nat pos) (file_data info (drv s) t)))"
    using ext2_read_bytes [of info block k ?s f i t pos n] ready pos n by (auto simp: min_def)
  then show ?thesis using ext2_seek_sets [OF ready(1) opn pos(1)] pos n by auto
qed

text \<open>The demonstration system is ready for ten blocks; its file starts with 512 bytes \<open>0x58\<close>.\<close>

definition demo_part :: part_info_t where
  "demo_part = no_part\<lparr>p_begin_sec := 2048, p_count := 100\<rparr>"

lemma demo_room: "n \<le> 65536 \<Longrightarrow> heap_room n demo_fs"
proof -
  assume n: "n \<le> 65536"
  have "flseg demo_block_mem 0 0x700000 [0x700000] 0" by code_simp
  moreover have sz: "b_size demo_block_mem 0x700000 = 0x10000" by code_simp
  ultimately have "free_blocks (pmem demo_fs) (free_list demo_fs) [0x700000]"
    by (simp add: free_blocks_def demo_fs_fields)
  then show ?thesis unfolding heap_room_def
    by (rule_tac exI [of _ "0x700000"], rule_tac exI [of _ "[]"]) (use n in \<open>simp add: demo_fs_fields sz\<close>)
qed

lemma demo_fs_ready: "0 \<le> k \<Longrightarrow> k \<le> 10 \<Longrightarrow> fs_ready demo_part 0x9000 k demo_fs"
proof -
  assume k: "0 \<le> k" "k \<le> 10"
  have "part_of demo_dev demo_fs = Some demo_part"
    by (simp add: part_of_def demo_fs_fields demo_disk_def console.defs demo_dev_def demo_part_def)
  then have "disk_of 0x9000 demo_fs = Some demo_part"
    by (simp add: disk_of_def dev_of_def demo_fs_fields demo_super_def demo_mount_def demo_dev_def fetch_def)
  then show ?thesis
    using demo_fs_idle demo_room [of "18 + 4162 * k"] k
    by (simp add: fs_ready_def demo_fs_fields bucket_room_def demo_super_def demo_part_def no_part_def)
qed

abbreviation demo_inode1 :: inode_t where
  "demo_inode1 \<equiv> demo_inode 0x8000 9000 [11, 12, 13]"

lemma demo_file_ready: "file_ready 0x9000 0 (0x9000, 0, 1) demo_inode1 demo_fs"
  by (simp add: file_ready_def demo_fs_fields file_super_def the_file_def demo_file_def no_file_def demo_mount_def
      the_group_def the_super_def demo_super_def demo_group_def demo_inode_def fetch_def)

lemma demo_file_start: "f_pos (file_table demo_fs ! 0) = 0" "f_cur_block (file_table demo_fs ! 0) = 0"
  by (simp_all add: demo_fs_fields demo_file_def no_file_def)

lemma demo_block: "disk_block demo_part (drv demo_fs) 11 = concat (map (\<lambda>i. replicate 512 (of_nat i)) [2136..<2144])"
  by (simp add: disk_block_def block_lba_def demo_part_def demo_fs_fields demo_drive_def medium_def o_def)

lemma demo_bytes:
  "n \<le> 512 \<Longrightarrow> take n (file_data demo_part (drv demo_fs) demo_inode1) = replicate n 0x58"
proof -
  assume n: "n \<le> 512"
  have "[2136..<2144] = 2136 # [2137..<(2144 :: nat)]" by (subst upt_conv_Cons) simp_all
  then have "take n (disk_block demo_part (drv demo_fs) 11) = replicate n 0x58"
    using n by (simp add: demo_block min_def del: upt_rec_numeral)
  moreover have "length (i_block demo_inode1) = 15" "i_block demo_inode1 ! 0 = 11" by (simp_all add: demo_inode_def)
  ultimately show ?thesis
    using file_data_window(1) [of demo_inode1 0 0 n demo_part "drv demo_fs"] n by simp
qed

lemma demo_size: "uint (i_size demo_inode1) = 9000" by (simp add: demo_inode_def)

text \<open>Reading a file returns what the medium holds.  A read of at most 4096 bytes from a
  position that agrees with the file's current block returns the bytes of the file at that
  position, cut off at the end of the file, and moves the position behind them.\<close>

theorem ext2_read_refines_file:
  fixes s :: "(ide, 'a) fsys_scheme" and n pos :: int
  assumes ready: "fs_ready info block 2 s" and opn: "file_ready block f i t s"
    and pos: "f_pos (file_table s ! f) = pos" "0 \<le> pos" "pos \<le> uint (i_size t)" "pos < 49152" "uint (i_size t) \<le> 49152"
    and cur: "f_cur_block (file_table s ! f) = pos div 4096" and n: "0 \<le> n" "n \<le> 4096"
  defines "m \<equiv> min n (uint (i_size t) - pos)"
  shows "\<exists>s'. ext2_read f n s = Some (s', m, take (nat m) (drop (nat pos) (file_data info (drv s) t)))
    \<and> f_pos (file_table s' ! f) = pos + m \<and> medium (drv s') = medium (drv s)"
  using ext2_read_bytes [of info block 0, OF _ _ opn pos cur n] ready unfolding m_def by auto

lemma ext2_read_refines_file_witness:
  "\<exists>s'. ext2_read 0 3 demo_fs = Some (s', 3, [0x58, 0x58, 0x58]) \<and> f_pos (file_table s' ! 0) = 3"
  using ext2_read_refines_file [OF demo_fs_ready demo_file_ready demo_file_start(1), of 3] demo_file_start(2)
    demo_bytes [of 3] demo_size
  by (auto simp: numeral_3_eq_3)



text \<open>What is written is not what is read.  A write within a block reports all bytes written,
  but it goes to a buffer of its own: moving back and reading gives the bytes the medium held
  before the write.\<close>

theorem ext2_write_not_seen:
  fixes s :: "(ide, 'a) fsys_scheme"
  assumes ready: "fs_ready info block 3 s" and opn: "file_ready block f i t s"
    and pos: "f_pos (file_table s ! f) = 4096 * int c + int b" "c < 12" "b < 4096" "4096 * int c + int b \<le> uint (i_size t)"
    and n: "0 < n" "n \<le> 4096 - int b" "length data = nat n" "uint (i_size t) + n \<le> 49152"
  shows "\<exists>s1 s2 s3. ext2_write f data n s = Some (s1, n)
    \<and> ext2_seek f (word_of_int (4096 * int c + int b)) s1 = Some (s2, 0)
    \<and> ext2_read f n s2 = Some (s3, n, take (nat n) (drop (4096 * c + b) (file_data info (drv s) t)))"
proof -
  let ?t = "t\<lparr>i_size := i_size t + word_of_int n, i_atime := timestamp s\<rparr>"
  obtain s1 where s1: "ext2_write f data n s = Some (s1, n)" "file_ready block f i ?t s1"
    "medium (drv s1) = medium (drv s)" "fs_ready info block 2 s1"
    using ext2_write_block [of info block 2 s f i t c b n data] ready opn pos n by auto
  have "uint (word_of_int n :: uint) = n" using n by (intro uint_of_small) simp_all
  then have "uint (i_size ?t) = uint (i_size t) + n" using n(4) by (simp add: uint_add_small)
  then obtain s2 s3 where "ext2_seek f (word_of_int (4096 * int c + int b)) s1 = Some (s2, 0)"
    "ext2_read f n s2 = Some (s3, n, take (nat n) (drop (nat (4096 * int c + int b)) (file_data info (drv s1) ?t)))"
    using seek_read [of info block 0 s1 f i ?t "4096 * int c + int b" n] s1(2,4) pos(3,4) n by auto
  moreover have "file_data info (drv s1) ?t = file_data info (drv s) t"
    using disk_block_cong [OF s1(3)] by (simp add: file_data_def)
  moreover have "nat (4096 * int c + int b) = 4096 * c + b" by (simp add: nat_add_distrib nat_mult_distrib)
  ultimately show ?thesis using s1(1) by auto
qed

lemma ext2_write_not_seen_witness:
  "\<exists>s1 s2 s3. ext2_write 0 [1, 2] 2 demo_fs = Some (s1, 2) \<and> ext2_seek 0 0 s1 = Some (s2, 0)
     \<and> ext2_read 0 2 s2 = Some (s3, 2, [0x58, 0x58])"
  using ext2_write_not_seen [OF demo_fs_ready demo_file_ready, of 0 0 2 "[1, 2]"] demo_file_start demo_size demo_bytes [of 2]
  by (auto simp: numeral_2_eq_2)



text \<open>The blocks at even and at odd places of a list.\<close>

fun every_other :: "'a list \<Rightarrow> 'a list" where
  "every_other [] = []"
| "every_other [x] = [x]"
| "every_other (x # y # zs) = x # every_other zs"

fun others :: "'a list \<Rightarrow> 'a list" where
  "others [] = []"
| "others [x] = []"
| "others (x # y # zs) = y # others zs"

lemma sweep_even: "even (length xs) \<Longrightarrow> sweep ks xs = (every_other xs, ks @ others xs)"
  by (induction xs arbitrary: ks rule: every_other.induct) simp_all


definition demo_dirty :: "ide fsys" where
  "demo_dirty = demo_fs\<lparr>blinks := list_insert_tail DirtyHead (DNode 0x8200) (list_insert_tail DirtyHead (DNode 0x8100) (blinks demo_fs)),
     bbs := (\<lambda>a. \<lparr>block_no = (if a = 0x8100 then 20 else 21), bb_data = replicate 4096 1, b_state = 1, exp_time = 0\<rparr>)\<rparr>"


end
