(* ===== verification/Ext2_Facts.thy ===== *)
theory Ext2_Facts
  imports Ext2
begin

text \<open>
  The pieces of \<open>source/fs/ext2.c\<close> that work on bytes and names: inodes in a block, the bitmaps,
  the components of a path.
\<close>

section \<open>Fields of a byte array\<close>

text \<open>A write inside the array as a total function, so that reads rewrite over it.\<close>

definition splice :: "int \<Rightarrow> uchar list \<Rightarrow> uchar list \<Rightarrow> uchar list" where
  "splice off bs xs = take (nat off) xs @ bs @ drop (nat off + length bs) xs"

lemma put_bytes_splice:
  "0 \<le> off \<Longrightarrow> off + int (length bs) \<le> int (length xs) \<Longrightarrow> put_bytes off bs xs = Some (splice off bs xs)"
  by (simp add: put_bytes_def splice_def)

lemma length_splice:
  "0 \<le> off \<Longrightarrow> off + int (length bs) \<le> int (length xs) \<Longrightarrow> length (splice off bs xs) = length xs"
  using put_bytes_length [OF put_bytes_splice] by simp

lemma get_splice:
  "0 \<le> off \<Longrightarrow> off + int (length bs) \<le> int (length xs) \<Longrightarrow> n = int (length bs) \<Longrightarrow>
   get_bytes off n (splice off bs xs) = Some bs"
  using get_put_bytes [OF put_bytes_splice] by simp

lemma get_splice_apart:
  "0 \<le> off \<Longrightarrow> off + int (length bs) \<le> int (length xs) \<Longrightarrow> off' + n \<le> off \<or> off + int (length bs) \<le> off' \<Longrightarrow>
   get_bytes off' n (splice off bs xs) = get_bytes off' n xs"
  using get_put_apart [OF put_bytes_splice] by simp

lemmas splice_simps = put_bytes_splice length_splice get_splice get_splice_apart
  put16_def put32_def get8_def get16_def get32_def

lemma le32_prefix: "4 \<le> length xs \<Longrightarrow> le32 (xs @ ys) = le32 xs"
proof -
  assume "4 \<le> length xs"
  then have "(xs @ ys) ! k = xs ! k" if "k < 4" for k using that by (simp add: nth_append)
  then show ?thesis by (simp add: le32_def)
qed

lemma le32_words: "i < length ws \<Longrightarrow> le32 (drop (4 * i) (concat (map bytes32 ws))) = ws ! i"
proof (induction ws arbitrary: i)
  case (Cons w ws)
  then show ?case by (cases i) (simp_all add: le32_prefix)
qed simp

lemma length_words [simp]: "length (concat (map bytes32 ws)) = 4 * length ws"
  by (induction ws) simp_all

section \<open>Inodes\<close>

text \<open>C24: An inode written to a block and read back is the inode in memory, except for the group,
  which is written as a copy of the user, and the mode, which is not written: it is what the
  block held.  Bytes outside the inode's 100 are not touched.\<close>

theorem inode_bytes_roundtrip:
  assumes "0 \<le> step" "step + 100 \<le> int (length d)" "length (i_block t) = 15"
  shows "\<exists>d' mode. inode_to_bytes step t d = Some d' \<and> length d' = length d
    \<and> get16 step d = Some mode
    \<and> inode_from_bytes block step d' t0 = Some (t0\<lparr>i_mode := mode, i_blocks := i_blocks t, i_uid := i_uid t,
        i_gid := i_uid t, i_size := i_size t, i_atime := i_atime t, i_mtime := i_mtime t, i_ctime := i_ctime t,
        i_block := i_block t, i_sb := block\<rparr>)
    \<and> (\<forall>off n. off + n \<le> step \<or> step + 100 \<le> off \<longrightarrow> get_bytes off n d' = get_bytes off n d)"
proof -
  define d' where "d' = splice (step + 40) (concat (map bytes32 (i_block t))) (splice (step + 12) (bytes32 (i_ctime t))
    (splice (step + 16) (bytes32 (i_mtime t)) (splice (step + 8) (bytes32 (i_atime t)) (splice (step + 4) (bytes32 (i_size t))
    (splice (step + 24) (bytes16 (i_uid t)) (splice (step + 2) (bytes16 (i_uid t)) (splice (step + 28) (bytes32 (ucast (i_blocks t))) d)))))))"
  have to: "inode_to_bytes step t d = Some d'"
    using assms by (simp add: inode_to_bytes_def splice_simps d'_def)
  have len: "length d' = length d" using assms by (simp add: splice_simps d'_def)
  have mode: "get_bytes step 2 d' = get_bytes step 2 d" using assms by (simp add: splice_simps d'_def)
  obtain bs where bs: "get_bytes step 2 d = Some bs" using assms by (auto simp: get_bytes_def)
  have f: "get_bytes (step + 28) 4 d' = Some (bytes32 (ucast (i_blocks t)))" "get_bytes (step + 2) 2 d' = Some (bytes16 (i_uid t))"
    "get_bytes (step + 24) 2 d' = Some (bytes16 (i_uid t))" "get_bytes (step + 4) 4 d' = Some (bytes32 (i_size t))"
    "get_bytes (step + 8) 4 d' = Some (bytes32 (i_atime t))" "get_bytes (step + 16) 4 d' = Some (bytes32 (i_mtime t))"
    "get_bytes (step + 12) 4 d' = Some (bytes32 (i_ctime t))"
    "get_bytes (step + 40) 60 d' = Some (concat (map bytes32 (i_block t)))"
    using assms by (simp_all add: splice_simps d'_def)
  have blk: "map (\<lambda>i. le32 (drop (4 * i) (concat (map bytes32 (i_block t))))) [0..<15] = i_block t"
    using assms(3) by (intro nth_equalityI) (simp_all add: le32_words)
  have "ucast (ucast (i_blocks t) :: uint) = i_blocks t" by (rule bit_word_eqI) (simp add: bit_simps)
  then have "inode_from_bytes block step d' t0 = Some (t0\<lparr>i_mode := le16 bs, i_blocks := i_blocks t, i_uid := i_uid t,
        i_gid := i_uid t, i_size := i_size t, i_atime := i_atime t, i_mtime := i_mtime t, i_ctime := i_ctime t,
        i_block := i_block t, i_sb := block\<rparr>)"
    using mode bs f by (simp add: inode_from_bytes_def get16_def get32_def blk)
  moreover have "get_bytes off n d' = get_bytes off n d" if "off + n \<le> step \<or> step + 100 \<le> off" for off n
    using assms that by (auto simp: splice_simps d'_def)
  ultimately show ?thesis using to len bs by (intro exI [of _ d'] exI [of _ "le16 bs"]) (simp add: get16_def)
qed

lemma inode_bytes_roundtrip_witness:
  "\<exists>d'. inode_to_bytes 128 ((demo_inode 0x8000 9000 [11, 12, 13])\<lparr>i_uid := 5, i_gid := 6\<rparr>) (replicate 4096 0) = Some d'
    \<and> map_option i_gid (inode_from_bytes 0x9000 128 d' (demo_inode 0 0 [])) = Some 5"
  using inode_bytes_roundtrip [of 128 "replicate 4096 0" "(demo_inode 0x8000 9000 [11, 12, 13])\<lparr>i_uid := 5, i_gid := 6\<rparr>"
      "0x9000" "demo_inode 0 0 []"]
  by (auto simp: demo_inode_def)

section \<open>The search in a bitmap\<close>

definition bit_word :: "uchar list \<Rightarrow> nat \<Rightarrow> uint" where
  "bit_word bits k = le32 (take 4 (drop (4 * k) bits))"

lemma get_bit_word: "4 * (k + 1) \<le> length bits \<Longrightarrow> get32 (4 * int k) bits = Some (bit_word bits k)"
  by (simp add: get32_def get_bytes_def bit_word_def nat_mult_distrib)

text \<open>\<open>ffs\<close> shifts nothing: it ends only when the lowest bit is set.\<close>

lemma ffs_loop_returns: "ffs_loop word i = Some y \<Longrightarrow> word AND 1 \<noteq> 0"
  by (rule ffs_loop.raw_induct [where P = "\<lambda>word i y. word AND 1 \<noteq> 0"]) (auto split: if_splits)

lemma and_one_bit: "word AND 1 = (0 :: uint) \<longleftrightarrow> \<not> bit word 0"
  by (simp add: and_one_eq even_iff_mod_2_eq_zero bit_0)

lemma ffs_eq:
  assumes "word \<noteq> 0"
  shows "ffs word = (if bit word 0 then Some 1 else None)"
proof (cases "bit word 0")
  case True
  then show ?thesis using assms by (simp add: ffs_def) (subst ffs_loop.simps, simp add: and_one_bit)
next
  case False
  then have "ffs_loop word 1 = None" using ffs_loop_returns [of word 1] and_one_bit by (cases "ffs_loop word 1") auto
  then show ?thesis using assms False by (simp add: ffs_def)
qed

lemma zero_bit_loop_eq:
  assumes "unat (sz div 32) * 4 \<le> length bits"
  shows "i \<le> unat (sz div 32) \<Longrightarrow> zero_bit_loop bits sz (of_nat i) =
    (case find (\<lambda>k. bit_word bits k \<noteq> - 1) [i..<unat (sz div 32)] of
       None \<Rightarrow> Some sz
     | Some k \<Rightarrow> if bit (bit_word bits k) 0 then None else Some (32 * of_nat k + 1))"
proof (induction "unat (sz div 32) - i" arbitrary: i)
  case 0
  then have "i = unat (sz div 32)" by simp
  then show ?case by (subst zero_bit_loop.simps) simp
next
  case (Suc n)
  then have i: "i < unat (sz div 32)" by simp
  then have lt: "(of_nat i :: uint) < sz div 32" by (simp add: word_less_nat_alt unat_of_nat)
  have "i < 2 ^ 32" using i unsigned_less [of "sz div 32", where ?'a = nat] by simp
  then have u: "uint (of_nat i :: uint) = int i" by (simp add: unsigned_of_nat take_bit_nat_eq_self)
  have up: "[i..<unat (sz div 32)] = i # [Suc i..<unat (sz div 32)]" using i by (simp add: upt_conv_Cons)
  have g: "get32 (4 * uint (of_nat i :: uint)) bits = Some (bit_word bits i)"
    unfolding u using get_bit_word [of i bits] i assms by simp
  show ?case
  proof (cases "bit_word bits i = - 1")
    case True
    then show ?thesis using Suc.hyps(1) [of "Suc i"] Suc.hyps(2) i lt g up by (subst zero_bit_loop.simps) (simp add: add.commute)
  next
    case False
    then have nz: "NOT (bit_word bits i) \<noteq> 0" by (metis bit.compl_zero bit.double_compl)
    from ffs_eq [OF nz] show ?thesis
      using False nz lt g up by (subst zero_bit_loop.simps) (simp add: bit_not_iff mult.commute)
  qed
qed

text \<open>C34: The search for a free bit looks at the first word that is not full.  It returns the second
  bit of that word when the first is free, never returns when the first is taken, and reports the
  size when all words are full; only an eighth of the map is looked at, since the size is in bytes.\<close>

theorem find_first_zero_bit_result:
  assumes "unat (sz div 32) * 4 \<le> length bits"
  shows "find_first_zero_bit bits sz = (case find (\<lambda>k. bit_word bits k \<noteq> - 1) [0..<unat (sz div 32)] of
      None \<Rightarrow> Some sz
    | Some k \<Rightarrow> if bit (bit_word bits k) 0 then None else Some (32 * of_nat k + 1))"
  using zero_bit_loop_eq [OF assms, of 0] by (simp add: find_first_zero_bit_def)

lemma find_first_zero_bit_result_witness:
  "find_first_zero_bit [0xff, 0xff, 0xff, 0xff, 0xf0, 0, 0, 0] 64 = Some 33
   \<and> find_first_zero_bit [0xff, 0xff, 0xff, 0xff, 0x01, 0, 0, 0] 64 = None"
proof -
  have w: "bit_word [0xff, 0xff, 0xff, 0xff, 0xf0, 0, 0, 0] 0 = - 1" "bit_word [0xff, 0xff, 0xff, 0xff, 0xf0, 0, 0, 0] 1 = 0xf0"
    "bit_word [0xff, 0xff, 0xff, 0xff, 0x01, 0, 0, 0] 0 = - 1" "bit_word [0xff, 0xff, 0xff, 0xff, 0x01, 0, 0, 0] 1 = 1"
    by code_simp+
  have s: "unat ((64 :: uint) div 32) = 2" by simp
  have u: "[0..<2] = [0, 1 :: nat]" by (simp add: upt_rec)
  show ?thesis
    using find_first_zero_bit_result [of 64 "[0xff, 0xff, 0xff, 0xff, 0xf0, 0, 0, 0]"]
      find_first_zero_bit_result [of 64 "[0xff, 0xff, 0xff, 0xff, 0x01, 0, 0, 0]"]
    by (simp add: s u w [simplified])
qed

section \<open>Marking a bit\<close>

definition map_bit :: "uchar list \<Rightarrow> nat \<Rightarrow> bool" where
  "map_bit bits i \<longleftrightarrow> bit (bits ! (i div 8)) (i mod 8)"

lemma set_bit_eq:
  assumes "unat index div 8 < length bits"
  shows "set_bit bits index flag = Some (bits[unat index div 8 :=
    bits ! (unat index div 8) OR (if flag = 1 then push_bit (unat index mod 8) 1 else 0)])"
proof -
  have u: "uint (index div 8) = int (unat index div 8)" "unat (index mod 8) = unat index mod 8"
    by (simp_all add: unat_div unat_mod uint_nat)
  have "get_bytes (int k) 1 xs = Some [xs ! k]" if "k < length xs" for k and xs :: "uchar list"
    using that by (simp add: get_bytes_def Cons_nth_drop_Suc [OF that, symmetric])
  moreover have "put_bytes (int k) [v] xs = Some (xs[k := v])" if "k < length xs" for k v and xs :: "uchar list"
    using that by (simp add: put_bytes_def upd_conv_take_nth_drop)
  ultimately show ?thesis using assms by (simp add: set_bit_def get8_def u)
qed

text \<open>C33: Marking sets the bit of the given number and no other; a call that is to clear it changes
  nothing, so a block or an inode that was marked once is never free again.\<close>

theorem set_bit_marks:
  assumes "unat index div 8 < length bits"
  shows "\<exists>bits'. set_bit bits index flag = Some bits' \<and> length bits' = length bits
    \<and> (\<forall>i < 8 * length bits. map_bit bits' i \<longleftrightarrow> map_bit bits i \<or> flag = 1 \<and> i = unat index)"
proof -
  define k where "k = unat index div 8"
  define j where "j = unat index mod 8"
  have ix: "unat index = 8 * k + j" "j < 8" by (simp_all add: k_def j_def)
  let ?b = "bits[k := bits ! k OR (if flag = 1 then push_bit j 1 else 0)]"
  have "map_bit ?b i \<longleftrightarrow> map_bit bits i \<or> flag = 1 \<and> i = unat index" if "i < 8 * length bits" for i
  proof (cases "i div 8 = k")
    case True
    then have "i = 8 * k + i mod 8" using mult_div_mod_eq [of 8 i] by simp
    then have "i = unat index \<longleftrightarrow> i mod 8 = j" using ix(1) by linarith
    then show ?thesis
      using True that ix(2) by (auto simp: map_bit_def bit_or_iff bit_exp_iff nth_list_update)
  next
    case False
    then have "i \<noteq> unat index" using ix by auto
    then show ?thesis using False by (simp add: map_bit_def)
  qed
  moreover have "set_bit bits index flag = Some ?b"
    using set_bit_eq [OF assms] by (simp only: k_def j_def)
  ultimately show ?thesis by (metis length_list_update)
qed

lemma set_bit_marks_witness:
  "\<exists>b. set_bit [0, 0] 9 1 = Some b \<and> map_bit b 9 \<and> \<not> map_bit b 8 \<and> set_bit b 9 0 = Some b"
proof -
  obtain b where b: "set_bit [0, 0] 9 1 = Some b" "length b = 2" "\<forall>i < 16. map_bit b i \<longleftrightarrow> map_bit [0, 0] i \<or> i = 9"
    using set_bit_marks [of 9 "[0, 0]" 1] by auto
  have "set_bit b 9 0 = Some b" using b(2) by (simp add: set_bit_eq)
  moreover have "map_bit b 9" "\<not> map_bit b 8"
    using b(3) [rule_format, of 9] b(3) [rule_format, of 8] by (simp_all add: map_bit_def)
  ultimately show ?thesis using b(1) by blast
qed

section \<open>Paths\<close>

text \<open>The components the loop over a path visits, each with the flag it is visited with.\<close>

lemma iget_name_shorter:
  assumes "iget_name path e = Some (rest, name, e')"
  shows "length rest < length path"
proof -
  let ?p = "dropWhile (\<lambda>c. c = SLASH) path" and ?q = "\<lambda>p. take (MAX_NAME_LEN - 1) (takeWhile (\<lambda>c. c \<noteq> SLASH) p)"
  have r: "rest = dropWhile (\<lambda>c. c = SLASH) (drop (length (?q ?p)) ?p)" and ne: "path \<noteq> []"
    using assms by (auto simp: iget_name_def Let_def split: if_splits)
  show ?thesis
  proof (cases "?p = []")
    case True
    then have "rest = []" unfolding r by (simp only: drop_Nil dropWhile.simps)
    then show ?thesis using ne by simp
  next
    case False
    then have "hd ?p \<noteq> SLASH" by (rule hd_dropWhile)
    then have "length (?q ?p) > 0" using False by (cases ?p) (simp_all add: MAX_NAME_LEN_def)
    then have "length (drop (length (?q ?p)) ?p) < length ?p" using False by simp
    moreover have "length rest \<le> length (drop (length (?q ?p)) ?p)" unfolding r by (rule length_dropWhile_le)
    moreover have "length ?p \<le> length path" by (rule length_dropWhile_le)
    ultimately show ?thesis by linarith
  qed
qed

function path_steps :: "uchar list \<Rightarrow> int \<Rightarrow> (uchar list \<times> int) list" where
  "path_steps path e = (case iget_name path e of
     None \<Rightarrow> [] | Some (rest, name, e') \<Rightarrow> (name, e') # path_steps rest e')"
  by pat_completeness auto

termination by (relation "measure (length \<circ> fst)") (auto dest: iget_name_shorter)

declare path_steps.simps [simp del]

text \<open>The walk as a recursion over these components.\<close>

fun walk_steps ::
    "nat \<Rightarrow> (uchar list \<times> int) list \<Rightarrow> iref option \<Rightarrow> ('d, 'a) fsys_scheme \<Rightarrow> (('d, 'a) fsys_scheme \<times> iref option) option" where
  "walk_steps f [] inode s = Some (s, inode)"
| "walk_steps f ((name, e) # steps) inode s = do {
     (s, found) \<leftarrow> find_inode_in_dir f inode name e s;
     case found of
       None \<Rightarrow> Some (s, None)
     | Some i \<Rightarrow> do {
         _ \<leftarrow> the_inode i s;
         walk_steps f steps found (upd_inode i (\<lambda>t. t\<lparr>i_parent := inode\<rparr>) s) } }"

lemma walk_path_steps: "walk_path f path inode e s = walk_steps f (path_steps path e) inode s"
proof (induction path e arbitrary: inode s rule: path_steps.induct)
  case (1 path e)
  show ?case
  proof (cases "iget_name path e")
    case None
    then show ?thesis by (simp add: path_steps.simps walk_path.simps)
  next
    case (Some r)
    then obtain rest name e' where r: "iget_name path e = Some (rest, name, e')" by (cases r) auto
    note ih = 1 [OF r refl refl]
    show ?thesis
    proof (cases "find_inode_in_dir f inode name e' s")
      case (Some res)
      then show ?thesis
        by (cases res; cases "snd res") (simp_all add: walk_path.simps [of f path] path_steps.simps [of path] r ih)
    qed (simp add: walk_path.simps [of f path] path_steps.simps [of path] r)
  qed
qed

definition slashed :: "uchar list list \<Rightarrow> uchar list" where
  "slashed cs = concat (map (\<lambda>c. SLASH # c) cs)"

definition component :: "uchar list \<Rightarrow> bool" where
  "component c \<longleftrightarrow> c \<noteq> [] \<and> SLASH \<notin> set c \<and> length c < 64"

lemma iget_name_component:
  assumes "component c"
  shows "iget_name (c @ slashed cs) e = Some (dropWhile (\<lambda>c. c = SLASH) (slashed cs), c, if cs = [] then e else 0)"
    and "iget_name (SLASH # c @ slashed cs) e = Some (dropWhile (\<lambda>c. c = SLASH) (slashed cs), c, if cs = [] then e else 0)"
proof -
  obtain x xs where c: "c = x # xs" "x \<noteq> SLASH" using assms by (cases c) (auto simp: component_def)
  have tw: "takeWhile (\<lambda>c. c \<noteq> SLASH) (c @ slashed cs) = c"
    using assms by (cases cs) (auto simp: component_def slashed_def takeWhile_append takeWhile_eq_all_conv)
  have d: "dropWhile (\<lambda>c. c = SLASH) (c @ slashed cs) = c @ slashed cs" using c by simp
  have e: "dropWhile (\<lambda>c. c = SLASH) (slashed cs) = slashed cs \<longleftrightarrow> cs = []"
  proof (cases cs)
    case (Cons a list)
    have "length (dropWhile (\<lambda>c. c = SLASH) (a @ slashed list)) < length (slashed cs)"
      using length_dropWhile_le [of "\<lambda>c. c = SLASH" "a @ slashed list"] Cons by (simp add: slashed_def)
    moreover have "dropWhile (\<lambda>c. c = SLASH) (slashed cs) = dropWhile (\<lambda>c. c = SLASH) (a @ slashed list)"
      using Cons by (simp add: slashed_def)
    ultimately show ?thesis using Cons by auto
  qed (simp add: slashed_def)
  show "iget_name (c @ slashed cs) e = Some (dropWhile (\<lambda>c. c = SLASH) (slashed cs), c, if cs = [] then e else 0)"
    using assms d tw e by (simp add: iget_name_def Let_def component_def MAX_NAME_LEN_def)
  show "iget_name (SLASH # c @ slashed cs) e = Some (dropWhile (\<lambda>c. c = SLASH) (slashed cs), c, if cs = [] then e else 0)"
    using assms d tw e by (simp add: iget_name_def Let_def component_def MAX_NAME_LEN_def)
qed

lemma path_steps_components:
  assumes "\<forall>c \<in> set (c # cs). component c"
  shows "path_steps (c @ slashed cs) e = (c, if cs = [] then e else 0) # map (\<lambda>c. (c, 0)) cs"
    and "path_steps (SLASH # c @ slashed cs) e = (c, if cs = [] then e else 0) # map (\<lambda>c. (c, 0)) cs"
proof -
  have rest: "path_steps (dropWhile (\<lambda>c. c = SLASH) (slashed cs)) (if cs = [] then e else 0) = map (\<lambda>c. (c, 0)) cs" for e
    using assms
  proof (induction cs arbitrary: c e)
    case Nil
    then show ?case by (simp add: slashed_def path_steps.simps iget_name_def)
  next
    case (Cons b cs)
    then have b: "component b" by simp
    have "dropWhile (\<lambda>c. c = SLASH) (slashed (b # cs)) = b @ slashed cs"
      using b by (cases b) (auto simp: slashed_def component_def)
    moreover have "(if cs = [] then 0 else 0 :: int) = 0" by simp
    ultimately show ?case
      using Cons.IH [of b 0] Cons.prems iget_name_component(1) [OF b, of cs 0] by (simp add: path_steps.simps [of "b @ slashed cs"])
  qed
  show "path_steps (c @ slashed cs) e = (c, if cs = [] then e else 0) # map (\<lambda>c. (c, 0)) cs"
    using iget_name_component(1) [of c cs e] assms rest [of e] by (simp add: path_steps.simps [of "c @ slashed cs"])
  show "path_steps (SLASH # c @ slashed cs) e = (c, if cs = [] then e else 0) # map (\<lambda>c. (c, 0)) cs"
    using iget_name_component(2) [of c cs e] assms rest [of e] by (simp add: path_steps.simps [of "SLASH # c @ slashed cs"])
qed

text \<open>C23: A path \<open>/c1/.../cn\<close> is looked up component by component from the root directory, and the
  look-up of each component is told that it may create a file only when the path has a single
  component: the flag that marks the last one is cleared at the first slash and not set again.\<close>

theorem find_inode_by_path_components:
  assumes "\<forall>c \<in> set cs. component c"
  shows "find_inode_by_path f (slashed cs) s = do {
     block \<leftarrow> file_super f s;
     (s, root) \<leftarrow> iget_inode block 2 s;
     walk_steps f (map (\<lambda>c. (c, if length cs = 1 then 1 else 0)) cs) root s }"
proof -
  have "path_steps (slashed cs) 1 = map (\<lambda>c. (c, if length cs = 1 then 1 else 0)) cs"
  proof (cases cs)
    case (Cons c ds)
    then show ?thesis using path_steps_components(2) [of c ds 1] assms by (simp add: slashed_def)
  qed (simp add: slashed_def path_steps.simps iget_name_def)
  then show ?thesis by (simp add: find_inode_by_path_def walk_path_steps)
qed

lemma find_inode_by_path_components_witness:
  "find_inode_by_path 0 [0x2f, 0x62, 0x2f, 0x63] demo_fs = do {
     (s, root) \<leftarrow> iget_inode 0x9000 2 demo_fs;
     walk_steps 0 [([0x62], 0), ([0x63], 0)] root s }"
proof -
  have "file_super 0 demo_fs = Some 0x9000"
    by (simp add: file_super_def the_file_def demo_fs_fields demo_file_def no_file_def demo_mount_def fetch_def)
  then show ?thesis
    using find_inode_by_path_components [of "[[0x62], [0x63]]" 0 demo_fs]
    by (simp add: component_def slashed_def SLASH_def)
qed

end
