(* ===== verification/Fs_Facts.thy ===== *)
theory Fs_Facts
  imports Ext2_IO
begin

text \<open>
  Facts on the file calls of \<open>source/fs/fs.c\<close>: reading composed down to the medium, calls with bad
  descriptors, the choice of the file system, write-back of the mount table.
\<close>

section \<open>Reading through a descriptor\<close>

text \<open>Descriptor \<open>fd\<close> of the running process is the open file \<open>f\<close> on \<open>fs\<close>, whose lock is free.\<close>

definition fd_ready :: "int \<Rightarrow> nat \<Rightarrow> fs_t \<Rightarrow> ('d, 'a) fsys_scheme \<Rightarrow> bool" where
  "fd_ready fd f fs s \<longleftrightarrow> 0 \<le> fd \<and> fd < MAX_OPEN_FILES \<and> fd_file fd s = Some (Some f)
     \<and> file_fs f s = Some fs \<and> fs_ops fs = Some Ext2Op \<and> fs_mutex fs \<noteq> 0
     \<and> idle_mutex (unat (fs_mutex fs)) s \<and> unat (fs_mutex fs) \<notin> {DISK_MUTEX, BUFFER_MUTEX}"

lemma lock_fs_idle:
  assumes "fs_mutex fs \<noteq> 0" "idle_mutex (unat (fs_mutex fs)) s"
  shows "lock_fs fs s = Some (hold (unat (fs_mutex fs)) s)"
  using assms by (simp add: lock_fs_def lock_idle)

lemma unlock_fs_hold:
  assumes "fs_mutex fs \<noteq> 0" "idle_mutex (unat (fs_mutex fs)) s"
    and "mutexes s' = mutexes (hold (unat (fs_mutex fs)) s)" "links s' = links s" "current s' = current s"
  shows "unlock_fs fs s' = Some (s'\<lparr>mutexes := mutexes s\<rparr>)"
  using assms by (simp add: unlock_fs_def unlock_hold)

lemma hold_fsys [simp]:
  "file_table (hold m s) = file_table s" "fs_table (hold m s) = fs_table s" "supers (hold m s) = supers s"
  "dev_table (hold m s) = dev_table s" "part_info (hold m s) = part_info s" "drv (hold m s) = drv s"
  "ata (hold m s) = ata s" "bh_size (hold m s) = bh_size s" "pmem (hold m s) = pmem s"
  "free_list (hold m s) = free_list s" "sem_count (hold m s) = sem_count s"
  by (simp_all add: hold_def)

lemma idle_hold: "m \<noteq> k \<Longrightarrow> idle_mutex m (hold k s) = idle_mutex m s"
  by (simp add: idle_mutex_def hold_def)

lemma fs_ready_hold:
  assumes "m \<notin> {DISK_MUTEX, BUFFER_MUTEX}"
  shows "fs_ready info block k (hold m s) = fs_ready info block k s"
proof -
  have "disk_of block (hold m s) = disk_of block s" by (rule disk_of_cong) simp_all
  moreover have "disk_idle (hold m s) = disk_idle s" "idle_mutex BUFFER_MUTEX (hold m s) = idle_mutex BUFFER_MUTEX s"
    using assms idle_hold [of DISK_MUTEX m s] idle_hold [of BUFFER_MUTEX m s] by (auto simp: disk_idle_def quiet_def)
  moreover have "bucket_room k (hold m s) = bucket_room k s" "heap_room j (hold m s) = heap_room j s" for j
    by (simp_all add: bucket_room_def heap_room_def)
  ultimately show ?thesis by (simp add: fs_ready_def)
qed

lemma file_ready_hold: "file_ready block f i t (hold m s) = file_ready block f i t s"
proof -
  have "the_inode i (hold m s) = the_inode i s" by (rule the_inode_cong) simp
  then show ?thesis by (simp add: file_ready_def file_super_def the_file_def)
qed

lemma sys_read_bytes:
  fixes s :: "(ide, 'a) fsys_scheme" and n pos :: int
  assumes fd: "fd_ready fd f fs s" and ready: "fs_ready info block 2 s" and opn: "file_ready block f i t s"
    and pos: "f_pos (file_table s ! f) = pos" "0 \<le> pos" "pos \<le> uint (i_size t)" "pos < 49152" "uint (i_size t) \<le> 49152"
    and cur: "f_cur_block (file_table s ! f) = pos div 4096" and n: "0 \<le> n" "n \<le> 4096"
  defines "m \<equiv> min n (uint (i_size t) - pos)"
  shows "\<exists>s'. sys_read fd n s = Some (s', m, take (nat m) (drop (nat pos) (file_data info (drv s) t)))
    \<and> f_pos (file_table s' ! f) = pos + m \<and> medium (drv s') = medium (drv s) \<and> mutexes s' = mutexes s"
proof -
  note d = fd [unfolded fd_ready_def]
  let ?h = "hold (unat (fs_mutex fs)) s"
  obtain s1 where s1: "ext2_read f n ?h = Some (s1, m, take (nat m) (drop (nat pos) (file_data info (drv s) t)))"
    "f_pos (file_table s1 ! f) = pos + m" "medium (drv s1) = medium (drv s)" "keeps ?h (s1\<lparr>file_table := file_table ?h\<rparr>)"
    using ext2_read_bytes [of info block 0 ?h f i t pos n] ready opn pos cur n d
    by (auto simp: fs_ready_hold file_ready_hold m_def)
  have "unlock_fs fs s1 = Some (s1\<lparr>mutexes := mutexes s\<rparr>)"
    using d s1(4) by (intro unlock_fs_hold) (simp_all add: keeps_def)
  moreover have "lock_fs fs s = Some ?h" using d by (intro lock_fs_idle) simp_all
  ultimately show ?thesis using d s1(1-3) by (simp add: sys_read_def)
qed


definition demo_open :: "ide fsys" where
  "demo_open = demo_fs\<lparr>current := Some 0, tasks := (\<lambda>_. boot_task\<lparr>open_file_table := Some 0 # replicate 127 None\<rparr>)\<rparr>"

lemma demo_open_ready:
  "fs_ready demo_part 0x9000 2 demo_open" "file_ready 0x9000 0 (0x9000, 0, 1) demo_inode1 demo_open" "fd_ready 0 0 demo_mount demo_open"
proof -
  show "fs_ready demo_part 0x9000 2 demo_open"
    using demo_fs_ready [of 2] fs_ready_cong [of demo_open demo_fs] by (simp add: demo_open_def)
  have "the_inode i demo_open = the_inode i demo_fs" for i by (rule the_inode_cong) (simp add: demo_open_def)
  then show "file_ready 0x9000 0 (0x9000, 0, 1) demo_inode1 demo_open"
    using demo_file_ready by (simp add: file_ready_def file_super_def the_file_def demo_open_def)
  show "fd_ready 0 0 demo_mount demo_open"
    using demo_fs_idle(2)
    by (simp add: fd_ready_def fd_file_def file_fs_def the_file_def demo_open_def demo_fs_fields demo_mount_def demo_file_def
        no_file_def MAX_OPEN_FILES_def DISK_MUTEX_def BUFFER_MUTEX_def fetch_def idle_mutex_def)
qed


section \<open>Bad descriptors\<close>

text \<open>A descriptor that is not open for the process is refused by every call with \<open>-1\<close> and no
  effect.  But the range tested is the one of the system's table of open files: for a
  descriptor between the size of the process's table and that bound the calls read behind the
  process's table.\<close>

theorem bad_descriptors_refused:
  assumes cur: "current s = Some t" and len: "length (open_file_table (tasks s t)) = TASK_OPEN_MAX_FILES"
    and bad: "0 \<le> fd \<and> fd < int TASK_OPEN_MAX_FILES \<longrightarrow> open_file_table (tasks s t) ! nat fd = None"
  defines "outside \<equiv> int TASK_OPEN_MAX_FILES \<le> fd \<and> fd < MAX_OPEN_FILES"
  shows "sys_read fd n s = (if outside then None else Some (s, - 1, []))
    \<and> sys_write fd data n s = (if outside then None else Some (s, - 1))
    \<and> sys_seek fd off s = (if outside then None else Some (s, - 1))
    \<and> sys_close fd s = (if outside then None else Some (s, - 1))"
  using assms
  by (simp add: sys_read_def sys_write_def sys_seek_def sys_close_def fd_file_def fetch_def TASK_OPEN_MAX_FILES_def MAX_OPEN_FILES_def)

lemma bad_descriptors_refused_witness:
  "sys_write 3 [1] 1 demo_open = Some (demo_open, - 1) \<and> sys_close 128 demo_open = None"
proof -
  have d: "current demo_open = Some 0" "length (open_file_table (tasks demo_open 0)) = TASK_OPEN_MAX_FILES"
    by (simp_all add: demo_open_def TASK_OPEN_MAX_FILES_def)
  have "open_file_table (tasks demo_open 0) ! nat 3 = None" by (simp add: demo_open_def nth_Cons')
  then show ?thesis
    using bad_descriptors_refused [OF d, of 3 1 "[1]" 0] bad_descriptors_refused [OF d, of 128 1 "[1]" 0]
    by (simp add: TASK_OPEN_MAX_FILES_def MAX_OPEN_FILES_def)
qed

section \<open>Opening with every descriptor in use\<close>

lemma first_free_fd_full: "None \<notin> set xs \<Longrightarrow> first_free_fd i xs = None"
proof (induction xs arbitrary: i)
  case (Cons x xs)
  then show ?case by (cases x) auto
qed simp

lemma alloc_fd_full:
  assumes "current s = Some t" "None \<notin> set (take TASK_OPEN_MAX_FILES (open_file_table (tasks s t)))"
  shows "task_alloc_fd f s = Some (- 1, s)"
  using assms by (simp add: task_alloc_fd_def first_free_fd_full)

text \<open>An \<open>open\<close> or \<open>unlink\<close> that finds no free descriptor returns \<open>-ETMFILES\<close>, but the entry it took
  from the system's table of open files stays taken: every such call uses up the lowest
  free entry for good.\<close>

theorem open_without_descriptor_leaks:
  assumes cur: "current s = Some t" "None \<notin> set (take TASK_OPEN_MAX_FILES (open_file_table (tasks s t)))"
    and files: "idle_mutex FILE_MUTEX s" "length (file_table s) = 2048" "free_files s = i # rest"
  shows "\<exists>s'. sys_open name mode s = Some (s', - ETMFILES) \<and> sys_unlink name s = Some (s', - ETMFILES)
    \<and> free_files s' = rest \<and> tasks s' = tasks s"
proof -
  let ?s = "upd_file i (\<lambda>x. x\<lparr>f_ref := 1\<rparr>) s"
  have a: "alloc_file s = Some (?s, i)" using alloc_file_free [OF files(1,2)] files(3) by simp
  have k: "current ?s = current s" "tasks ?s = tasks s" by (simp_all add: upd_file_def)
  then have fd: "task_alloc_fd i ?s = Some (- 1, ?s)" using cur by (intro alloc_fd_full) simp_all
  let ?free = "\<lambda>j. f_ref (file_table s ! j) = 0"
  have "i \<in> set (free_files s)" using files(3) by simp
  then have i: "i < length (file_table s)" by (simp add: free_files_def)
  have "free_files ?s = filter (\<lambda>j. j \<noteq> i) (free_files s)"
    using i by (auto simp: free_files_def nth_list_update intro: filter_cong)
  also have "\<dots> = rest"
  proof -
    have "distinct (free_files s)" by (simp add: free_files_def)
    then have "i \<notin> set rest" using files(3) by simp
    then show ?thesis using files(3) by (auto simp: filter_id_conv)
  qed
  finally show ?thesis using a fd k by (intro exI [of _ ?s]) (simp add: sys_open_def sys_unlink_def)
qed

lemma open_without_descriptor_leaks_witness:
  "\<exists>s. sys_open [SLASH] 0 (demo_fs\<lparr>current := Some 0, tasks := (\<lambda>_. boot_task\<lparr>open_file_table := replicate 128 (Some 0)\<rparr>)\<rparr>)
     = Some (s, - ETMFILES) \<and> free_files s = [2..<2048]"
proof -
  let ?s = "demo_fs\<lparr>current := Some 0, tasks := (\<lambda>_. boot_task\<lparr>open_file_table := replicate 128 (Some 0)\<rparr>)\<rparr>"
  have "free_files ?s = 1 # [2..<2048]" "length (file_table ?s) = 2048" "idle_mutex FILE_MUTEX ?s"
    using demo_files demo_fs_idle(2) by (simp_all add: free_files_def idle_mutex_def del: upt_rec_numeral)
  then show ?thesis using open_without_descriptor_leaks [of ?s 0 1 "[2..<2048]" "[SLASH]" 0] by auto
qed

section \<open>The mount table\<close>

lemma lock_unmounted: "fs_mutex fs = 0 \<Longrightarrow> lock_fs fs s = None"
  by (simp add: lock_fs_def)

lemma sync_all_unmounted: "fs \<in> set fss \<Longrightarrow> fs_mutex fs = 0 \<Longrightarrow> sync_all fss s = None"
proof (induction fss arbitrary: s)
  case (Cons a fss)
  then show ?case
    by (cases "fs = a") (auto simp: lock_unmounted bind_eq_None_conv split: fs_op.splits prod.splits)
qed simp

lemma first_free_fd_some: "None \<in> set xs \<Longrightarrow> \<exists>j. first_free_fd i xs = Some j"
proof (induction xs arbitrary: i)
  case (Cons x xs)
  then show ?case by (cases x) auto
qed simp

lemma alloc_fd_some:
  assumes "current s = Some t" "None \<in> set (take TASK_OPEN_MAX_FILES (open_file_table (tasks s t)))"
  shows "\<exists>j g. task_alloc_fd f s = Some (int j, upd_task t g s)"
  using first_free_fd_some [OF assms(2), of 0] assms(1) by (auto simp: task_alloc_fd_def)

lemma fs_for_cong: "fs_table s' = fs_table s \<Longrightarrow> fs_root s' = fs_root s \<Longrightarrow> fs_for name s' = fs_for name s"
  by (simp add: fs_for_def cong: option.case_cong)

lemma alloc_file_fields:
  assumes "idle_mutex FILE_MUTEX s" "length (file_table s) = 2048"
  shows "\<exists>i g. alloc_file s = Some (upd_file i g s, i)"
proof (cases "free_files s")
  case Nil
  moreover have "upd_file 2047 (\<lambda>x. x) s = s" by (simp add: upd_file_def)
  ultimately show ?thesis using alloc_file_free [OF assms] by (intro exI [of _ 2047] exI [of _ "\<lambda>x. x"]) simp
next
  case (Cons i rest)
  then show ?thesis using alloc_file_free [OF assms] by auto
qed

text \<open>C40: A path that starts with a slash is looked up in the root file system, whatever else is
  mounted; any other path finds the first entry that is not in use, because an empty mount
  point matches every name, and \<open>open\<close> and \<open>unlink\<close> then follow its null pointers.\<close>

theorem mount_lookup:
  assumes table: "fs_table s = r # e # rest" "mount_point r = [SLASH]" "mount_point e = []" "fs_mutex e = 0"
    and fd: "current s = Some t" "None \<in> set (take TASK_OPEN_MAX_FILES (open_file_table (tasks s t)))"
    and files: "idle_mutex FILE_MUTEX s" "length (file_table s) = 2048"
  shows "fs_for name s = Some (if take 1 name = [SLASH] then 0 else 1)
    \<and> (take 1 name \<noteq> [SLASH] \<longrightarrow> sys_open name mode s = None \<and> sys_unlink name s = None)"
proof -
  have lookup: "fs_for name s = Some (if take 1 name = [SLASH] then 0 else 1)"
    using table by (cases name) (simp_all add: fs_for_def MAX_MOUNT_def same_start_def SLASH_def)
  obtain i g where a: "alloc_file s = Some (upd_file i g s, i)" using alloc_file_fields [OF files] by blast
  let ?s = "upd_file i g s"
  obtain j h where d: "task_alloc_fd i ?s = Some (int j, upd_task t h ?s)"
    using alloc_fd_some [of ?s t i] fd by (auto simp: upd_file_def)
  have "fs_for name (upd_task t h ?s) = fs_for name s" by (rule fs_for_cong) (simp_all add: upd_task_def upd_file_def)
  moreover have "fs_table (upd_task t h ?s) = fs_table s" by (simp add: upd_task_def)
  ultimately show ?thesis
    using lookup a d table by (auto simp: sys_open_def sys_unlink_def lock_unmounted fetch_def)
qed

lemma mount_lookup_witness:
  "fs_for [SLASH, 0x61] demo_open = Some 0 \<and> sys_open [0x61] 0 demo_open = None"
proof -
  have "fs_table demo_open = demo_mount # no_fs # replicate 8 no_fs"
    by (simp add: demo_open_def demo_fs_fields numeral_eq_Suc)
  moreover have "mount_point demo_mount = [SLASH]" "mount_point no_fs = []" "fs_mutex no_fs = 0"
    by (simp_all add: demo_mount_def no_fs_def SLASH_def)
  moreover have "current demo_open = Some 0" "None \<in> set (take TASK_OPEN_MAX_FILES (open_file_table (tasks demo_open 0)))"
    "idle_mutex FILE_MUTEX demo_open" "length (file_table demo_open) = 2048"
    using demo_fs_idle(2) demo_files(1) by (simp_all add: demo_open_def TASK_OPEN_MAX_FILES_def idle_mutex_def)
  ultimately have m: "fs_for name demo_open = Some (if take 1 name = [SLASH] then 0 else 1)
    \<and> (take 1 name \<noteq> [SLASH] \<longrightarrow> sys_open name 0 demo_open = None \<and> sys_unlink name demo_open = None)" for name
    by (intro mount_lookup)
  show ?thesis using m [of "[SLASH, 0x61]"] m [of "[0x61]"] by (simp add: SLASH_def)
qed

text \<open>Synchronising everything goes through every entry of the mount table, and an entry that is not
  in use has no lock: the call does not return unless all ten are mounted.\<close>

theorem sys_sync_unmounted:
  assumes "fs \<in> set (take MAX_MOUNT (fs_table s))" "fs_mutex fs = 0"
  shows "sys_sync s = None"
  using sync_all_unmounted [OF assms, of s] by (simp add: sys_sync_def)

lemma sys_sync_unmounted_witness: "sys_sync demo_fs = None"
  using sys_sync_unmounted [of no_fs demo_fs] by (simp add: demo_fs_fields MAX_MOUNT_def no_fs_def)

end
