(* ===== verification/Fs_Types.thy ===== *)
theory Fs_Types
  imports Fs_Facts
begin

text \<open>
  Type safety of the file calls: the tables keep their sizes, open files refer to inodes and mounts
  that exist, inodes have fifteen block numbers, and buffers hold one block.  Every operation
  below the system calls keeps this, whatever the drive and the medium do.
\<close>

section \<open>What holds after a call\<close>

text \<open>\<open>P\<close> holds of every result of \<open>m\<close>, if it has one; a rule for each construct the operations are
  made of.\<close>

definition after :: "'x option \<Rightarrow> ('x \<Rightarrow> bool) \<Rightarrow> bool" where
  "after m P \<longleftrightarrow> (\<forall>x. m = Some x \<longrightarrow> P x)"

named_theorems wp and lower and keeps_typed

lemma afterI: "(\<And>x. m = Some x \<Longrightarrow> P x) \<Longrightarrow> after m P"
  by (simp add: after_def)

lemma afterD: "after m P \<Longrightarrow> m = Some x \<Longrightarrow> P x"
  by (simp add: after_def)

lemma after_bind [wp]: "after m (\<lambda>x. after (f x) P) \<Longrightarrow> after (m \<bind> f) P"
  by (auto simp: after_def bind_eq_Some_conv)

lemma after_Some [wp]: "P x \<Longrightarrow> after (Some x) P"
  and after_None [wp]: "after None P"
  by (simp_all add: after_def)

lemma after_if [wp]: "(b \<Longrightarrow> after x P) \<Longrightarrow> (\<not> b \<Longrightarrow> after y P) \<Longrightarrow> after (if b then x else y) P"
  by simp

lemma after_let [wp]: "after (f x) P \<Longrightarrow> after (Let x f) P"
  by simp

lemma after_prod: "(\<And>a b. p = (a, b) \<Longrightarrow> after (f a b) P) \<Longrightarrow> after (case_prod f p) P"
  by (cases p) simp

lemma after_pair [wp]: "after (f a b) P \<Longrightarrow> after (case_prod f (a, b)) P"
  by simp

lemma pairI [wp]: "Q a b \<Longrightarrow> case_prod Q (a, b)"
  by simp

lemma after_pairs: "after m (\<lambda>(s, r). Q s) \<Longrightarrow> (\<And>s r. Q s \<Longrightarrow> P (s, r)) \<Longrightarrow> after m P"
  by (auto simp: after_def)

lemma after_states: "after m Q \<Longrightarrow> (\<And>s. Q s \<Longrightarrow> P s) \<Longrightarrow> after m P"
  by (auto simp: after_def)

lemma after_option [wp]:
  "(x = None \<Longrightarrow> after a P) \<Longrightarrow> (\<And>y. x = Some y \<Longrightarrow> after (f y) P) \<Longrightarrow> after (case_option a f x) P"
  by (cases x) simp_all

lemma after_sum [wp]:
  "(\<And>y. x = Inl y \<Longrightarrow> after (f y) P) \<Longrightarrow> (\<And>y. x = Inr y \<Longrightarrow> after (g y) P) \<Longrightarrow> after (case_sum f g x) P"
  by (cases x) simp_all

lemma after_map [wp]: "after m (\<lambda>x. P (f x)) \<Longrightarrow> after (map_option f m) P"
  by (auto simp: after_def)

lemma after_driver [wp]: "after m P \<Longrightarrow> after (case_dev_op m x) P"
  by (cases x) (simp only: dev_op.case)

lemma after_fs [wp]: "after m P \<Longrightarrow> after (case_fs_op m x) P"
  by (cases x) (simp only: fs_op.case)

section \<open>The layers below\<close>

text \<open>The kernel, the heap and the driver do not touch the tables of the file layers.\<close>

lemma more_sem_notify: "sem_notify m s = Some s' \<Longrightarrow> kernel.more s' = kernel.more s"
  by (auto simp: sem_notify_def Let_def bind_eq_Some_conv split: if_splits dest!: more_schedule)

lemma more_at_once:
  "at_once (mutex_lock m) s = Some s' \<Longrightarrow> kernel.more s' = kernel.more s"
  "at_once (mutex_unlock m) s = Some s' \<Longrightarrow> kernel.more s' = kernel.more s"
  "at_once (sem_wait m) s = Some s' \<Longrightarrow> kernel.more s' = kernel.more s"
  by (auto simp: at_once_def mutex_lock_def mutex_unlock_def sem_wait_def Let_def bind_eq_Some_conv
      split: if_splits dest!: more_schedule)

definition same_above :: "('d, 'a) disk_scheme \<Rightarrow> ('d, 'a) disk_scheme \<Rightarrow> bool" where
  "same_above s s' \<longleftrightarrow> disk.more s' = disk.more s"

lemma same_above_refl: "same_above s s"
  by (simp add: same_above_def)

lemma same_above_upd [simp]:
  "same_above s (s'\<lparr>wait_interupt := w\<rparr>) = same_above s s'" "same_above s (s'\<lparr>drv := d\<rparr>) = same_above s s'"
  "same_above s (s'\<lparr>dcpu := c\<rparr>) = same_above s s'" "same_above s (s'\<lparr>free_list := a\<rparr>) = same_above s s'"
  "same_above s (s'\<lparr>pmem := m\<rparr>) = same_above s s'" "same_above s (upd_mem f s') = same_above s s'"
  by (simp_all add: same_above_def upd_mem_def)

lemma same_above_take [simp]: "same_above t (take_block b n s) = same_above t s"
  by (simp add: take_block_def Let_def split_beta)

lemma kernel_above: "kernel.more s'' = kernel.more s' \<Longrightarrow> same_above s s' \<Longrightarrow> same_above s s''"
  by (cases s''; cases s') (simp add: same_above_def)

lemma above_lock [lower]:
  "same_above t s \<Longrightarrow> (\<And>s'. same_above t s' \<Longrightarrow> P s') \<Longrightarrow> after (at_once (mutex_lock m) s) P"
  "same_above t s \<Longrightarrow> (\<And>s'. same_above t s' \<Longrightarrow> P s') \<Longrightarrow> after (at_once (mutex_unlock m) s) P"
  "same_above t s \<Longrightarrow> (\<And>s'. same_above t s' \<Longrightarrow> P s') \<Longrightarrow> after (at_once (sem_wait m) s) P"
  "same_above t s \<Longrightarrow> (\<And>s'. same_above t s' \<Longrightarrow> P s') \<Longrightarrow> after (sem_notify m s) P"
  by (auto simp: after_def intro: kernel_above more_at_once more_sem_notify)

lemma above_alloc_pages [THEN after_pairs, lower]:
  "same_above t s \<Longrightarrow> after (alloc_pages n s) (\<lambda>(s, r). same_above t s)"
  unfolding alloc_pages_def by (rule wp lower | rule after_prod afterI | assumption | (simp; fail))+

lemma above_kmalloc [THEN after_pairs, lower]:
  "same_above t s \<Longrightarrow> after (kmalloc n s) (\<lambda>(s, r). same_above t s)"
  unfolding kmalloc_def by (rule wp lower | rule after_prod afterI | assumption | (simp; fail))+

lemma above_ide_wait [THEN after_states, lower]:
  "same_above t s \<Longrightarrow> after (ide_wait s) (same_above t)"
  unfolding ide_wait_def do_handler_ide_def by (rule wp lower | rule afterI | assumption | (simp; fail))+

lemma above_read_sectors [THEN after_pairs, lower]:
  "same_above t s \<Longrightarrow> after (read_sectors n buf s) (\<lambda>(s, r). same_above t s)"
proof (induction n arbitrary: buf s)
  case (Suc n)
  show ?case unfolding read_sectors.simps
    by (insert Suc.prems, (rule wp lower Suc.IH [THEN after_pairs] | rule after_prod afterI | assumption | (simp; fail))+)
qed (simp add: after_def)

lemma above_write_sectors [THEN after_pairs, lower]:
  "same_above t s \<Longrightarrow> after (write_sectors n buf s) (\<lambda>(s, r). same_above t s)"
proof (induction n arbitrary: buf s)
  case (Suc n)
  show ?case unfolding write_sectors.simps
    by (insert Suc.prems, (rule wp lower Suc.IH [THEN after_pairs] | rule after_prod afterI | assumption | (simp; fail))+)
qed (simp add: after_def)

lemma above_dev_read [THEN after_pairs, lower]:
  "same_above t s \<Longrightarrow> after (dev_read dev b sz s) (\<lambda>(s, r). same_above t s)"
  unfolding dev_read_def disk_read_def by (rule wp lower | rule after_prod afterI | assumption | (simp; fail))+

lemma above_dev_write [THEN after_pairs, lower]:
  "same_above t s \<Longrightarrow> after (dev_write dev b buf sz s) (\<lambda>(s, r). same_above t s)"
  unfolding dev_write_def disk_write_def by (rule wp lower | rule after_prod afterI | assumption | (simp; fail))+

section \<open>Shapes\<close>

record shape =
  n_files :: nat
  n_mounts :: nat
  blocks :: "addr \<Rightarrow> ushort"
  groups :: "addr \<Rightarrow> (nat \<times> nat \<times> nat) list"

definition group_shape :: "group_desc_t \<Rightarrow> nat \<times> nat \<times> nat" where
  "group_shape g = (length (block_bits g), length (inode_bits g), length (inode_data g))"

definition shape_of :: "('d, 'a) fsys_scheme \<Rightarrow> shape" where
  "shape_of s = \<lparr>n_files = length (file_table s), n_mounts = length (fs_table s),
     blocks = (\<lambda>a. block_size (supers s a)), groups = (\<lambda>a. map group_shape (group_table (supers s a)))\<rparr>"

fun ref_ok :: "shape \<Rightarrow> iref \<Rightarrow> bool" where
  "ref_ok z (a, g, k) \<longleftrightarrow> a \<noteq> 0 \<and> g < length (groups z a) \<and> k < snd (snd (groups z a ! g))"

definition file_ok :: "shape \<Rightarrow> file_t \<Rightarrow> bool" where
  "file_ok z x \<longleftrightarrow> (\<forall>i. f_inode x = Some i \<longrightarrow> ref_ok z i) \<and> (\<forall>m. f_fs x = Some m \<longrightarrow> m < n_mounts z)"

definition group_ok :: "group_desc_t \<Rightarrow> bool" where
  "group_ok g \<longleftrightarrow> (\<forall>t \<in> set (inode_data g). length (i_block t) = 15)"

definition buffer_ok :: "shape \<Rightarrow> block_buffer_t \<Rightarrow> bool" where
  "buffer_ok z b \<longleftrightarrow> bb_data b = [] \<or> (\<exists>a. length (bb_data b) = unat (blocks z a))"

definition typed :: "shape \<Rightarrow> ('d, 'a) fsys_scheme \<Rightarrow> bool" where
  "typed z s \<longleftrightarrow> shape_of s = z \<and> (\<forall>x \<in> set (file_table s). file_ok z x)
     \<and> (\<forall>a. \<forall>g \<in> set (group_table (supers s a)). group_ok g) \<and> (\<forall>a. buffer_ok z (bbs s a))"

lemma typed_more: "disk.more s' = disk.more s \<Longrightarrow> typed z s' = typed z s"
  by (cases s; cases s') (simp add: typed_def shape_of_def)

lemma typed_upd [simp]:
  "typed z (s\<lparr>blinks := x\<rparr>) = typed z s" "typed z (s\<lparr>bh_size := y\<rparr>) = typed z s" "typed z (s\<lparr>raw_super := w\<rparr>) = typed z s"
  by (simp_all add: typed_def shape_of_def)

lemmas typed_updI [keeps_typed] = typed_upd [THEN iffD2]

lemma typed_upd_bb:
  "typed z s \<Longrightarrow> length (bb_data (f (bbs s a))) = length (bb_data (bbs s a)) \<Longrightarrow> typed z (upd_bb a f s)"
  by (auto simp: typed_def upd_bb_def buffer_ok_def shape_of_def simp flip: length_0_conv)

lemma typed_new_bb:
  "typed z s \<Longrightarrow> data = [] \<or> length data = unat (block_size (supers s b))
    \<Longrightarrow> typed z (upd_bb a (\<lambda>x. x\<lparr>bb_data := data\<rparr>) s)"
  by (auto simp: typed_def shape_of_def upd_bb_def buffer_ok_def)

lemma typed_upd_file:
  assumes "typed z s" "f < length (file_table s) \<Longrightarrow> file_ok z (file_table s ! f) \<Longrightarrow> file_ok z (g (file_table s ! f))"
  shows "typed z (upd_file f g s)"
proof (cases "f < length (file_table s)")
  case True
  then have "file_ok z (g (file_table s ! f))" using assms nth_mem [OF True] by (simp add: typed_def)
  then show ?thesis using assms(1)
    by (auto simp: typed_def shape_of_def upd_file_def dest!: set_update_subset_insert [THEN subsetD])
next
  case False
  then show ?thesis using assms(1) by (simp add: typed_def shape_of_def upd_file_def not_less list_update_beyond)
qed

lemma typed_upd_super:
  "typed z s \<Longrightarrow> block_size (f (supers s a)) = block_size (supers s a) \<Longrightarrow> group_table (f (supers s a)) = group_table (supers s a)
    \<Longrightarrow> typed z (upd_super a f s)"
  by (auto simp: typed_def shape_of_def upd_super_def intro!: ext split: if_splits)

lemma typed_upd_group:
  assumes "typed z s" "g < length (group_table (supers s a)) \<Longrightarrow> group_ok (group_table (supers s a) ! g)
      \<Longrightarrow> group_shape (f (group_table (supers s a) ! g)) = group_shape (group_table (supers s a) ! g)
        \<and> group_ok (f (group_table (supers s a) ! g))"
  shows "typed z (upd_group a g f s)"
proof (cases "g < length (group_table (supers s a))")
  case True
  have "\<forall>g \<in> set (group_table (supers s a)). group_ok g" using assms(1) by (simp add: typed_def)
  then have "group_ok (group_table (supers s a) ! g)" using nth_mem [OF True] by blast
  then have f: "group_shape (f (group_table (supers s a) ! g)) = group_shape (group_table (supers s a) ! g)"
    "group_ok (f (group_table (supers s a) ! g))" using assms(2) True by auto
  have "map group_shape ((group_table (supers s a))[g := f (group_table (supers s a) ! g)]) = map group_shape (group_table (supers s a))"
    using f(1) True by (simp add: map_update list_update_same_conv)
  then show ?thesis using assms(1) f(2)
    by (auto simp: typed_def shape_of_def upd_group_def upd_super_def dest!: set_update_subset_insert [THEN subsetD])
next
  case False
  then show ?thesis using assms(1)
    by (auto simp: typed_def shape_of_def upd_group_def upd_super_def not_less list_update_beyond intro!: ext split: if_splits)
qed

lemma typed_upd_inode:
  assumes "typed z s" "\<And>t. length (i_block t) = 15 \<Longrightarrow> length (i_block (f t)) = 15"
  shows "typed z (upd_inode i f s)"
proof (cases i)
  case (fields a g k)
  have "group_ok (gd\<lparr>inode_data := (inode_data gd)[k := f (inode_data gd ! k)]\<rparr>)" if "group_ok gd" for gd
  proof (cases "k < length (inode_data gd)")
    case True
    then have "length (i_block (f (inode_data gd ! k))) = 15" using that assms(2) nth_mem [OF True] by (simp add: group_ok_def)
    then show ?thesis using that by (auto simp: group_ok_def dest!: set_update_subset_insert [THEN subsetD])
  qed (use that in \<open>simp add: group_ok_def not_less list_update_beyond\<close>)
  then show ?thesis using assms(1) fields by (simp add: typed_upd_group group_shape_def)
qed

section \<open>The operations\<close>

text \<open>The state after a call to a lower layer, with the changes the file layers make.\<close>

lemma typed_above:
  assumes "same_above s s'"
  shows "typed z s' = typed z s" "bbs s' = bbs s" "supers s' = supers s"
proof -
  show "typed z s' = typed z s" using assms typed_more by (simp add: same_above_def)
  show "bbs s' = bbs s" "supers s' = supers s" using assms by (cases s; cases s'; simp add: same_above_def)+
qed

lemma typed_lock [keeps_typed]:
  "typed z s \<Longrightarrow> (\<And>s'. typed z s' \<Longrightarrow> bbs s' = bbs s \<Longrightarrow> supers s' = supers s \<Longrightarrow> P s') \<Longrightarrow> after (at_once (mutex_lock m) s) P"
  "typed z s \<Longrightarrow> (\<And>s'. typed z s' \<Longrightarrow> bbs s' = bbs s \<Longrightarrow> supers s' = supers s \<Longrightarrow> P s') \<Longrightarrow> after (at_once (mutex_unlock m) s) P"
  by (rule lower [OF same_above_refl], simp add: typed_above)+

lemma typed_lower [keeps_typed]:
  "typed z s \<Longrightarrow> (\<And>s' r. typed z s' \<Longrightarrow> bbs s' = bbs s \<Longrightarrow> supers s' = supers s \<Longrightarrow> P (s', r)) \<Longrightarrow> after (dev_read dev b sz s) P"
  "typed z s \<Longrightarrow> (\<And>s' r. typed z s' \<Longrightarrow> bbs s' = bbs s \<Longrightarrow> supers s' = supers s \<Longrightarrow> Q (s', r)) \<Longrightarrow> after (dev_write dev b buf sz s) Q"
  "typed z s \<Longrightarrow> (\<And>s' r. typed z s' \<Longrightarrow> bbs s' = bbs s \<Longrightarrow> supers s' = supers s \<Longrightarrow> R (s', r)) \<Longrightarrow> after (kmalloc n s) R"
  by (rule lower [OF same_above_refl], simp add: typed_above)+

lemma the_super_Some: "the_super a s = Some sb \<longleftrightarrow> a \<noteq> 0 \<and> sb = supers s a"
  by (auto simp: the_super_def)

lemma the_bb_Some: "the_bb a s = Some b \<longleftrightarrow> a \<noteq> 0 \<and> b = bbs s a"
  by (auto simp: the_bb_def)

lemma upd_bb_fields [simp]: "bbs (upd_bb a f s) = (bbs s)(a := f (bbs s a))" "supers (upd_bb a f s) = supers s"
  by (simp_all add: upd_bb_def)

lemma fresh_bytes_length [simp]: "length (fresh_bytes a n s) = nat n"
  by (simp add: fresh_bytes_def)

lemma put_length: "put_bytes off bs xs = Some ys \<Longrightarrow> length ys = length xs"
  "put16 off v xs = Some ys \<Longrightarrow> length ys = length xs" "put32 off w xs = Some ys \<Longrightarrow> length ys = length xs"
  by (simp_all add: put16_def put32_def put_bytes_length)

lemma typed_bget_block [THEN after_pairs, keeps_typed]:
  "typed z s \<Longrightarrow> after (bget_block block bno s) (\<lambda>(s, r). typed z s)"
  unfolding bget_block_def
  by (rule wp keeps_typed typed_new_bb [where b = block] typed_upd_bb | rule after_prod afterI | assumption
    | (simp add: the_super_Some; fail))+

lemma typed_read_block [THEN after_pairs, keeps_typed]:
  "typed z s \<Longrightarrow> after (read_block block bno s) (\<lambda>(s, r). typed z s)"
  unfolding read_block_def
  by (rule wp keeps_typed typed_upd_bb | rule after_prod afterI | assumption | (simp add: the_bb_Some put_length; fail))+

text \<open>Sizes of what the pure parts return.\<close>

lemma inode_to_bytes_length: "inode_to_bytes step t d = Some d' \<Longrightarrow> length d' = length d"
  by (auto simp: inode_to_bytes_def bind_eq_Some_conv dest!: put_length)

lemma inode_from_bytes_blocks: "inode_from_bytes a step d t = Some t' \<Longrightarrow> length (i_block t') = 15"
  by (auto simp: inode_from_bytes_def bind_eq_Some_conv)

lemma set_bit_length: "set_bit bits n flag = Some bits' \<Longrightarrow> length bits' = length bits"
  by (auto simp: set_bit_def Let_def bind_eq_Some_conv dest!: put_length)

lemma store_length: "store i x xs = Some ys \<Longrightarrow> length ys = length xs"
  by (auto simp: store_def split: if_splits)

lemma the_group_Some:
  "the_group a g s = Some gd \<longleftrightarrow> a \<noteq> 0 \<and> g < length (group_table (supers s a)) \<and> gd = group_table (supers s a) ! g"
  by (auto simp: the_group_def the_super_def split: if_splits)

lemma the_inode_typed:
  assumes "typed z s" "the_inode i s = Some t"
  shows "ref_ok z i" "length (i_block t) = 15"
proof -
  obtain a g k where i: "i = (a, g, k)" by (cases i)
  let ?gd = "group_table (supers s a) ! g"
  have g: "a \<noteq> 0" "g < length (group_table (supers s a))" "k < length (inode_data ?gd)" "t = inode_data ?gd ! k"
    using assms(2) i by (auto simp: bind_eq_Some_conv the_group_Some split: if_splits)
  have z: "groups z a = map group_shape (group_table (supers s a))" "\<forall>g \<in> set (group_table (supers s a)). group_ok g"
    using assms(1) by (auto simp: typed_def shape_of_def)
  show "ref_ok z i" using g i by (simp add: z(1) group_shape_def)
  have "group_ok ?gd" using z(2) nth_mem [OF g(2)] by blast
  then show "length (i_block t) = 15" using g(3,4) nth_mem [OF g(3)] by (simp add: group_ok_def)
qed

lemma the_file_typed: "typed z s \<Longrightarrow> the_file f s = Some x \<Longrightarrow> file_ok z x"
  by (auto simp: typed_def the_file_def split: if_splits)

lemma upd_super_group [simp]: "group_table (supers (upd_super a (\<lambda>sb. sb\<lparr>free_inode := n sb\<rparr>) s) b) = group_table (supers s b)"
  by (simp add: upd_super_def)

lemmas sizes = put_length inode_to_bytes_length inode_from_bytes_blocks set_bit_length store_length

text \<open>Inodes.\<close>

lemma typed_write_inodes [THEN after_pairs, keeps_typed]:
  "typed z s \<Longrightarrow> after (write_inodes block g num in_cache ib is bb step s) (\<lambda>(s, r). typed z s)"
proof (induction "is" arbitrary: bb step s)
  case (Cons i "is")
  show ?case unfolding write_inodes.simps
    by (insert Cons.prems, (rule wp keeps_typed typed_upd_bb Cons.IH | rule after_prod afterI | assumption
      | (simp add: the_bb_Some sizes; fail))+)
qed (simp add: after_def)

lemma typed_write_inode [THEN after_pairs, keeps_typed]:
  "typed z s \<Longrightarrow> after (write_inode block g s) (\<lambda>(s, r). typed z s)"
  unfolding write_inode_def
  by (rule wp keeps_typed | rule after_prod afterI | assumption)+

lemma typed_read_inodes [THEN after_pairs, keeps_typed]:
  "typed z s \<Longrightarrow> after (read_inodes block g num ib is bb step s) (\<lambda>(s, r). typed z s)"
proof (induction "is" arbitrary: bb step s)
  case (Cons i "is")
  show ?case unfolding read_inodes.simps
    by (insert Cons.prems, (rule wp keeps_typed typed_upd_inode Cons.IH | rule after_prod afterI | assumption
      | (simp add: sizes; fail))+)
qed (simp add: after_def)

lemma typed_iget_inode [THEN after_pairs, keeps_typed]:
  "typed z s \<Longrightarrow> after (iget_inode block ino s) (\<lambda>(s, r). typed z s)"
  unfolding iget_inode_def
  by (rule wp keeps_typed typed_upd_group | rule after_prod afterI | assumption
    | (simp add: group_shape_def group_ok_def; fail))+

lemma typed_alloc_inode_in [THEN after_pairs, keeps_typed]:
  "typed z s \<Longrightarrow> after (alloc_inode_in block gs s) (\<lambda>(s, r). typed z s)"
proof (induction gs arbitrary: s)
  case (Cons g gs)
  show ?case unfolding alloc_inode_in.simps
    by (insert Cons.prems, (rule wp keeps_typed typed_upd_group typed_upd_super Cons.IH | rule after_prod afterI | assumption
      | (simp add: sizes the_group_Some group_shape_def group_ok_def; fail))+)
qed (simp add: after_def)

lemma typed_alloc_inode [THEN after_pairs, keeps_typed]:
  "typed z s \<Longrightarrow> after (alloc_inode block s) (\<lambda>(s, r). typed z s)"
  unfolding alloc_inode_def by (rule wp keeps_typed | rule after_prod afterI | assumption)+

text \<open>A loop keeps a property of the state if its body does, given that the rest of the loop does.\<close>

lemma after_assuming: "(\<And>r. m = Some r \<Longrightarrow> A \<longrightarrow> Q r) \<Longrightarrow> A \<Longrightarrow> after m Q"
  by (simp add: after_def)

lemma typed_dir_result [wp]:
  "(r = DirFail \<Longrightarrow> after a P) \<Longrightarrow> (\<And>bb off. r = DirFound bb off \<Longrightarrow> after (f bb off) P)
    \<Longrightarrow> (\<And>bb gap. r = DirMissing bb gap \<Longrightarrow> after (g bb gap) P) \<Longrightarrow> after (case_dir_result a f g r) P"
  by (cases r) simp_all

lemma typed_scan_blocks [THEN after_pairs, keeps_typed]: "typed z s \<Longrightarrow> after (scan_blocks dir name pos bb gap s) (\<lambda>(s, r). typed z s)"
proof (rule after_assuming, erule scan_blocks.raw_induct [where P = "\<lambda>dir name pos bb gap s r. typed z s \<longrightarrow> (\<lambda>(s, r). typed z s) r", rotated], goal_cases)
  case (1 r0 again dir name pos bb gap s r)
  have ih: "typed z s \<Longrightarrow> after (again dir name pos bb gap s) (\<lambda>(s, r). typed z s)" for dir name pos bb gap s
    using 1(2) by (auto simp: after_def)
  show ?case
    by (rule impI, rule afterD [OF _ 1(3)], (rule wp keeps_typed ih | rule after_prod afterI | assumption)+)
qed

lemma typed_find_inode_in_dir [THEN after_pairs, keeps_typed]: "typed z s \<Longrightarrow> after (find_inode_in_dir f dir name e s) (\<lambda>(s, r). typed z s)"
  unfolding find_inode_in_dir_def
  by (rule wp keeps_typed typed_upd_file typed_upd_bb | rule after_prod afterI | assumption | (simp add: sizes file_ok_def the_bb_Some; fail))+

lemma typed_walk_path [THEN after_pairs, keeps_typed]: "typed z s \<Longrightarrow> after (walk_path f path inode e s) (\<lambda>(s, r). typed z s)"
proof (rule after_assuming, erule walk_path.raw_induct [where P = "\<lambda>f path inode e s r. typed z s \<longrightarrow> (\<lambda>(s, r). typed z s) r", rotated], goal_cases)
  case (1 r0 again f path inode e s r)
  have ih: "typed z s \<Longrightarrow> after (again f path inode e s) (\<lambda>(s, r). typed z s)" for f path inode e s
    using 1(2) by (auto simp: after_def)
  show ?case
    by (rule impI, rule afterD [OF _ 1(3)], (rule wp keeps_typed ih typed_upd_inode | rule after_prod afterI | assumption | (simp add: the_inode_typed; fail))+)
qed

lemma typed_find_inode_by_path [THEN after_pairs, keeps_typed]: "typed z s \<Longrightarrow> after (find_inode_by_path f path s) (\<lambda>(s, r). typed z s)"
  unfolding find_inode_by_path_def
  by (rule wp keeps_typed | rule after_prod afterI | assumption)+

lemma typed_iget_bno [THEN after_pairs, keeps_typed]: "typed z s \<Longrightarrow> after (iget_bno inode index s) (\<lambda>(s, r). typed z s)"
  unfolding iget_bno_def
  by (rule wp keeps_typed | rule after_prod afterI | assumption)+

text \<open>Blocks of a file.\<close>

lemma typed_mark_block [THEN after_states, keeps_typed]: "typed z s \<Longrightarrow> after (mark_block block g bno flag s) (typed z)"
  unfolding mark_block_def
  by (rule wp keeps_typed typed_upd_group | rule after_prod afterI | assumption | (simp add: sizes the_group_Some group_shape_def group_ok_def; fail))+

lemma typed_put_entry [THEN after_states, keeps_typed]: "typed z s \<Longrightarrow> after (put_entry bb k v s) (typed z)"
  unfolding put_entry_def
  by (rule wp keeps_typed typed_upd_bb | rule after_prod afterI | assumption | (simp add: sizes; fail))+

lemma typed_set_slot [THEN after_states, keeps_typed]: "typed z s \<Longrightarrow> after (set_slot inode k bno s) (typed z)"
  unfolding set_slot_def
  by (rule wp keeps_typed typed_upd_inode | rule after_prod afterI | assumption | (simp add: sizes the_inode_typed(2); fail))+

lemma typed_alloc_single [THEN after_pairs, keeps_typed]: "typed z s \<Longrightarrow> after (alloc_single block g inode bno bindex s) (\<lambda>(s, r). typed z s)"
  unfolding alloc_single_def with_block_def first_entry_def
  by (rule wp keeps_typed | rule after_prod afterI | assumption)+

lemma typed_alloc_double [THEN after_pairs, keeps_typed]: "typed z s \<Longrightarrow> after (alloc_double block g inode bno bindex s) (\<lambda>(s, r). typed z s)"
  unfolding alloc_double_def with_block_def first_entry_def
  by (rule wp keeps_typed | rule after_prod afterI | assumption)+

lemma typed_alloc_triple [THEN after_pairs, keeps_typed]: "typed z s \<Longrightarrow> after (alloc_triple block g inode bno bindex s) (\<lambda>(s, r). typed z s)"
  unfolding alloc_triple_def with_block_def first_entry_def
  by (rule wp keeps_typed | rule after_prod afterI | assumption)+

lemma typed_alloc_block [THEN after_pairs, keeps_typed]: "typed z s \<Longrightarrow> after (alloc_block f s) (\<lambda>(s, r). typed z s)"
  unfolding alloc_block_def
  by (rule wp keeps_typed | rule after_prod afterI | assumption)+

lemma typed_drop_block [THEN after_states, keeps_typed]: "typed z s \<Longrightarrow> after (drop_block block g bb s) (typed z)"
  unfolding drop_block_def
  by (rule wp keeps_typed typed_upd_bb | rule after_prod afterI | assumption | (simp; fail))+

lemma typed_drop_cached [THEN after_states, keeps_typed]: "typed z s \<Longrightarrow> after (drop_cached block g bb s) (typed z)"
  unfolding drop_cached_def
  by (rule wp keeps_typed | rule after_prod afterI | assumption)+

lemma typed_table_block [THEN after_pairs, keeps_typed]: "typed z s \<Longrightarrow> after (table_block first block bno bb s) (\<lambda>(s, r). typed z s)"
  unfolding table_block_def
  by (rule wp keeps_typed | rule after_prod afterI | assumption)+

lemma typed_unlink_block_no [THEN after_pairs, keeps_typed]: "typed z s \<Longrightarrow> after (unlink_block_no inode g i bufs s) (\<lambda>(s, r). typed z s)"
  unfolding unlink_block_no_def
  by (rule wp keeps_typed | rule after_prod afterI | assumption)+

lemma typed_unlink_blocks [THEN after_pairs, keeps_typed]: "typed z s \<Longrightarrow> after (unlink_blocks inode g i bufs s) (\<lambda>(s, r). typed z s)"
proof (rule after_assuming, erule unlink_blocks.raw_induct [where P = "\<lambda>inode g i bufs s r. typed z s \<longrightarrow> (\<lambda>(s, r). typed z s) r", rotated], goal_cases)
  case (1 r0 again inode g i bufs s r)
  have ih: "typed z s \<Longrightarrow> after (again inode g i bufs s) (\<lambda>(s, r). typed z s)" for inode g i bufs s
    using 1(2) by (auto simp: after_def)
  show ?case
    by (rule impI, rule afterD [OF _ 1(3)], (rule wp keeps_typed ih | rule after_prod afterI | assumption)+)
qed

text \<open>Reading, writing and closing.\<close>

lemma typed_ext2_open [THEN after_pairs, keeps_typed]: "typed z s \<Longrightarrow> after (ext2_open f path s) (\<lambda>(s, r). typed z s)"
  unfolding ext2_open_def
  by (rule wp keeps_typed typed_upd_file | rule after_prod afterI | assumption | (simp add: file_ok_def the_inode_typed sizes the_bb_Some; fail))+

lemma typed_read_loop [THEN after_pairs, keeps_typed]: "typed z s \<Longrightarrow> after (read_loop f block sz begn bno r_size out s) (\<lambda>(s, r). typed z s)"
proof (rule after_assuming, erule read_loop.raw_induct [where P = "\<lambda>f block sz begn bno r_size out s r. typed z s \<longrightarrow> (\<lambda>(s, r). typed z s) r", rotated], goal_cases)
  case (1 r0 again f block sz begn bno r_size out s r)
  have ih: "typed z s \<Longrightarrow> after (again f block sz begn bno r_size out s) (\<lambda>(s, r). typed z s)" for f block sz begn bno r_size out s
    using 1(2) by (auto simp: after_def)
  show ?case
    by (rule impI, rule afterD [OF _ 1(3)], (rule wp keeps_typed ih typed_upd_file | rule after_prod afterI | assumption | (simp add: file_ok_def the_inode_typed sizes the_bb_Some; fail))+)
qed

lemma typed_ext2_read [THEN after_pairs, keeps_typed]: "typed z s \<Longrightarrow> after (ext2_read f sz s) (\<lambda>(s, r). typed z s)"
  unfolding ext2_read_def
  by (rule wp keeps_typed | rule after_prod afterI | assumption)+

lemma typed_ext2_write [THEN after_pairs, keeps_typed]: "typed z s \<Longrightarrow> after (ext2_write f data sz s) (\<lambda>(s, r). typed z s)"
  unfolding ext2_write_def
  by (rule wp keeps_typed typed_upd_file typed_upd_bb typed_upd_inode | rule after_prod afterI | assumption | (simp add: file_ok_def the_inode_typed sizes the_bb_Some; fail))+

lemma typed_ext2_seek [THEN after_pairs, keeps_typed]: "typed z s \<Longrightarrow> after (ext2_seek f offset s) (\<lambda>(s, r). typed z s)"
  unfolding ext2_seek_def
  by (rule wp keeps_typed typed_upd_file | rule after_prod afterI | assumption | (simp add: file_ok_def the_inode_typed sizes the_bb_Some; fail))+

lemma typed_sync_dirty [THEN after_pairs, keeps_typed]: "typed z s \<Longrightarrow> after (sync_dirty dev sb bn s) (\<lambda>(s, r). typed z s)"
proof (rule after_assuming, erule sync_dirty.raw_induct [where P = "\<lambda>dev sb bn s r. typed z s \<longrightarrow> (\<lambda>(s, r). typed z s) r", rotated], goal_cases)
  case (1 r0 again dev sb bn s r)
  have ih: "typed z s \<Longrightarrow> after (again dev sb bn s) (\<lambda>(s, r). typed z s)" for dev sb bn s
    using 1(2) by (auto simp: after_def)
  show ?case
    by (rule impI, rule afterD [OF _ 1(3)], (rule wp keeps_typed ih | rule after_prod afterI | assumption)+)
qed

lemma typed_write_bits [THEN after_pairs, keeps_typed]: "typed z s \<Longrightarrow> after (write_bits dev sec sec_count offset bits s) (\<lambda>(s, r). typed z s)"
proof (rule after_assuming, erule write_bits.raw_induct [where P = "\<lambda>dev sec sec_count offset bits s r. typed z s \<longrightarrow> (\<lambda>(s, r). typed z s) r", rotated], goal_cases)
  case (1 r0 again dev sec sec_count offset bits s r)
  have ih: "typed z s \<Longrightarrow> after (again dev sec sec_count offset bits s) (\<lambda>(s, r). typed z s)" for dev sec sec_count offset bits s
    using 1(2) by (auto simp: after_def)
  show ?case
    by (rule impI, rule afterD [OF _ 1(3)], (rule wp keeps_typed ih | rule after_prod afterI | assumption)+)
qed

lemma typed_sync_groups [THEN after_pairs, keeps_typed]: "typed z s \<Longrightarrow> after (sync_groups dev block gs s) (\<lambda>(s, r). typed z s)"
proof (induction gs arbitrary: s)
  case (Cons g gs)
  show ?case unfolding sync_groups.simps
    by (insert Cons.prems, (rule wp keeps_typed Cons.IH | rule after_prod afterI | assumption)+)
qed (simp add: after_def)

lemma typed_ext2_sync [THEN after_pairs, keeps_typed]: "typed z s \<Longrightarrow> after (ext2_sync block s) (\<lambda>(s, r). typed z s)"
  unfolding ext2_sync_def
  by (rule wp keeps_typed | rule after_prod afterI | assumption)+

lemma typed_ext2_close [THEN after_pairs, keeps_typed]: "typed z s \<Longrightarrow> after (ext2_close f s) (\<lambda>(s, r). typed z s)"
  unfolding ext2_close_def
  by (rule wp keeps_typed | rule after_prod afterI | assumption)+

lemma typed_ulink_loop [THEN after_states, keeps_typed]: "typed z s \<Longrightarrow> after (ulink_loop inode name pos s) (typed z)"
proof (rule after_assuming, erule ulink_loop.raw_induct [where P = "\<lambda>inode name pos s r. typed z s \<longrightarrow> (typed z) r", rotated], goal_cases)
  case (1 r0 again inode name pos s r)
  have ih: "typed z s \<Longrightarrow> after (again inode name pos s) (typed z)" for inode name pos s
    using 1(2) by (auto simp: after_def)
  show ?case
    by (rule impI, rule afterD [OF _ 1(3)], (rule wp keeps_typed ih | rule after_prod afterI | assumption)+)
qed

lemma typed_ulink_inode [THEN after_states, keeps_typed]: "typed z s \<Longrightarrow> after (ulink_inode f name s) (typed z)"
  unfolding ulink_inode_def
  by (rule wp keeps_typed | rule after_prod afterI | assumption)+

lemma typed_ext2_unlink [THEN after_pairs, keeps_typed]: "typed z s \<Longrightarrow> after (ext2_unlink f path s) (\<lambda>(s, r). typed z s)"
  unfolding ext2_unlink_def
  by (rule wp keeps_typed | rule after_prod afterI | assumption)+

section \<open>The calls\<close>

lemma typed_upd_task [keeps_typed]: "typed z s \<Longrightarrow> typed z (upd_task t f s)"
  using typed_more [of "upd_task t f s" s z] by (simp add: upd_task_def)

lemma typed_if [keeps_typed]: "(b \<Longrightarrow> typed z s) \<Longrightarrow> (\<not> b \<Longrightarrow> typed z s') \<Longrightarrow> typed z (if b then s else s')"
  by simp

lemma file_ok_mount:
  "fetch (int i) (fs_table s) = Some m \<Longrightarrow> typed z s \<Longrightarrow> file_ok z x \<Longrightarrow> file_ok z (x\<lparr>f_fs := Some i\<rparr>)"
  by (auto simp: typed_def shape_of_def file_ok_def split: if_splits)

lemma typed_task_alloc_fd [keeps_typed]:
  "typed z s \<Longrightarrow> (\<And>fd s'. typed z s' \<Longrightarrow> P (fd, s')) \<Longrightarrow> after (task_alloc_fd f s) P"
  unfolding task_alloc_fd_def
  by (rule wp keeps_typed | rule afterI | assumption | (simp add: typed_upd_task; fail))+

lemma typed_task_free_fd [THEN after_states, keeps_typed]: "typed z s \<Longrightarrow> after (task_free_fd fd s) (typed z)"
  unfolding task_free_fd_def
  by (rule wp keeps_typed | rule after_prod afterI | assumption | (simp add: typed_upd_task; fail))+

lemma typed_lock_fs [THEN after_states, keeps_typed]: "typed z s \<Longrightarrow> after (lock_fs fs s) (typed z)"
  unfolding lock_fs_def
  by (rule wp keeps_typed | rule after_prod afterI | assumption)+

lemma typed_unlock_fs [THEN after_states, keeps_typed]: "typed z s \<Longrightarrow> after (unlock_fs fs s) (typed z)"
  unfolding unlock_fs_def
  by (rule wp keeps_typed | rule after_prod afterI | assumption)+

lemma typed_alloc_file [THEN after_pairs, keeps_typed]: "typed z s \<Longrightarrow> after (alloc_file s) (\<lambda>(s, r). typed z s)"
  unfolding alloc_file_def
  by (rule wp keeps_typed typed_upd_file | rule after_prod afterI | assumption | (simp add: file_ok_def; fail))+

lemma typed_free_file [THEN after_states, keeps_typed]: "typed z s \<Longrightarrow> after (free_file f s) (typed z)"
  unfolding free_file_def
  by (rule wp keeps_typed typed_upd_file | rule after_prod afterI | assumption | (simp add: file_ok_def; fail))+

lemma typed_sys_open [THEN after_pairs, keeps_typed]: "typed z s \<Longrightarrow> after (sys_open name mode s) (\<lambda>(s, r). typed z s)"
  unfolding sys_open_def
  by (rule wp keeps_typed typed_upd_file file_ok_mount | rule after_prod afterI | assumption | (simp add: file_ok_def; fail))+

lemma typed_sys_read [THEN after_pairs, keeps_typed]: "typed z s \<Longrightarrow> after (sys_read fd len s) (\<lambda>(s, r). typed z s)"
  unfolding sys_read_def
  by (rule wp keeps_typed | rule after_prod afterI | assumption)+

lemma typed_sys_write [THEN after_pairs, keeps_typed]: "typed z s \<Longrightarrow> after (sys_write fd data len s) (\<lambda>(s, r). typed z s)"
  unfolding sys_write_def
  by (rule wp keeps_typed | rule after_prod afterI | assumption)+

lemma typed_sys_seek [THEN after_pairs, keeps_typed]: "typed z s \<Longrightarrow> after (sys_seek fd offset s) (\<lambda>(s, r). typed z s)"
  unfolding sys_seek_def
  by (rule wp keeps_typed | rule after_prod afterI | assumption)+

lemma typed_sync_all [THEN after_states, keeps_typed]: "typed z s \<Longrightarrow> after (sync_all fss s) (typed z)"
proof (induction fss arbitrary: s)
  case (Cons fs fss)
  show ?case unfolding sync_all.simps
    by (insert Cons.prems, (rule wp keeps_typed Cons.IH | rule after_prod afterI | assumption)+)
qed (simp add: after_def)

lemma typed_sys_sync [THEN after_pairs, keeps_typed]: "typed z s \<Longrightarrow> after (sys_sync s) (\<lambda>(s, r). typed z s)"
  unfolding sys_sync_def
  by (rule wp keeps_typed | rule after_prod afterI | assumption)+

lemma typed_sys_close [THEN after_pairs, keeps_typed]: "typed z s \<Longrightarrow> after (sys_close fd s) (\<lambda>(s, r). typed z s)"
  unfolding sys_close_def
  by (rule wp keeps_typed | rule after_prod afterI | assumption)+

lemma typed_sys_unlink [THEN after_pairs, keeps_typed]: "typed z s \<Longrightarrow> after (sys_unlink name s) (\<lambda>(s, r). typed z s)"
  unfolding sys_unlink_def
  by (rule wp keeps_typed typed_upd_file file_ok_mount | rule after_prod afterI | assumption | (simp add: file_ok_def; fail))+

section \<open>Any sequence of calls\<close>

datatype file_call =
  FOpen "uchar list" int | FRead int int | FWrite int "uchar list" int | FSeek int int | FSync | FClose int | FUnlink "uchar list"

fun file_step :: "file_call \<Rightarrow> ('d, 'a) fsys_scheme \<Rightarrow> ('d, 'a) fsys_scheme option" where
  "file_step (FOpen name mode) s = map_option fst (sys_open name mode s)"
| "file_step (FRead fd n) s = map_option fst (sys_read fd n s)"
| "file_step (FWrite fd data n) s = map_option fst (sys_write fd data n s)"
| "file_step (FSeek fd offset) s = map_option fst (sys_seek fd offset s)"
| "file_step FSync s = map_option fst (sys_sync s)"
| "file_step (FClose fd) s = map_option fst (sys_close fd s)"
| "file_step (FUnlink name) s = map_option fst (sys_unlink name s)"

fun file_run :: "file_call list \<Rightarrow> ('d, 'a) fsys_scheme \<Rightarrow> ('d, 'a) fsys_scheme option" where
  "file_run [] s = Some s"
| "file_run (c # cs) s = file_step c s \<bind> file_run cs"

lemma typed_file_step: "typed z s \<Longrightarrow> after (file_step c s) (typed z)"
  by (cases c) (simp only: file_step.simps, (rule wp keeps_typed | assumption | (simp; fail))+)+

lemma typed_file_run: "typed z s \<Longrightarrow> file_run cs s = Some s' \<Longrightarrow> typed z s'"
  by (induction cs arbitrary: s) (auto simp: bind_eq_Some_conv dest: afterD [OF typed_file_step])


lemma demo_typed: "typed (shape_of demo_open) demo_open"
  by (auto simp: typed_def shape_of_def file_ok_def group_ok_def group_shape_def buffer_ok_def demo_open_def demo_fs_fields
      demo_file_def no_file_def demo_super_def demo_group_def demo_inode_def no_buffer_def)


end
