(* ===== verification/LibC.thy ===== *)
theory LibC
  imports KString
begin

text \<open>
  The string routines a program is linked with, \<open>source/libc/string.c\<close>, on the memory of the
  process.  They have the bodies of the kernel's routines, so the facts of \<open>KString\<close> hold for them.
\<close>

section \<open>The code\<close>

definition memset :: "addr \<Rightarrow> uchar \<Rightarrow> int \<Rightarrow> mem \<Rightarrow> mem" where
  "memset dest c sz m = (if dest = 0 \<or> sz \<le> 0 then m else memset_loop (nat sz) dest c m)"

definition memcpy :: "addr \<Rightarrow> addr \<Rightarrow> int \<Rightarrow> mem \<Rightarrow> mem" where
  "memcpy dest src sz m = (if dest = 0 \<or> src = 0 \<or> sz \<le> 0 then m else memcpy_loop (nat sz) dest src m)"

definition memcmp :: "addr \<Rightarrow> addr \<Rightarrow> int \<Rightarrow> mem \<Rightarrow> int" where
  "memcmp first second sz m =
     (if first = 0 \<or> second = 0 then 0
      else memcmp_loop (unat (word_of_int sz :: 32 word)) first second m)"

definition strcpy :: "addr \<Rightarrow> addr \<Rightarrow> mem \<Rightarrow> mem option" where
  "strcpy dest src m = (if dest = 0 \<or> src = 0 then Some m else strcpy_loop dest src m)"

definition strlen :: "addr \<Rightarrow> mem \<Rightarrow> int option" where
  "strlen str m = strlen_loop str 0 m"

definition strrchr :: "addr \<Rightarrow> int \<Rightarrow> mem \<Rightarrow> addr option" where
  "strrchr str c m = strrchr_loop str c 0 m"

section \<open>Facts\<close>

lemma libc_same:
  "memset = kmemset" "memcpy = kmemcpy" "memcmp = kmemcmp" "strcpy = kstrcpy" "strlen = kstrlen" "strrchr = kstrrchr"
  by (intro ext, simp add: memset_def kmemset_def memcpy_def kmemcpy_def memcmp_def kmemcmp_def
      strcpy_def kstrcpy_def strlen_def kstrlen_def strrchr_def kstrrchr_def)+

lemma strlen_cstr: "cstr m p bs \<Longrightarrow> strlen p m = Some (int (length bs))"
  by (simp add: libc_same kstrlen_cstr)

text \<open>The places of a byte in a list.\<close>

definition places :: "'x \<Rightarrow> 'x list \<Rightarrow> nat list" where
  "places c bs = filter (\<lambda>i. bs ! i = c) [0..<length bs]"

lemma places_Cons: "places c (b # bs) = (if b = c then [0] else []) @ map Suc (places c bs)"
  by (simp add: places_def upt_conv_Cons map_Suc_upt [symmetric] filter_map o_def del: upt_Suc)

lemma strrchr_loop_places:
  assumes "cstr m p bs"
  shows "strrchr_loop p c pos m = Some (if c = 0 then p + of_nat (length bs)
    else if places (word_of_int c) bs = [] then pos else p + of_nat (last (places (word_of_int c) bs)))"
  using assms
proof (induction bs arbitrary: p pos)
  case Nil
  then show ?case by (subst strrchr_loop.simps) (simp add: places_def)
next
  case (Cons b bs)
  then have "m p = b" "b \<noteq> 0" "cstr m (p + 1) bs" by auto
  then show ?case
    using Cons.IH [of "p + 1"] by (subst strrchr_loop.simps) (simp add: places_Cons last_map algebra_simps)
qed

text \<open>\<open>strrchr\<close>, in the kernel and in the library, finds the last place of a character in a string,
  the terminator for the character 0, and returns the null pointer when there is none.\<close>

theorem strrchr_finds_last:
  assumes "cstr m p bs"
  shows "strrchr p c m = Some (if c = 0 then p + of_nat (length bs)
      else if places (word_of_int c) bs = [] then 0 else p + of_nat (last (places (word_of_int c) bs)))
    \<and> kstrrchr p c m = strrchr p c m"
  using strrchr_loop_places [OF assms] by (simp add: libc_same kstrrchr_def)

lemma strrchr_finds_last_witness:
  "strrchr 0x10 0x2f ((\<lambda>_. 0)(0x10 := 0x2f, 0x11 := 0x61, 0x12 := 0x2f, 0x13 := 0x62)) = Some 0x12"
proof -
  have "cstr ((\<lambda>_. 0)(0x10 := 0x2f, 0x11 := 0x61, 0x12 := 0x2f, 0x13 := 0x62)) 0x10 [0x2f, 0x61, 0x2f, 0x62]" by simp
  from strrchr_finds_last [OF this, where c = "0x2f"] show ?thesis by (simp add: places_Cons) (simp add: places_def)
qed

end
