(* ===== verification/Entry.thy ===== *)
theory Entry
  imports Page
begin

text \<open>
  The format of an entry of a page directory or a page table, the unions \<open>page_dir_t\<close> and
  \<open>page_table_t\<close> of \<open>source/include/page.h\<close>: a 32-bit value and its bit fields.  The theory \<open>Page\<close>
  works on the values; here the tests and masks it uses are related to the fields.
\<close>

section \<open>The fields\<close>

record page_dir_t =
  pd_present :: uint
  pd_write_able :: uint
  pd_privilege :: uint
  pd_write_through :: uint
  pd_cached :: uint
  pd_accessed :: uint
  pd_dirty :: uint
  pd_ps :: uint
  pd_global :: uint
  pd_avl :: uint
  pd_base :: uint

record page_table_t =
  pt_present :: uint
  pt_write_able :: uint
  pt_privilege :: uint
  pt_write_through :: uint
  pt_cached :: uint
  pt_accessed :: uint
  pt_dirty :: uint
  pt_pat :: uint
  pt_global :: uint
  pt_avl :: uint
  pt_base :: uint

text \<open>\<open>n\<close> bits from bit \<open>k\<close> on.\<close>

definition field :: "nat \<Rightarrow> nat \<Rightarrow> uint \<Rightarrow> uint" where
  "field k n v = take_bit n (drop_bit k v)"

definition pde_fields :: "uint \<Rightarrow> page_dir_t" where
  "pde_fields v = \<lparr>pd_present = field 0 1 v, pd_write_able = field 1 1 v, pd_privilege = field 2 1 v,
     pd_write_through = field 3 1 v, pd_cached = field 4 1 v, pd_accessed = field 5 1 v, pd_dirty = field 6 1 v,
     pd_ps = field 7 1 v, pd_global = field 8 1 v, pd_avl = field 9 3 v, pd_base = field 12 20 v\<rparr>"

definition pte_fields :: "uint \<Rightarrow> page_table_t" where
  "pte_fields v = \<lparr>pt_present = field 0 1 v, pt_write_able = field 1 1 v, pt_privilege = field 2 1 v,
     pt_write_through = field 3 1 v, pt_cached = field 4 1 v, pt_accessed = field 5 1 v, pt_dirty = field 6 1 v,
     pt_pat = field 7 1 v, pt_global = field 8 1 v, pt_avl = field 9 3 v, pt_base = field 12 20 v\<rparr>"

definition align_up :: "uint \<Rightarrow> uint \<Rightarrow> uint" where
  "align_up a align = (a + (align + 1)) AND NOT (align - 1)"

definition read_cr3 :: "'a kernel_scheme \<Rightarrow> uint" where
  "read_cr3 s = cpu_cr3 s"

definition write_cr3 :: "uint \<Rightarrow> 'a kernel_scheme \<Rightarrow> 'a kernel_scheme" where
  "write_cr3 v s = s\<lparr>cpu_cr3 := v\<rparr>"

section \<open>Facts\<close>

lemma bit_field: "bit (field k n v) i \<longleftrightarrow> i < n \<and> bit v (k + i)"
  by (simp add: field_def bit_take_bit_iff bit_drop_bit_eq)

lemma field_bit: "field k (Suc 0) v = (if bit v k then 1 else 0)"
  by (rule bit_word_eqI) (auto simp: bit_field bit_1_iff)

lemma and_bit_zero: "v AND 2 ^ k = 0 \<longleftrightarrow> \<not> bit (v :: uint) k" if "k < 32"
proof
  assume "v AND 2 ^ k = 0"
  then have "\<not> bit (v AND 2 ^ k) k" by simp
  then show "\<not> bit v k" using that by (simp add: bit_and_iff bit_exp_iff)
next
  assume "\<not> bit v k"
  then show "v AND 2 ^ k = 0" by (intro bit_word_eqI) (auto simp: bit_and_iff bit_exp_iff)
qed

text \<open>The tests and the mask of the paging code are the fields: present, dirty, and the frame as the
  base.\<close>

lemma entry_fields:
  "present v \<longleftrightarrow> pt_present (pte_fields v) = 1" "dirty v \<longleftrightarrow> pt_dirty (pte_fields v) = 1"
  "align_down v 4096 = push_bit 12 (pt_base (pte_fields v))" "align_down v 4096 = push_bit 12 (pd_base (pde_fields v))"
proof -
  show "present v \<longleftrightarrow> pt_present (pte_fields v) = 1"
    using and_bit_zero [of 0 v] by (simp add: present_def PAGE_PRESENT_def pte_fields_def field_bit)
  show "dirty v \<longleftrightarrow> pt_dirty (pte_fields v) = 1"
    using and_bit_zero [of 6 v] by (simp add: dirty_def PAGE_DIRTY_def pte_fields_def field_bit)
  have "align_down v 4096 = v AND NOT (mask 12)"
    by (simp add: align_down_def mask_eq_exp_minus_1)
  also have "\<dots> = push_bit 12 (field 12 20 v)"
    by (rule bit_word_eqI) (auto simp: bit_and_iff bit_not_iff bit_mask_iff bit_push_bit_iff bit_field simp del: mask_eq_iff)
  finally have "align_down v 4096 = push_bit 12 (field 12 20 v)" .
  then show "align_down v 4096 = push_bit 12 (pt_base (pte_fields v))" "align_down v 4096 = push_bit 12 (pd_base (pde_fields v))"
    by (simp_all add: pte_fields_def pde_fields_def)
qed

text \<open>\<open>align_up\<close> moves an aligned address to the next page, and one before the next page two pages up.\<close>

lemma align_up_overshoots: "align_up 0x1000 4096 = 0x2000" "align_up 0x1fff 4096 = 0x3000"
  by code_simp+

end
