(* ===== verification/Exec.thy ===== *)
theory Exec
  imports Fs
begin

text \<open>
  Processes and programs: the parts of \<open>source/kernel/task.c\<close> that create a process, copy it and
  load a program into it.  A process is the number of its \<open>task_t\<close>, here the address \<open>kmalloc\<close>
  returned for it; its kernel stack is in memory behind it.  Pointers in the argument tables of
  \<open>copy_args_envs\<close> are kernel addresses.
\<close>

section \<open>Creating a process\<close>

record 'd system = "'d fsys" +
  next_pid :: int

definition alloc_task :: "('d, 'a) system_scheme \<Rightarrow> (('d, 'a) system_scheme \<times> addr) option" where
  "alloc_task s = kmalloc (word_of_int (2 * PAGE_SIZE)) s"

definition free_task :: "addr \<Rightarrow> ('d, 'a) system_scheme \<Rightarrow> ('d, 'a) system_scheme option" where
  "free_task t s = kfree t s"

text \<open>The words pushed onto the new stack, and the resulting stack pointer.\<close>

fun push_words :: "addr \<Rightarrow> uint list \<Rightarrow> mem \<Rightarrow> addr \<times> mem" where
  "push_words p [] m = (p, m)"
| "push_words p (v # vs) m = push_words (p - 4) vs (store32 m (p - 4) v)"

definition task_init :: "addr \<Rightarrow> string \<Rightarrow> uint \<Rightarrow> ('d, 'a) system_scheme \<Rightarrow> (('d, 'a) system_scheme \<times> int) option" where
  "task_init task name entry s = (if task = 0 then None else do {
     let t = unat task;
     let pid = next_pid s;
     let s = s\<lparr>next_pid := pid + 1\<rparr>;
     let s = upd_task t (\<lambda>k. k\<lparr>t_pid := pid, t_name := name, t_slice := TASK_SLICE\<rparr>) s;
     let pesp = task + 8192;
     let (pesp, m) = (if pesp \<noteq> 0
       then push_words pesp [entry, 0, 0, 0x202, 0, 0, 0, 0, 0, 0, task] (pmem s) else (pesp, pmem s));
     let s = s\<lparr>pmem := m\<rparr>;
     (s, pde) \<leftarrow> create_pde s;
     let s = upd_task t (\<lambda>k. k\<lparr>t_esp := pesp, t_cr3 := pde, t_state := TASK_CREATED,
       t_tss := (t_tss k)\<lparr>tss_esp0 := pesp, tss_ss0 := ucast KERNEL_SELECTOR_DS, tss_cr3 := pde\<rparr>\<rparr>) s;
     let s = (if entry = 0 then s\<lparr>idle_task := Some t\<rparr> else s);
     let (s, fl) = enter_crit s;
     let s = upd_links (queue_insert_tail TaskHead (QNode t)) s;
     let s = upd_links (queue_insert_tail ReadyHead (RqNode t)) s;
     Some (leave_crit fl s, 0) })"

section \<open>Loading a program\<close>

record elf_head_t =
  e_ident :: "uchar list"
  e_type :: ushort
  e_machine :: ushort
  e_entry :: uint
  e_phoff :: uint
  e_phentsize :: ushort
  e_phnum :: ushort

record elf_phead_t =
  ph_type :: uint
  ph_offset :: uint
  ph_vaddr :: uint
  ph_filesz :: uint
  ph_memsz :: uint

text \<open>The fields of the packed headers; the buffer holds what was read over what the stack held.\<close>

definition elf_head :: "uchar list \<Rightarrow> elf_head_t option" where
  "elf_head d = do {
     ident \<leftarrow> get_bytes 0 16 d;
     ty \<leftarrow> get16 16 d;
     machine \<leftarrow> get16 18 d;
     entry \<leftarrow> get32 24 d;
     phoff \<leftarrow> get32 28 d;
     phentsize \<leftarrow> get16 42 d;
     phnum \<leftarrow> get16 44 d;
     Some \<lparr>e_ident = ident, e_type = ty, e_machine = machine, e_entry = entry, e_phoff = phoff,
       e_phentsize = phentsize, e_phnum = phnum\<rparr> }"

definition elf_phead :: "uchar list \<Rightarrow> elf_phead_t option" where
  "elf_phead d = do {
     ty \<leftarrow> get32 0 d;
     offset \<leftarrow> get32 4 d;
     vaddr \<leftarrow> get32 8 d;
     filesz \<leftarrow> get32 16 d;
     memsz \<leftarrow> get32 20 d;
     Some \<lparr>ph_type = ty, ph_offset = offset, ph_vaddr = vaddr, ph_filesz = filesz, ph_memsz = memsz\<rparr> }"

definition sizeof_elf_head :: int where "sizeof_elf_head = 52"
definition sizeof_elf_phead :: int where "sizeof_elf_phead = 32"

text \<open>Bytes a file read delivers at an address.\<close>

fun write_bytes :: "addr \<Rightarrow> uchar list \<Rightarrow> mem \<Rightarrow> mem" where
  "write_bytes a [] m = m"
| "write_bytes a (b # bs) m = write_bytes (a + 1) bs (m(a := b))"

partial_function (option) load_pages ::
    "int \<Rightarrow> elf_phead_t \<Rightarrow> addr \<Rightarrow> uint \<Rightarrow> int \<Rightarrow> ('d, 'a) system_scheme \<Rightarrow> (('d, 'a) system_scheme \<times> int) option" where
  "load_pages fd p pde vaddr sz s =
     (if sz > 0
      then do {
        let paddr = trans_vtop (pmem s) pde vaddr;
        if paddr = 0 then do { s \<leftarrow> free_vpages pde (ph_vaddr p) (ph_memsz p) s; Some (s, - 1) }
        else do {
          (s, r, out) \<leftarrow> sys_read fd (if sz > PAGE_SIZE then PAGE_SIZE else sz) s;
          let s = upd_mem (write_bytes paddr out) s;
          if r \<le> 0 then do { s \<leftarrow> free_vpages pde (ph_vaddr p) (ph_memsz p) s; Some (s, - 1) }
          else load_pages fd p pde (vaddr + 4096) (sz - PAGE_SIZE) s } }
      else Some (s, 0))"

definition load_phead ::
    "int \<Rightarrow> elf_phead_t \<Rightarrow> addr \<Rightarrow> ('d, 'a) system_scheme \<Rightarrow> (('d, 'a) system_scheme \<times> int) option" where
  "load_phead fd p pde s = do {
     (s, err) \<leftarrow> alloc_vpages pde (ph_vaddr p) (ph_memsz p) s;
     if err < 0 then Some (s, err)
     else do {
       (s, r) \<leftarrow> sys_seek fd (sint (ph_offset p)) s;
       if r < 0 then Some (s, - 1)
       else load_pages fd p pde (ph_vaddr p) (sint (ph_filesz p)) s } }"

text \<open>The file's descriptor is closed before every return.\<close>

definition close_with :: "int \<Rightarrow> int \<Rightarrow> ('d, 'a) system_scheme \<Rightarrow> (('d, 'a) system_scheme \<times> int) option" where
  "close_with fd r s = do { (s, _) \<leftarrow> sys_close fd s; Some (s, r) }"

text \<open>The loop over the program headers: \<open>buf\<close> is the buffer for one of them.  \<open>continue\<close> leaves the
  offset where it is, so the same header is read again.\<close>

fun load_pheads ::
    "nat \<Rightarrow> int \<Rightarrow> elf_head_t \<Rightarrow> uint \<Rightarrow> addr \<Rightarrow> uchar list \<Rightarrow> ('d, 'a) system_scheme \<Rightarrow>
       (('d, 'a) system_scheme \<times> int option) option" where
  "load_pheads 0 fd h offset pde buf s = Some (s, None)"
| "load_pheads (Suc n) fd h offset pde buf s = do {
     (s, r) \<leftarrow> sys_seek fd (sint offset) s;
     if r < 0 then map_option (\<lambda>(s, r). (s, Some r)) (close_with fd (- 1) s)
     else do {
       (s, count, out) \<leftarrow> sys_read fd sizeof_elf_phead s;
       buf \<leftarrow> put_bytes 0 out buf;
       if count \<le> 0 then map_option (\<lambda>(s, r). (s, Some r)) (close_with fd (- 1) s)
       else do {
         p \<leftarrow> elf_phead buf;
         if ph_type p \<noteq> 1 \<or> ph_vaddr p < USER_MEMORY_BEGIN then load_pheads n fd h offset pde buf s
         else do {
           (s, err) \<leftarrow> load_phead fd p pde s;
           if err < 0 then map_option (\<lambda>(s, r). (s, Some r)) (close_with fd (- 1) s)
           else load_pheads n fd h (offset + ucast (e_phentsize h)) pde buf s } } } }"

text \<open>The result is the entry point as an \<open>int\<close>, or \<open>-1\<close>.\<close>

definition load_elf_file :: "uchar list \<Rightarrow> addr \<Rightarrow> ('d, 'a) system_scheme \<Rightarrow> (('d, 'a) system_scheme \<times> int) option" where
  "load_elf_file name pde s = do {
     (s, fd) \<leftarrow> sys_open name O_RDONLY s;
     if fd < 0 then Some (s, - 1)
     else do {
       (s, count, out) \<leftarrow> sys_read fd sizeof_elf_head s;
       d \<leftarrow> put_bytes 0 out (take (nat sizeof_elf_head) (stack_bytes s));
       if count \<le> 0 then close_with fd (- 1) s
       else do {
         h \<leftarrow> elf_head d;
         if e_ident h ! 0 \<noteq> 0x7F \<or> take 3 (drop 1 (e_ident h)) \<noteq> [0x45, 0x4C, 0x46] then close_with fd (- 1) s
         else if e_type h \<noteq> 2 \<or> e_machine h \<noteq> 3 then close_with fd (- 1) s
         else if e_phentsize h = 0 \<or> e_phoff h = 0 then close_with fd (- 1) s
         else do {
           (s, r) \<leftarrow> load_pheads (unat (e_phnum h)) fd h (e_phoff h) pde (take (nat sizeof_elf_phead) (stack_bytes s)) s;
           case r of
             Some r \<Rightarrow> Some (s, r)
           | None \<Rightarrow> close_with fd (sint (e_entry h)) s } } } }"

section \<open>Arguments\<close>

text \<open>The strings of a table are copied below the stack top; the addresses are noted in an array of
  512 entries.\<close>

partial_function (option) copy_strings ::
    "addr \<Rightarrow> addr \<Rightarrow> nat \<Rightarrow> addr \<Rightarrow> uint list \<Rightarrow> ('d, 'a) system_scheme \<Rightarrow>
       (('d, 'a) system_scheme \<times> addr \<times> uint list) option" where
  "copy_strings pde table n sp addrs s =
     (let p = load32 (pmem s) (table + 4 * of_nat n) in
      if n \<ge> 512 then None
      else if p \<noteq> 0
      then do {
        len \<leftarrow> kstrlen p (pmem s);
        let sp = sp - word_of_int (len + 1);
        let s = upd_mem (\<lambda>m. fst (copy_to_user_n pde sp p (word_of_int (len + 1)) m)) s;
        copy_strings pde table (n + 1) sp (addrs @ [sp]) s }
      else Some (s, sp, addrs @ [0]))"

text \<open>The loops that write the tables advance the bound instead of the counter: they read on behind the
  table's end.\<close>

partial_function (option) copy_table ::
    "addr \<Rightarrow> int \<Rightarrow> int \<Rightarrow> addr \<Rightarrow> uint list \<Rightarrow> ('d, 'a) system_scheme \<Rightarrow> (('d, 'a) system_scheme \<times> addr \<times> int) option" where
  "copy_table pde i n sp addrs s =
     (if i \<le> n
      then do {
        a \<leftarrow> fetch n addrs;
        let sp = sp - 4;
        let s = upd_mem (\<lambda>m. fst (copy_to_user_n pde sp a 4 m)) s;
        copy_table pde i (n + 1) sp addrs s }
      else Some (s, sp, n))"

declare load_pages.simps [code] copy_strings.simps [code] copy_table.simps [code]

text \<open>\<open>argc\<close> is copied from its place on the kernel's stack, a parameter.\<close>

definition copy_args_envs ::
    "addr \<Rightarrow> addr \<Rightarrow> addr \<Rightarrow> addr \<Rightarrow> ('d, 'a) system_scheme \<Rightarrow> (('d, 'a) system_scheme \<times> addr) option" where
  "copy_args_envs argc_at pde argv env s =
     (let put_argc = (\<lambda>n sp. upd_mem (\<lambda>m. fst (copy_to_user_n pde sp argc_at 4 (store32 m argc_at n))))
      in if argv = 0 then let sp = 0xFFFFFFFF - 4 in Some (put_argc 0 sp s, sp)
      else do {
        (s, sp, args) \<leftarrow> copy_strings pde argv 0 0xFFFFFFFF [] s;
        (s, sp, envs) \<leftarrow> copy_strings pde env 0 sp [] s;
        (s, sp, envc) \<leftarrow> copy_table pde 0 (int (length envs) - 1) sp envs s;
        (s, sp, argc) \<leftarrow> copy_table pde 0 (int (length args) - 1) sp args s;
        let sp = sp - 4;
        Some (put_argc (word_of_int argc) sp s, sp) })"

section \<open>Fork and exec\<close>

fun inherit_files :: "nat \<Rightarrow> nat option list \<Rightarrow> nat \<Rightarrow> ('d, 'a) system_scheme \<Rightarrow> ('d, 'a) system_scheme option" where
  "inherit_files i [] child s = Some s"
| "inherit_files i (f # fs) child s = do {
     s \<leftarrow> (case f of
        None \<Rightarrow> Some s
      | Some f' \<Rightarrow> do {
          s \<leftarrow> file_inc_ref f' s;
          Some (upd_task child (\<lambda>k. k\<lparr>open_file_table := (open_file_table k)[i := f]\<rparr>) s) });
     inherit_files (i + 1) fs child s }"

definition copy_open_files :: "nat \<Rightarrow> ('d, 'a) system_scheme \<Rightarrow> ('d, 'a) system_scheme option" where
  "copy_open_files child s = do {
     parent \<leftarrow> current s;
     inherit_files 0 (take TASK_OPEN_MAX_FILES (open_file_table (tasks s parent))) child s }"

text \<open>The return address, the user's entry point and stack come from the caller's stack frame.\<close>

definition do_fork :: "uint \<Rightarrow> uint \<Rightarrow> uint \<Rightarrow> ('d, 'a) system_scheme \<Rightarrow> (('d, 'a) system_scheme \<times> int) option" where
  "do_fork eip entry esp s = do {
     parent \<leftarrow> current s;
     (s, child) \<leftarrow> alloc_task s;
     let c = unat child;
     (s, _) \<leftarrow> task_init child (t_name (tasks s parent)) eip s;
     let s = upd_task c (\<lambda>k. k\<lparr>t_tss := (t_tss k)\<lparr>tss_eip := entry, tss_esp := esp\<rparr>\<rparr>) s;
     s \<leftarrow> copy_open_files c s;
     let s = upd_task c (\<lambda>k. k\<lparr>t_parent := Some parent\<rparr>) s;
     (s, err) \<leftarrow> copy_memory (t_cr3 (tasks s c)) s;
     if err < 0 then Some (upd_task c (\<lambda>k. k\<lparr>t_state := TASK_ZOMBIE\<rparr>) s, - 1)
     else let s = upd_task c (\<lambda>k. k\<lparr>t_state := TASK_RUNNING\<rparr>) s in Some (s, t_pid (tasks s c)) }"

text \<open>With the result 0 the call leaves for user mode and does not return.\<close>

definition sys_fork :: "uint \<Rightarrow> uint \<Rightarrow> uint \<Rightarrow> ('d, 'a) system_scheme \<Rightarrow> (('d, 'a) system_scheme \<times> int) option" where
  "sys_fork eip entry esp s = do {
     (s, pid) \<leftarrow> do_fork eip entry esp s;
     if pid = 0 then None else Some (s, pid) }"

definition USER_STACK_SIZE :: uint where "USER_STACK_SIZE = 500 * 4096"

definition get_filename :: "uchar list \<Rightarrow> uchar list" where
  "get_filename path = rev (takeWhile (\<lambda>c. c \<noteq> SLASH) (rev path))"

text \<open>The name field has 32 bytes; a longer file name runs over the fields behind it.\<close>

definition sys_execve ::
    "addr \<Rightarrow> uchar list \<Rightarrow> addr \<Rightarrow> addr \<Rightarrow> ('d, 'a) system_scheme \<Rightarrow> (('d, 'a) system_scheme \<times> int) option" where
  "sys_execve argc_at name argv env s = do {
     task \<leftarrow> current s;
     if length (get_filename name) > 31 then None else do {
     let s = upd_task task (\<lambda>k. k\<lparr>t_name := map (\<lambda>c. char_of (unat c)) (get_filename name)\<rparr>) s;
     let o_page_dir = t_cr3 (tasks s task);
     (s, n_page_dir) \<leftarrow> create_pde s;
     if n_page_dir \<le> 0 then Some (s, - 1)
     else do {
       (s, r) \<leftarrow> load_elf_file name n_page_dir s;
       let entry = (word_of_int r :: uint);
       if entry \<le> 0 then do { s \<leftarrow> destroy_pde n_page_dir s; Some (s, - 1) }
       else do {
         (s, err) \<leftarrow> alloc_vpages n_page_dir (0xFFFFFFFF - USER_STACK_SIZE) (USER_STACK_SIZE + 4096) s;
         if err < 0 then do { s \<leftarrow> destroy_pde n_page_dir s; Some (s, - 1) }
         else do {
           (s, stack_top) \<leftarrow> copy_args_envs argc_at n_page_dir argv env s;
           if stack_top < 0 then do { s \<leftarrow> destroy_pde n_page_dir s; Some (s, - 1) }
           else do {
             s \<leftarrow> destroy_pde o_page_dir s;
             let s = upd_task task (\<lambda>k. k\<lparr>t_cr3 := n_page_dir\<rparr>) s;
             let s = s\<lparr>cpu_cr3 := n_page_dir\<rparr>;
             Some (upd_task task (\<lambda>k. k\<lparr>t_tss := (t_tss k)\<lparr>tss_eip := entry, tss_esp := stack_top\<rparr>\<rparr>) s, 0) } } } } } }"

section \<open>Entering user mode\<close>

text \<open>What \<open>iret\<close> and the loads before it leave in the registers.\<close>

record user_context =
  u_cs :: uint
  u_ds :: uint
  u_eflags :: uint
  u_eip :: uint
  u_esp :: uint

definition switch_to_user_mode :: "uint \<Rightarrow> uint \<Rightarrow> user_context" where
  "switch_to_user_mode entry stack_top =
     \<lparr>u_cs = ucast USER_SELECTOR_CS, u_ds = ucast USER_SELECTOR_DS, u_eflags = 0x202, u_eip = entry, u_esp = stack_top\<rparr>"

end
