(* ===== verification/Exec_Facts.thy ===== *)
theory Exec_Facts
  imports Exec Fs_Facts
begin

text \<open>
  Facts on processes and programs: what a forked process inherits of the open files, and the
  argument tables of \<open>exec\<close>.
\<close>

section \<open>Inherited files\<close>

definition inherited :: "'x option list \<Rightarrow> 'x option list \<Rightarrow> 'x option list" where
  "inherited parent child = map2 (\<lambda>p c. if p = None then c else p) parent child"

text \<open>The loop over the slots from \<open>i\<close> on.\<close>

definition files_valid :: "nat option list \<Rightarrow> ('d, 'a) fsys_scheme \<Rightarrow> bool" where
  "files_valid fs s \<longleftrightarrow> (\<forall>f \<in> set fs. \<forall>f'. f = Some f' \<longrightarrow> f' < length (file_table s))"

lemma file_inc_ref_eq:
  assumes "idle_mutex FILE_MUTEX s" "f < length (file_table s)"
  shows "file_inc_ref f s = Some (upd_file f (\<lambda>x. x\<lparr>f_ref := f_ref x + 1\<rparr>) s)"
  using assms file_lock_unlock [OF assms(1)] by (simp add: file_inc_ref_def the_file_def)

text \<open>What \<open>inherit_files\<close> does to the state.\<close>

definition inherits :: "nat \<Rightarrow> nat option list \<Rightarrow> nat \<Rightarrow> ('d, 'a) fsys_scheme \<Rightarrow> ('d, 'a) fsys_scheme \<Rightarrow> bool" where
  "inherits i fs c s s' \<longleftrightarrow>
     length (open_file_table (tasks s' c)) = length (open_file_table (tasks s c))
     \<and> (\<forall>j < length (open_file_table (tasks s c)). open_file_table (tasks s' c) ! j =
         (if i \<le> j \<and> j < i + length fs \<and> fs ! (j - i) \<noteq> None then fs ! (j - i) else open_file_table (tasks s c) ! j))
     \<and> (\<forall>t. t \<noteq> c \<longrightarrow> tasks s' t = tasks s t)
     \<and> length (file_table s') = length (file_table s)
     \<and> (\<forall>f < length (file_table s). file_table s' ! f =
         (file_table s ! f)\<lparr>f_ref := f_ref (file_table s ! f) + int (count_list fs (Some f))\<rparr>)
     \<and> tasks s' c = (tasks s c)\<lparr>open_file_table := open_file_table (tasks s' c)\<rparr>
     \<and> s' = s\<lparr>tasks := tasks s', file_table := file_table s'\<rparr>"

lemma inherit_files_inherits:
  assumes "idle_mutex FILE_MUTEX s" "files_valid fs s"
  shows "\<exists>s'. inherit_files i fs c s = Some s' \<and> inherits i fs c s s'"
  using assms
proof (induction fs arbitrary: i s)
  case Nil
  then show ?case by (auto simp: inherits_def)
next
  case (Cons f fs)
  show ?case
  proof (cases f)
    case None
    then obtain s' where "inherit_files (i + 1) fs c s = Some s'" "inherits (i + 1) fs c s s'"
      using Cons.IH [of s "i + 1"] Cons.prems by (auto simp: files_valid_def)
    then show ?thesis using None by (auto simp: inherits_def nth_Cons' split: if_splits)
  next
    case (Some f')
    let ?s = "upd_task c (\<lambda>k. k\<lparr>open_file_table := (open_file_table k)[i := Some f']\<rparr>)
      (upd_file f' (\<lambda>x. x\<lparr>f_ref := f_ref x + 1\<rparr>) s)"
    have f': "f' < length (file_table s)" using Cons.prems(2) Some by (simp add: files_valid_def)
    have i: "idle_mutex FILE_MUTEX ?s" using Cons.prems(1) by (simp add: idle_mutex_def upd_task_def upd_file_def)
    have "files_valid fs ?s" using Cons.prems(2) by (simp add: files_valid_def upd_task_def upd_file_def)
    then obtain s' where s': "inherit_files (i + 1) fs c ?s = Some s'" "inherits (i + 1) fs c ?s s'"
      using Cons.IH [OF i, of "i + 1"] by blast
    have "inherit_files i (f # fs) c s = Some s'"
      using s'(1) file_inc_ref_eq [OF Cons.prems(1) f'] Some by simp
    moreover have "inherits i (f # fs) c s s'"
      using s'(2) f' Some
      by (auto simp: inherits_def upd_task_def upd_file_def nth_list_update nth_Cons' split: if_splits)
    ultimately show ?thesis by blast
  qed
qed

text \<open>C22: A forked process gets every open file of its parent under the same descriptor, and each open
  file gains one reference for each descriptor.  The other slots of its table are not
  cleared: they keep what the memory of the new process happened to hold.\<close>

theorem copy_open_files_inherits:
  assumes cur: "current s = Some p" "p \<noteq> c" and idle: "idle_mutex FILE_MUTEX s"
    and parent: "length (open_file_table (tasks s p)) = TASK_OPEN_MAX_FILES" "files_valid (open_file_table (tasks s p)) s"
    and child: "length (open_file_table (tasks s c)) = TASK_OPEN_MAX_FILES"
  shows "\<exists>s'. copy_open_files c s = Some s'
    \<and> open_file_table (tasks s' c) = inherited (open_file_table (tasks s p)) (open_file_table (tasks s c))
    \<and> tasks s' p = tasks s p
    \<and> (\<forall>f < length (file_table s). f_ref (file_table s' ! f) =
        f_ref (file_table s ! f) + int (count_list (open_file_table (tasks s p)) (Some f)))"
proof -
  let ?fs = "open_file_table (tasks s p)"
  obtain s' where s': "inherit_files 0 ?fs c s = Some s'" "inherits 0 ?fs c s s'"
    using inherit_files_inherits [OF idle parent(2)] by blast
  have "open_file_table (tasks s' c) = inherited ?fs (open_file_table (tasks s c))"
    using s'(2) parent(1) child by (intro nth_equalityI) (simp_all add: inherits_def inherited_def)
  then show ?thesis
    using s' cur parent(1) by (intro exI [of _ s']) (simp add: copy_open_files_def inherits_def)
qed

text \<open>The small system of the file layers, with processes.  Process 1 has garbage in slot 1.\<close>

definition demo_system :: "ide system" where
  "demo_system = fsys.extend demo_open \<lparr>next_pid = 1\<rparr>"

lemma demo_system_fields:
  "current demo_system = Some 0" "tasks demo_system = tasks demo_open" "file_table demo_system = file_table demo_fs"
  "idle_mutex m demo_system" "cpu_cr3 demo_system = cpu_cr3 demo_fs"
  using demo_fs_idle(2) by (simp_all add: demo_system_def fsys.defs demo_open_def idle_mutex_def)

definition demo_child :: "ide system" where
  "demo_child = upd_task 1 (\<lambda>k. k\<lparr>open_file_table := None # Some 7 # replicate 126 None\<rparr>) demo_system"

lemma copy_open_files_inherits_witness:
  "\<exists>s'. copy_open_files 1 demo_child = Some s' \<and> open_file_table (tasks s' 1) = Some 0 # Some 7 # replicate 126 None
     \<and> f_ref (file_table s' ! 0) = 2"
proof -
  have t: "open_file_table (tasks demo_child 0) = Some 0 # replicate 127 None"
    "open_file_table (tasks demo_child 1) = None # Some 7 # replicate 126 None"
    by (simp_all add: demo_child_def demo_system_fields demo_open_def upd_task_def)
  have f: "file_table demo_child = demo_file # replicate 2047 no_file" "current demo_child = Some 0" "idle_mutex FILE_MUTEX demo_child"
    using demo_system_fields(4) by (simp_all add: demo_child_def demo_system_fields demo_fs_fields upd_task_def idle_mutex_def)
  have "inherited (Some 0 # replicate 127 None) (None # Some 7 # replicate 126 None) = Some 0 # Some 7 # replicate 126 None"
    by (simp add: inherited_def numeral_eq_Suc zip_replicate)
  moreover have "count_list (replicate 127 None) (Some 0) = (0 :: nat)" by (simp add: count_list_0_iff)
  ultimately show ?thesis
    using copy_open_files_inherits [of demo_child 0 1] t f
    by (auto simp: TASK_OPEN_MAX_FILES_def files_valid_def demo_file_def no_file_def)
qed

section \<open>Argument tables\<close>

lemma copy_table_runs_off:
  "i \<le> n \<Longrightarrow> 0 \<le> n \<Longrightarrow> copy_table pde i n sp addrs s = None"
proof (induction "length addrs - nat n" arbitrary: n sp s rule: less_induct)
  case less
  show ?case
  proof (cases "fetch n addrs")
    case None
    then show ?thesis using less.prems by (subst copy_table.simps) simp
  next
    case (Some a)
    then have "nat n < length addrs" by (auto simp: fetch_def split: if_splits)
    then have "length addrs - nat (n + 1) < length addrs - nat n" using less.prems by (simp add: nat_add_distrib)
    then show ?thesis using less.hyps [of "n + 1"] less.prems Some by (subst copy_table.simps) (simp add: Let_def)
  qed
qed

lemma copy_strings_nonempty: "copy_strings pde table n sp addrs s = Some (s', sp', xs) \<Longrightarrow> xs \<noteq> []"
proof -
  have "snd (snd r) \<noteq> []" if "copy_strings pde table n sp addrs s = Some r" for r
    using that
    by (rule copy_strings.raw_induct [where P = "\<lambda>_ _ _ _ _ _ r. snd (snd r) \<noteq> []", rotated])
      (auto simp: Let_def bind_eq_Some_conv split: if_splits)
  then show "copy_strings pde table n sp addrs s = Some (s', sp', xs) \<Longrightarrow> xs \<noteq> []" by fastforce
qed

lemma copy_args_envs_stuck:
  assumes "argv \<noteq> 0"
  shows "copy_args_envs at pde argv env s = None"
proof -
  have t: "copy_table pde 0 (int (length xs) - 1) sp xs s = None"
    if "copy_strings pde table n sp0 addrs s0 = Some (s1, sp1, xs)" for table n sp0 addrs s0 s1 sp1 xs sp s
    using copy_strings_nonempty [OF that] by (intro copy_table_runs_off) (cases xs, simp_all)+
  have "copy_args_envs at pde argv env s \<noteq> Some r" for r
    using assms by (auto simp: copy_args_envs_def Let_def bind_eq_Some_conv) (metis t option.distinct(1))
  then show ?thesis by (cases "copy_args_envs at pde argv env s") auto
qed

text \<open>C39: With an argument table \<open>exec\<close>
  never succeeds: the loops that write the tables advance their bound and run off the
  array, so a call that returns has failed with \<open>-1\<close> before.\<close>

theorem exec_with_arguments_never_succeeds:
  assumes "argv \<noteq> 0"
  shows "copy_args_envs at pde argv env s = None \<and> sys_execve at name argv env s \<notin> Some ` {(s', r). r \<noteq> - 1}"
  by (auto simp: copy_args_envs_stuck [OF assms] sys_execve_def Let_def bind_eq_Some_conv split: if_splits)

lemma exec_with_arguments_never_succeeds_witness:
  "copy_args_envs 0x600000 0x200000 0x3000 0 demo_system = None"
  by (rule exec_with_arguments_never_succeeds [THEN conjunct1]) simp

end
