(* ===== verification/Switch.thy ===== *)
theory Switch
  imports Exec_Facts Fork
begin

text \<open>
  The assembly of \<open>__switch_to\<close> in \<open>source/kernel/sched.c\<close>, with the instructions the compiler puts
  around it (the comment above the function names them).  The registers, the kernel stacks in
  memory, and the switch as the scheduler of \<open>Task\<close> sees it: the processor continues as the
  other task, and the first one is left as it was.
\<close>

section \<open>The switch\<close>

record regs =
  reg_eip :: uint
  reg_esp :: uint
  reg_ebp :: uint
  reg_eflags :: uint
  reg_eax :: uint
  reg_ebx :: uint
  reg_ecx :: uint
  reg_edx :: uint
  reg_esi :: uint
  reg_edi :: uint

fun pop_words :: "nat \<Rightarrow> addr \<Rightarrow> mem \<Rightarrow> uint list" where
  "pop_words 0 p m = []"
| "pop_words (Suc n) p m = load32 m p # pop_words n (p + 4) m"

text \<open>The variable \<open>current\<close> as a word: a null pointer before the first task runs.\<close>

definition current_word :: "nat option \<Rightarrow> uint" where
  "current_word c = (case c of None \<Rightarrow> 0 | Some t \<Rightarrow> of_nat t)"

definition current_of :: "uint \<Rightarrow> nat option" where
  "current_of w = (if w = 0 then None else Some (unat w))"

text \<open>The words pushed: the return address, the compiler's \<open>%ebx\<close>, the registers of the
  assembly, and \<open>current\<close> last.\<close>

definition switch_frame :: "regs \<Rightarrow> nat option \<Rightarrow> uint list" where
  "switch_frame r c = [reg_eip r, reg_ebx r, reg_ebp r, reg_eflags r, reg_eax r, reg_ebx r, reg_ecx r, reg_edx r,
     reg_esi r, reg_edi r, current_word c]"

text \<open>The words popped, from the address \<open>p\<close>: the compiler's \<open>pop %ebx\<close> comes after the one of the
  assembly.\<close>

definition pop_frame :: "addr \<Rightarrow> mem \<Rightarrow> regs \<times> nat option" where
  "pop_frame p m = (let w = (!) (pop_words 11 p m) in
     (\<lparr>reg_eip = w 10, reg_esp = p + 44, reg_ebp = w 8, reg_eflags = w 7, reg_eax = w 6, reg_ebx = w 9, reg_ecx = w 4,
       reg_edx = w 3, reg_esi = w 2, reg_edi = w 1\<rparr>, current_of (w 0)))"

definition switch_stacks :: "nat \<Rightarrow> nat \<Rightarrow> regs \<Rightarrow> 'a phys_scheme \<Rightarrow> regs \<times> 'a phys_scheme" where
  "switch_stacks prev next r s =
     (let (esp, m) = push_words (reg_esp r) (switch_frame r (current s)) (pmem s);
          s = upd_task prev (\<lambda>k. k\<lparr>t_esp := esp\<rparr>) (s\<lparr>pmem := m\<rparr>);
          (r, cur) = pop_frame (t_esp (tasks s next)) m
      in (r, s\<lparr>current := cur\<rparr>))"

section \<open>The saved frame\<close>

text \<open>A task that is not running has its registers on its kernel stack.\<close>

definition saved :: "'a phys_scheme \<Rightarrow> nat \<Rightarrow> regs \<Rightarrow> bool" where
  "saved s t r \<longleftrightarrow> t_esp (tasks s t) = reg_esp r - 44 \<and>
     pop_words 11 (reg_esp r - 44) (pmem s) = rev (switch_frame r (Some t))"

text \<open>Numbers of tasks are addresses of their \<open>task_t\<close>, and stacks do not overlap.\<close>

definition task_id :: "nat \<Rightarrow> bool" where
  "task_id t \<longleftrightarrow> 0 < t \<and> t < 2 ^ 32"

definition room :: "regs \<Rightarrow> regs \<Rightarrow> bool" where
  "room r r' \<longleftrightarrow> apart 44 (reg_esp r) (reg_esp r')"

lemma push_words_esp: "fst (push_words p ws m) = p - of_nat (4 * length ws)"
  by (induction p ws m rule: push_words.induct) (simp_all add: algebra_simps)

lemma push_words_frame:
  "(\<And>i. i < 4 * length ws \<Longrightarrow> b \<noteq> p - of_nat (4 * length ws) + of_nat i) \<Longrightarrow> snd (push_words p ws m) b = m b"
proof (induction p ws m rule: push_words.induct)
  case (2 p v vs m)
  have "b \<noteq> p - 4 - of_nat (4 * length vs) + of_nat i" if "i < 4 * length vs" for i
    using 2(2) [of i] that by (simp add: algebra_simps)
  then have "snd (push_words p (v # vs) m) b = store32 m (p - 4) v b" using 2(1) by simp
  also have "\<dots> = m b"
  proof (rule store32_frame)
    fix i :: nat
    assume "i < 4"
    then show "b \<noteq> p - 4 + of_nat i" using 2(2) [of "4 * length vs + i"] by (simp add: algebra_simps)
  qed
  finally show ?case .
qed simp

lemma length_pop_words [simp]: "length (pop_words n p m) = n"
  by (induction n p m rule: pop_words.induct) simp_all

lemma pop_words_snoc: "pop_words (Suc n) p m = pop_words n p m @ [load32 m (p + of_nat (4 * n))]"
proof (induction n arbitrary: p)
  case (Suc n)
  have "pop_words (Suc (Suc n)) p m = load32 m p # pop_words n (p + 4) m @ [load32 m (p + 4 + of_nat (4 * n))]"
    by (subst pop_words.simps(2)) (simp only: Suc.IH)
  then show ?case by (simp add: algebra_simps)
qed simp

lemma pop_words_cong:
  "(\<And>i. i < 4 * n \<Longrightarrow> m (p + of_nat i) = m' (p + of_nat i)) \<Longrightarrow> pop_words n p m = pop_words n p m'"
proof (induction n arbitrary: p)
  case (Suc n)
  have "load32 m p = load32 m' p" using Suc.prems by (intro load32_cong) simp
  moreover have "m (p + 4 + of_nat i) = m' (p + 4 + of_nat i)" if "i < 4 * n" for i
    using Suc.prems [of "i + 4"] that by (simp add: algebra_simps)
  ultimately show ?case using Suc.IH [of "p + 4"] by simp
qed simp

text \<open>What was pushed is popped in the opposite order.\<close>

lemma pop_push_words:
  "4 * length ws \<le> 2 ^ 31 \<Longrightarrow>
   pop_words (length ws) (p - of_nat (4 * length ws)) (snd (push_words p ws m)) = rev ws"
proof (induction p ws m rule: push_words.induct)
  case (2 p v vs m)
  have "load32 (snd (push_words (p - 4) vs (store32 m (p - 4) v))) (p - 4) = load32 (store32 m (p - 4) v) (p - 4)"
  proof (intro load32_cong push_words_frame)
    fix i j :: nat
    assume i: "i < 4" and j: "j < 4 * length vs"
    show "p - 4 + of_nat i \<noteq> p - 4 - of_nat (4 * length vs) + of_nat j"
    proof
      assume "p - 4 + of_nat i = p - 4 - of_nat (4 * length vs) + of_nat j"
      then have "(of_nat (i + 4 * length vs) :: addr) = of_nat j" by (simp add: algebra_simps)
      then have "unat (of_nat (i + 4 * length vs) :: addr) = unat (of_nat j :: addr)" by simp
      then show False using i j 2(2) by (simp add: unat_of_nat del: of_nat_add of_nat_mult)
    qed
  qed
  then show ?case using 2 by (simp add: pop_words_snoc algebra_simps del: pop_words.simps)
qed simp

lemma current_word_of:
  assumes "task_id t"
  shows "current_of (current_word (Some t)) = Some t"
proof -
  have "unat (of_nat t :: addr) = t" using assms by (simp add: task_id_def unat_of_nat)
  moreover from this have "(of_nat t :: addr) \<noteq> 0" using assms by (auto simp: task_id_def)
  ultimately show ?thesis by (simp add: current_of_def current_word_def)
qed

lemma length_switch_frame [simp]: "length (switch_frame r c) = 11"
  by (simp add: switch_frame_def)

lemma pop_saved:
  assumes "pop_words 11 p m = rev (switch_frame r (Some t))" and "p = reg_esp r - 44" and "task_id t"
  shows "pop_frame p m = (r, Some t)"
  using assms current_word_of [of t] by (simp add: pop_frame_def switch_frame_def)

text \<open>A frame on a stack that does not overlap another survives a switch.\<close>

lemma frame_survives:
  assumes "room r r'" and "length ws = 11"
  shows "pop_words 11 (reg_esp r' - 44) (snd (push_words (reg_esp r) ws m)) = pop_words 11 (reg_esp r' - 44) m"
proof (intro pop_words_cong push_words_frame)
  fix i j :: nat
  assume "i < 4 * 11" and "j < 4 * length ws"
  then have "reg_esp r' + of_nat i \<noteq> reg_esp r + of_nat j"
    using word_add_of_nat_neq [of 44 "reg_esp r'" "reg_esp r" i j] assms by (simp add: room_def apart_sym)
  then show "reg_esp r' - 44 + of_nat i \<noteq> reg_esp r - of_nat (4 * length ws) + of_nat j"
    using assms(2) by (simp add: algebra_simps)
qed

text \<open>C3: The context switch.  When the other task has its registers saved on its kernel stack,
  the processor continues with exactly them and \<open>current\<close> is that task; the registers of the
  first task are saved the same way, so the next switch to it resumes it; the frames of all
  tasks whose stacks are elsewhere are kept; and apart from the stacks the state is that of the
  scheduler's \<open>switch_to\<close>.\<close>

theorem switch_exchanges_registers:
  assumes "current s = Some p" and "p \<noteq> n" and "task_id p" "task_id n"
    and "saved s n r'" and "room r r'"
  shows "\<exists>s'. switch_stacks p n r s = (r', s') \<and> current s' = Some n \<and> saved s' p r
    \<and> (\<forall>t r''. t \<noteq> p \<and> saved s t r'' \<and> room r r'' \<longrightarrow> saved s' t r'')
    \<and> s'\<lparr>pmem := pmem s, tasks := tasks s\<rparr> = switch_to p n s"
proof -
  let ?ws = "switch_frame r (Some p)"
  obtain m where push: "push_words (reg_esp r) ?ws (pmem s) = (reg_esp r - 44, m)"
    using push_words_esp [of "reg_esp r" ?ws "pmem s"] by (cases "push_words (reg_esp r) ?ws (pmem s)") simp
  let ?s = "upd_task p (\<lambda>k. k\<lparr>t_esp := reg_esp r - 44\<rparr>) (s\<lparr>pmem := m\<rparr>)"
  have kept: "pop_words 11 (reg_esp q - 44) m = pop_words 11 (reg_esp q - 44) (pmem s)" if "room r q" for q
    using frame_survives [OF that, of ?ws "pmem s"] by (simp add: push)
  have "pop_frame (t_esp (tasks ?s n)) m = (r', Some n)"
    using assms kept by (intro pop_saved) (auto simp: saved_def upd_task_def)
  then have "switch_stacks p n r s = (r', ?s\<lparr>current := Some n\<rparr>)"
    using assms(1) by (simp add: switch_stacks_def push)
  moreover have "saved (?s\<lparr>current := Some n\<rparr>) p r"
    using pop_push_words [of ?ws "reg_esp r" "pmem s"] by (simp add: saved_def upd_task_def push)
  moreover have "saved (?s\<lparr>current := Some n\<rparr>) t q" if "t \<noteq> p" "saved s t q" "room r q" for t q
    using that kept by (simp add: saved_def upd_task_def)
  moreover have "(?s\<lparr>current := Some n\<rparr>)\<lparr>pmem := pmem s, tasks := tasks s\<rparr> = switch_to p n s"
    using assms(1,2) by (simp add: switch_to_def upd_task_def)
  ultimately show ?thesis by auto
qed

section \<open>A new task\<close>

text \<open>The pages of the frame on a new kernel stack: they are in use, since the heap they come from is
  made of allocated pages, and lie above the page map.\<close>

definition stack_pages :: "uint \<Rightarrow> int set" where
  "stack_pages task = (\<lambda>i. page_no (task + 8148 + of_nat i)) ` {..<44}"

definition kernel_stack :: "'a phys_scheme \<Rightarrow> uint \<Rightarrow> bool" where
  "kernel_stack s task \<longleftrightarrow> task \<noteq> 0 \<and> task + 8192 \<noteq> 0 \<and> (\<forall>q \<in> stack_pages task. table_page q \<and> used s q)"

definition entry_regs :: "uint \<Rightarrow> uint \<Rightarrow> regs" where
  "entry_regs task entry = \<lparr>reg_eip = entry, reg_esp = task + 8192, reg_ebp = 0, reg_eflags = 0x202, reg_eax = 0,
     reg_ebx = 0, reg_ecx = 0, reg_edx = 0, reg_esi = 0, reg_edi = 0\<rparr>"

lemma push_outside_stack:
  assumes "page_no x \<notin> stack_pages task" and "length ws = 11"
  shows "snd (push_words (task + 8192) ws m) x = m x"
proof (rule push_words_frame)
  fix i :: nat
  assume i: "i < 4 * length ws"
  have "task + 8192 - of_nat (4 * length ws) + of_nat i = task + 8148 + of_nat i" using assms(2) by simp
  moreover have "page_no (task + 8148 + of_nat i) \<in> stack_pages task" using i assms(2) by (simp add: stack_pages_def)
  ultimately show "x \<noteq> task + 8192 - of_nat (4 * length ws) + of_nat i" using assms(1) by metis
qed

text \<open>The frame stays while pages are taken.\<close>

lemma frame_grows:
  assumes "grows X s s'" and "kernel_stack s task" and "X \<inter> stack_pages task = {}"
  shows "pop_words 11 (task + 8148) (pmem s') = pop_words 11 (task + 8148) (pmem s)"
proof (rule pop_words_cong)
  fix i :: nat
  assume "i < 4 * 11"
  then have "page_no (task + 8148 + of_nat i) \<in> stack_pages task" by (simp add: stack_pages_def)
  then show "pmem s' (task + 8148 + of_nat i) = pmem s (task + 8148 + of_nat i)"
    using assms(2,3) by (intro grows_byte [OF assms(1)]) (auto simp: kernel_stack_def)
qed

lemma kernel_stack_cong: "(\<And>q. q \<in> stack_pages task \<Longrightarrow> used t q = used s q) \<Longrightarrow> kernel_stack t task = kernel_stack s task"
  by (auto simp: kernel_stack_def)

lemma queue_empty_insert:
  "x \<noteq> c \<Longrightarrow> x \<noteq> q \<Longrightarrow> queue_empty (queue_insert_tail c q h) x = queue_empty h x"
  by (simp add: queue_empty_def queue_insert_tail_def Let_def set_nxt_def set_prv_def)

text \<open>What \<open>task_init\<close> does, in a state with a free page.\<close>

lemma task_init_spec:
  fixes s :: "('d, 'a) system_scheme"
  assumes ok: "phys_ok s" and st: "kernel_stack s task" and free: "\<not> exhausted s"
  obtains s' d where "task_init task name entry s = Some (s', 0)" "saved s' (unat task) (entry_regs task entry)"
    "grows (stack_pages task) s (s\<lparr>pmem := pmem s'\<rparr>)" "taken 1 s s'" "phys_ok s'"
    "table_page d" "\<not> used s d" "used s' d" "bitmap s' = bitmap s" "current s' = current s" "mutexes s' = mutexes s"
    "\<And>m. queue_empty (links s') (MutexHead m) = queue_empty (links s) (MutexHead m)" "file_table s' = file_table s"
    "\<And>t. t \<noteq> unat task \<Longrightarrow> tasks s' t = tasks s t" "t_cr3 (tasks s' (unat task)) = frame d"
    "t_pid (tasks s' (unat task)) = next_pid s" "open_file_table (tasks s' (unat task)) = open_file_table (tasks s (unat task))"
proof -
  let ?fr = "switch_frame (entry_regs task entry) (Some (unat task))"
  have fr: "[entry, 0, 0, 0x202, 0, 0, 0, 0, 0, 0, task] = ?fr"
    by (simp add: switch_frame_def entry_regs_def current_word_def)
  obtain m where push: "push_words (task + 8192) ?fr (pmem s) = (task + 8148, m)"
    using push_words_esp [of "task + 8192" ?fr "pmem s"] by (cases "push_words (task + 8192) ?fr (pmem s)") simp
  have nz: "task \<noteq> 0" "task + 8192 \<noteq> 0" and pages: "\<And>q. q \<in> stack_pages task \<Longrightarrow> table_page q \<and> used s q"
    using st by (auto simp: kernel_stack_def)
  have out: "m x = pmem s x" if "page_no x \<notin> stack_pages task" for x
    using push_outside_stack [OF that, of ?fr "pmem s"] by (simp add: push)
  note g1 = grows_bytes [OF ok out, of "stack_pages task"]
  define u where "u = upd_task (unat task) (\<lambda>k. k\<lparr>t_pid := next_pid s, t_name := name, t_slice := TASK_SLICE\<rparr>)
    (s\<lparr>next_pid := next_pid s + 1\<rparr>)\<lparr>pmem := m\<rparr>"
  have u: "pmem u = m" "bitmap u = bitmap s" "links u = links s" "mutexes u = mutexes s" by (simp_all add: u_def upd_task_def)
  let ?sm = "s\<lparr>pmem := m\<rparr>"
  have gm: "grows (stack_pages task) s ?sm" "taken 0 s ?sm" using g1 pages by auto
  have used_u: "used u q = used ?sm q" for q by (rule used_cong) (simp_all add: u)
  have same_used: "used u q = used s q" if "is_page q" for q
    using used_u gm(2) growsD(2) [OF gm(1) that] that by (auto simp: taken_def card_eq_0_iff)
  have ok_u: "phys_ok u" using growsD(1) [OF gm(1)] used_u u by (simp add: phys_ok_def page_idle_def)
  have map: "map_ok (bitmap s)" using ok by (simp add: phys_ok_def)
  then have "\<not> exhausted u" using free same_used u(2) by (auto simp: exhausted_def map_ok_def is_page_def)
  then obtain s1 d where pde: "create_pde u = Some (s1, frame d)" "table_page d" "\<not> used u d" "used s1 d"
    "grows {} u s1" "taken 1 u s1"
    using create_pde_grows [OF ok_u] by metis
  have "s1 = s1\<lparr>pmem := pmem u\<rparr>\<lparr>pmem := pmem s1\<rparr>" by simp
  then have s1: "s1 = u\<lparr>pmem := pmem s1\<rparr>" using pde(5) by (simp only: grows_def)
  define s2 where "s2 = upd_task (unat task) (\<lambda>k. k\<lparr>t_esp := task + 8148, t_cr3 := frame d, t_state := TASK_CREATED,
    t_tss := (t_tss k)\<lparr>tss_esp0 := task + 8148, tss_ss0 := ucast KERNEL_SELECTOR_DS, tss_cr3 := frame d\<rparr>\<rparr>) s1"
  define s3 where "s3 = (if entry = 0 then s2\<lparr>idle_task := Some (unat task)\<rparr> else s2)"
  define s' where "s' = upd_links (queue_insert_tail ReadyHead (RqNode (unat task)))
     (upd_links (queue_insert_tail TaskHead (QNode (unat task))) s3)"
  have run: "\<exists>c. task_init task name entry s = Some (s'\<lparr>dcpu := c\<rparr>, 0)"
    using nz pde(1) unfolding u_def
    by (auto simp: task_init_def fr push Let_def upd_task_def upd_links_def enter_crit_def leave_crit_def enter_critical_def
        s'_def s3_def s2_def)
  then obtain c where run: "task_init task name entry s = Some (s'\<lparr>dcpu := c\<rparr>, 0)" ..
  let ?t = "s'\<lparr>dcpu := c\<rparr>"
  have "pmem s' = pmem s1" "bitmap s' = bitmap s1" "current s' = current s1" "mutexes s' = mutexes s1" "file_table s' = file_table s1"
    "tasks s' = tasks s2" by (simp_all add: s'_def s3_def s2_def upd_links_def upd_task_def)
  moreover have "bitmap s1 = bitmap s" "current s1 = current s" "mutexes s1 = mutexes s" "file_table s1 = file_table s"
    "tasks s1 = tasks u" "links s1 = links s" by (subst s1, simp add: u_def upd_task_def)+
  ultimately have f: "pmem ?t = pmem s1" "bitmap ?t = bitmap s" "current ?t = current s" "mutexes ?t = mutexes s"
    "file_table ?t = file_table s" "tasks ?t = tasks s2" "links s1 = links s" "tasks s1 = tasks u" "bitmap s1 = bitmap s" by simp_all
  have empty: "queue_empty (links ?t) (MutexHead k) = queue_empty (links s) (MutexHead k)" for k
    by (simp add: s'_def s3_def s2_def upd_links_def upd_task_def f queue_empty_insert)
  have ut: "used ?t q = used s1 q" for q using f by (intro used_cong) simp_all
  have t: "tasks ?t (unat task) = (tasks s2 (unat task))" "tasks s2 t = (if t = unat task then (tasks u t)\<lparr>t_esp := task + 8148,
      t_cr3 := frame d, t_state := TASK_CREATED, t_tss := (t_tss (tasks u t))\<lparr>tss_esp0 := task + 8148,
      tss_ss0 := ucast KERNEL_SELECTOR_DS, tss_cr3 := frame d\<rparr>\<rparr> else tasks u t)" for t
    using f by (simp_all add: s2_def upd_task_def)
  show ?thesis
  proof (rule that [OF run])
    have "pop_words 11 (task + 8148) (pmem s1) = pop_words 11 (task + 8148) (pmem u)"
    proof (rule frame_grows [OF pde(5)])
      show "kernel_stack u task" using st same_used pages table_is_page kernel_stack_cong [of task u s] by auto
    qed simp
    also have "\<dots> = rev ?fr"
      using pop_push_words [of ?fr "task + 8192" "pmem s"] by (simp add: push u add.commute)
    finally show "saved ?t (unat task) (entry_regs task entry)"
      using f t by (simp add: saved_def entry_regs_def add.commute [of 8148 task])
    have "grows {} ?sm (?sm\<lparr>pmem := pmem s1\<rparr>)" by (rule grows_transfer [OF pde(5)]) (simp_all add: u)
    then show "grows (stack_pages task) s (s\<lparr>pmem := pmem ?t\<rparr>)" using grows_trans [OF gm(1), of "{}"] f(1) by simp
    show "taken 1 s ?t" using pde(6) same_used ut by (auto simp: taken_def)
    show "phys_ok ?t"
      using growsD(1) [OF pde(5)] ut f empty grows_links [OF pde(5)] ok by (simp add: phys_ok_def page_idle_def)
    show "table_page d" by fact
    show "\<not> used s d" using pde(3) same_used table_is_page [OF pde(2)] by simp
    show "used ?t d" using pde(4) ut by simp
    show "tasks ?t k = tasks s k" if "k \<noteq> unat task" for k using t that f by (simp add: u_def upd_task_def)
  qed (use f t empty in \<open>simp_all add: u_def upd_task_def\<close>)
qed

text \<open>C13: A new task.  With a free page for its directory, what \<open>task_init\<close> leaves on the kernel stack
  is a saved frame: the first switch to the task starts it at its entry point, with interrupts
  enabled, the other registers 0 and an empty stack.  The directory is a page of its own, and no
  page in use but the stack is written.\<close>

theorem new_task_is_saved:
  fixes s :: "('d, 'a) system_scheme"
  assumes "phys_ok s" and "kernel_stack s task" and "\<not> exhausted s"
  shows "\<exists>s' d. task_init task name entry s = Some (s', 0) \<and> saved s' (unat task) (entry_regs task entry)
    \<and> t_cr3 (tasks s' (unat task)) = frame d \<and> \<not> used s d \<and> used s' d
    \<and> (\<forall>x. table_page (page_no x) \<and> used s (page_no x) \<and> page_no x \<notin> stack_pages task \<longrightarrow> pmem s' x = pmem s x)"
proof -
  obtain s' d where t: "task_init task name entry s = Some (s', 0)" "saved s' (unat task) (entry_regs task entry)"
    "grows (stack_pages task) s (s\<lparr>pmem := pmem s'\<rparr>)" "\<not> used s d" "used s' d" "t_cr3 (tasks s' (unat task)) = frame d"
    using task_init_spec [OF assms, of name entry] by metis
  have "pmem s' x = pmem s x" if "table_page (page_no x)" "used s (page_no x)" "page_no x \<notin> stack_pages task" for x
    using grows_byte [OF t(3) that] by simp
  then show ?thesis using t by blast
qed

section \<open>Concrete switches\<close>

text \<open>Task 1 runs with its stack at \<open>0x400000\<close>; task 2 has a frame below \<open>0x500000\<close>.\<close>

definition demo_regs :: "uint \<Rightarrow> uint \<Rightarrow> regs" where
  "demo_regs eip esp = \<lparr>reg_eip = eip, reg_esp = esp, reg_ebp = esp + 16, reg_eflags = 0x202, reg_eax = 1, reg_ebx = 2,
     reg_ecx = 3, reg_edx = 4, reg_esi = 5, reg_edi = 6\<rparr>"

definition demo_switch :: phys where
  "demo_switch = demo_phys\<lparr>current := Some 1, tasks := (tasks demo_phys)(2 := boot_task\<lparr>t_esp := 0x4fffd4\<rparr>),
     pmem := snd (push_words 0x500000 (switch_frame (demo_regs 0x1234 0x500000) (Some 2)) demo_mem)\<rparr>"

lemma demo_switch_saved: "saved demo_switch 2 (demo_regs 0x1234 0x500000)"
  using pop_push_words [of "switch_frame (demo_regs 0x1234 0x500000) (Some 2)" "0x500000" demo_mem]
  by (simp add: saved_def demo_switch_def demo_regs_def)

lemma switch_exchanges_registers_witness:
  "\<exists>s'. switch_stacks 1 2 (demo_regs 0x5678 0x400000) demo_switch = (demo_regs 0x1234 0x500000, s')
     \<and> current s' = Some 2 \<and> saved s' 1 (demo_regs 0x5678 0x400000)"
proof -
  have "current demo_switch = Some 1" "(1 :: nat) \<noteq> 2" "task_id 1" "task_id 2"
    by (simp_all add: demo_switch_def task_id_def)
  moreover have "room (demo_regs 0x5678 0x400000) (demo_regs 0x1234 0x500000)"
    by (simp add: room_def apart_def demo_regs_def)
  ultimately show ?thesis
    using switch_exchanges_registers [of demo_switch 1 2, OF _ _ _ _ demo_switch_saved] by blast
qed

definition demo_paged :: "ide system" where
  "demo_paged = demo_system\<lparr>pmem := demo_mem, bitmap := demo_pages\<rparr>"

lemma new_task_is_saved_witness:
  "\<exists>s'. task_init 0x400000 ''shell'' 0x100000 demo_paged = Some (s', 0)
     \<and> saved s' 0x400000 (entry_regs 0x400000 0x100000)"
proof -
  have "phys_ok demo_paged"
    using demo_phys_ok demo_system_fields(4) [of PAGE_MUTEX]
    by (simp add: phys_ok_def page_idle_def used_def demo_paged_def idle_mutex_def)
  moreover have "kernel_stack demo_paged 0x400000"
  proof -
    have "page_no (0x400000 + 8148 + of_nat i) = 0x401" if "i < 44" for i
    proof -
      have "0x400000 + 8148 + of_nat i = (word_of_int (0x401 * 4096 + (0xfd4 + int i)) :: addr)" by simp
      then show ?thesis using page_no_address [of "0x401" "0xfd4 + int i"] that by (simp only:) simp
    qed
    moreover have "table_page 0x401" "used demo_paged 0x401"
      using demo_used [of "0x401"] by (simp_all add: table_page_def used_def demo_paged_def is_page_def)
    ultimately show ?thesis by (auto simp: kernel_stack_def stack_pages_def)
  qed
  moreover have "\<not> exhausted demo_paged"
    using demo_used [of "0x601"] by (auto simp: exhausted_def demo_paged_def demo_pages_def used_def is_page_def intro!: exI [of _ "0x601"])
  ultimately show ?thesis
    using new_task_is_saved [of demo_paged "0x400000" "''shell''" "0x100000"] by auto
qed

end
