(* ===== verification/Child.thy ===== *)
theory Child
  imports Switch Release
begin

text \<open>
  \<open>fork\<close> as a whole (\<open>do_fork\<close> of \<open>source/kernel/task.c\<close>): the facts on the saved frame, the open
  files and the address space put together.
\<close>

section \<open>Views that are carried on\<close>

lemma exhausted_count: "exhausted s \<Longrightarrow> free_page_count s = 0"
  by (simp add: exhausted_def free_page_count_def card_eq_0_iff)

lemma taken_count:
  assumes "taken n s s'" "bitmap s' = bitmap s" "map_ok (bitmap s)"
  shows "free_page_count s \<le> free_page_count s' + n"
proof -
  obtain F where F: "finite F" "card F \<le> n" "\<forall>q. is_page q \<and> used s' q \<longrightarrow> used s q \<or> q \<in> F"
    using assms(1) by (auto simp: taken_def)
  let ?free = "\<lambda>s. {q. 0 \<le> q \<and> q < nbits (bitmap s) \<and> \<not> used s q}"
  have fin: "finite (?free s')" by (rule finite_subset [of _ "{0..<nbits (bitmap s')}"]) auto
  have "?free s \<subseteq> ?free s' \<union> F" using F(3) assms(2,3) by (auto simp: map_ok_def is_page_def)
  then have "card (?free s) \<le> card (?free s' \<union> F)" by (rule card_mono [rotated]) (use fin F(1) in simp)
  also have "\<dots> \<le> card (?free s') + card F" by (rule card_Un_le)
  finally show ?thesis using F(2) by (simp add: free_page_count_def)
qed

text \<open>The space of directory \<open>q\<close> does not contain the pages \<open>X\<close>.\<close>

definition space_apart :: "'a phys_scheme \<Rightarrow> int set \<Rightarrow> int \<Rightarrow> bool" where
  "space_apart s X q \<longleftrightarrow> X \<noteq> {} \<and> (\<forall>x \<in> X. dir_ok s x q 256)"

lemma space_entries:
  assumes "space_apart s X q" "grows X s t"
  shows "256 \<le> k \<Longrightarrow> k < 1024 \<Longrightarrow> tab_entry (pmem t) q k = tab_entry (pmem s) q k"
    and "256 \<le> k \<Longrightarrow> k < 1024 \<Longrightarrow> present (tab_entry (pmem s) q k) \<Longrightarrow> 0 \<le> j \<Longrightarrow> j < 1024 \<Longrightarrow>
      tab_entry (pmem t) (page_no (tab_entry (pmem s) q k)) j = tab_entry (pmem s) (page_no (tab_entry (pmem s) q k)) j"
  using assms by (auto simp: space_apart_def dir_ok_def table_ok_def intro!: entry_kept)

lemma space_dir:
  assumes a: "space_apart s X q" "grows X s t" and d: "d \<in> X \<or> \<not> used s d"
  shows "dir_ok t d q 256"
proof -
  obtain x where x: "x \<in> X" "dir_ok s x q 256" "d \<in> X \<longrightarrow> x = d" using a(1) by (auto simp: space_apart_def)
  have up: "used t p" if "table_page p" "used s p" for p using growsD(2) [OF a(2) table_is_page] that by blast
  have ne: "d = x \<or> \<not> used s d" using d x(3) by auto
  have "table_ok t d (page_no (tab_entry (pmem s) q k))" if k: "256 \<le> k" "k < 1024" "present (tab_entry (pmem s) q k)" for k
  proof -
    have "table_ok s x (page_no (tab_entry (pmem s) q k))" using x(2) k by (simp add: dir_ok_def)
    then show ?thesis using up ne space_entries(2) [OF a k] by (auto simp: table_ok_def)
  qed
  then show ?thesis using x(2) up ne space_entries(1) [OF a] by (auto simp: dir_ok_def)
qed

lemma space_kept: "space_apart s X q \<Longrightarrow> grows X s t \<Longrightarrow> space_apart t X q"
  using space_dir [of s X q t] by (auto simp: space_apart_def)

lemma space_view:
  assumes a: "space_apart s X q" "grows X s t" and v: "user_mapped (pmem s) q v"
  shows "user_mapped (pmem t) q v" "trans_vtop (pmem t) (frame q) v = trans_vtop (pmem s) (frame q) v"
    "same_view t s' q d v \<Longrightarrow> same_view s s' q d v"
proof -
  let ?k = "uint (pde_index v)" and ?j = "uint (pte_index v)"
  let ?e = "tab_entry (pmem s) q ?k"
  let ?f = "page_no (tab_entry (pmem s) (page_no ?e) ?j)"
  have ix: "256 \<le> ?k" "?k < 1024" "0 \<le> ?j" "?j < 1024" "present ?e" "present (tab_entry (pmem s) (page_no ?e) ?j)"
    using v index_bounds [of v] by (simp_all add: user_mapped_def user_index)
  note same = space_entries(1) [OF a ix(1,2)] space_entries(2) [OF a ix(1,2,5,3,4)]
  show "user_mapped (pmem t) q v" using v same by (simp add: user_mapped_def)
  have s: "trans_vtop (pmem s) (frame q) v = word_of_int (?f * 4096 + uint v mod 4096)" using ix by (intro trans_entries) simp_all
  have t: "trans_vtop (pmem t) (frame q) v = word_of_int (?f * 4096 + uint v mod 4096)" using ix same by (intro trans_entries) simp_all
  then show "trans_vtop (pmem t) (frame q) v = trans_vtop (pmem s) (frame q) v" using s by simp
  have f: "table_page ?f" "used s ?f" "?f \<notin> X" using a(1) ix by (auto simp: space_apart_def dir_ok_def table_ok_def)
  have "pmem t (trans_vtop (pmem s) (frame q) v) = pmem s (trans_vtop (pmem s) (frame q) v)"
    using f page_address(2) [of ?f "uint v mod 4096"] unfolding s by (intro grows_byte [OF a(2)]) (simp_all add: table_page_def)
  moreover have "\<not> used s (page_no b)" if "\<not> used t (page_no b)" for b using growsD(2) [OF a(2) page_no_page] that by blast
  ultimately show "same_view s s' q d v" if "same_view t s' q d v" using that s t by (simp add: same_view_def Let_def)
qed

lemma fork_memory:
  assumes before: "phys_ok s" "space_apart s X q" "787201 < free_page_count s"
    and init: "phys_ok s2" "grows X s (s\<lparr>pmem := pmem s2\<rparr>)" "taken 1 s s2" "table_page d" "\<not> used s d" "used s2 d" "bitmap s2 = bitmap s"
    and same: "pmem s5 = pmem s2" "bitmap s5 = bitmap s" "mutexes s5 = mutexes s2" "links s5 = links s2"
    and parent: "current s5 = Some p" "t_cr3 (tasks s5 p) = frame q"
  obtains s6 where "copy_memory (frame d) s5 = Some (s6, 0)" "grows {d} s5 s6"
    "\<And>v. user_mapped (pmem s) q v \<Longrightarrow> same_view s s6 q d v"
proof -
  let ?sm = "s\<lparr>pmem := pmem s2\<rparr>"
  have u5: "used s5 x = used ?sm x" "used s5 x = used s2 x" for x using same init(7) by (simp_all add: used_def)
  have ok5: "phys_ok s5" using init(1,7) same u5(2) by (simp add: phys_ok_def page_idle_def)
  have dir5: "dir_ok s5 d q 256"
    using space_dir [OF before(2) init(2) disjI2 [OF init(5)]] same u5(1) by (simp add: dir_ok_def table_ok_def)
  have "taken 1 s s5" using init(3) u5(2) by (simp add: taken_def)
  then have free5: "787200 < free_page_count s5" using taken_count [of 1 s s5] before same(2) by (simp add: phys_ok_def)
  obtain s6 where s6: "copy_memory (frame d) s5 = Some (s6, 0)" "grows {d} s5 s6"
    "\<forall>v. user_mapped (pmem s5) q v \<longrightarrow> same_view s5 s6 q d v"
    using copy_memory_spec [OF ok5 parent dir5 init(4)] init(6) u5(2) free5 by auto
  have "same_view s s6 q d v" if v: "user_mapped (pmem s) q v" for v
  proof (rule space_view(3) [OF before(2) init(2) v])
    have "user_mapped (pmem s5) q v" using space_view(1) [OF before(2) init(2) v] same(1) by simp
    then have "same_view s5 s6 q d v" using s6(3) by blast
    then show "same_view ?sm s6 q d v" using u5(1) same(1) by (simp add: same_view_def Let_def used_def)
  qed
  then show thesis using that s6(1,2) by blast
qed

text \<open>The child's open files, in a state \<open>s\<close> in which the rest of its \<open>task_t\<close> is set up.\<close>

lemma fork_files:
  assumes "idle_mutex FILE_MUTEX s" "current s = Some p" "p \<noteq> c"
    and "files_valid (open_file_table (tasks s p)) s" "length (open_file_table (tasks s p)) = TASK_OPEN_MAX_FILES"
      "length (open_file_table (tasks s c)) = TASK_OPEN_MAX_FILES"
  obtains s' where "copy_open_files c s = Some s'" "tasks s' p = tasks s p" "tasks s' c = (tasks s c)\<lparr>open_file_table :=
      inherited (open_file_table (tasks s p)) (open_file_table (tasks s c))\<rparr>"
    "pmem s' = pmem s" "bitmap s' = bitmap s" "mutexes s' = mutexes s" "links s' = links s" "current s' = current s"
proof -
  let ?fs = "open_file_table (tasks s p)"
  obtain s' where s': "inherit_files 0 ?fs c s = Some s'" "inherits 0 ?fs c s s'"
    using inherit_files_inherits [OF assms(1,4)] by blast
  have oft: "open_file_table (tasks s' c) = inherited ?fs (open_file_table (tasks s c))"
    using s'(2) assms(5,6) by (intro nth_equalityI) (simp_all add: inherits_def inherited_def)
  have same: "s' = s\<lparr>tasks := tasks s', file_table := file_table s'\<rparr>" using s'(2) by (simp add: inherits_def)
  have "pmem s' = pmem s" "bitmap s' = bitmap s" "mutexes s' = mutexes s" "links s' = links s" "current s' = current s"
    by (subst same, simp)+
  moreover have "copy_open_files c s = Some s'" using assms(2,5) s'(1) by (simp add: copy_open_files_def)
  moreover have "tasks s' p = tasks s p" "tasks s' c = (tasks s c)\<lparr>open_file_table := open_file_table (tasks s' c)\<rparr>"
    using s'(2) assms(3) by (simp_all add: inherits_def)
  ultimately show thesis using that oft by metis
qed

section \<open>The child\<close>

text \<open>A state in which the parent \<open>p\<close> can fork into the process at \<open>child\<close>: page and file mutex are
  free, the parent's open files exist, its space is apart from the new stack.\<close>

definition can_fork :: "nat \<Rightarrow> uint \<Rightarrow> int \<Rightarrow> ('d, 'a) system_scheme \<Rightarrow> bool" where
  "can_fork p child q s \<longleftrightarrow> phys_ok s \<and> current s = Some p \<and> p \<noteq> unat child \<and> kernel_stack s child
     \<and> t_cr3 (tasks s p) = frame q \<and> space_apart s (stack_pages child) q \<and> idle_mutex FILE_MUTEX s
     \<and> length (open_file_table (tasks s p)) = TASK_OPEN_MAX_FILES \<and> files_valid (open_file_table (tasks s p)) s
     \<and> length (open_file_table (tasks s (unat child))) = TASK_OPEN_MAX_FILES"

text \<open>The child after the fork, \<open>s\<close> being the state after the allocation of its \<open>task_t\<close>.\<close>

definition forked :: "nat \<Rightarrow> uint \<Rightarrow> int \<Rightarrow> uint \<Rightarrow> uint \<Rightarrow> uint \<Rightarrow> ('d, 'a) system_scheme \<Rightarrow> ('d, 'a) system_scheme \<Rightarrow> bool" where
  "forked p child q eip entry esp s s' \<longleftrightarrow>
     (let c = tasks s' (unat child) in
      t_pid c = next_pid s \<and> t_state c = TASK_RUNNING \<and> t_parent c = Some p
      \<and> tss_eip (t_tss c) = entry \<and> tss_esp (t_tss c) = esp
      \<and> saved s' (unat child) (entry_regs child eip)
      \<and> open_file_table c = inherited (open_file_table (tasks s p)) (open_file_table (tasks s (unat child)))
      \<and> (\<exists>d. t_cr3 c = frame d \<and> \<not> used s d \<and> (\<forall>v. user_mapped (pmem s) q v \<longrightarrow> same_view s s' q d v))
      \<and> tasks s' p = tasks s p)"


section \<open>A fork\<close>

text \<open>The parent of \<open>demo_parent\<close> with no open files, and a heap of one block in page \<open>0x500\<close>.\<close>

definition demo_block :: mem where
  "demo_block = set_used 0x500000 FREE (set_size 0x500000 8209 (set_prev 0x500000 0 (set_next 0x500000 0 (pmem demo_parent))))"

definition demo_shell :: "mem \<Rightarrow> ide system" where
  "demo_shell m = demo_system\<lparr>current := Some 1,
     tasks := (\<lambda>_. boot_task\<lparr>t_cr3 := frame 0x200, open_file_table := replicate 128 None\<rparr>),
     bitmap := demo_pages\<lparr>nbits := 2 ^ 20\<rparr>, pmem := m, free_list := 0x500000\<rparr>"

lemma demo_shell_alloc:
  obtains m fl where "alloc_task (demo_shell demo_block) = Some (demo_shell m\<lparr>free_list := fl\<rparr>, 0x500011)"
    "\<And>x. page_no x \<noteq> 0x500 \<Longrightarrow> m x = pmem demo_parent x"
proof -
  have hdr: "\<not> in_hdr 0x500000 x" if "page_no x \<noteq> 0x500" for x
  proof
    assume "in_hdr 0x500000 x"
    then obtain i where "i < 17" "x = word_of_int (0x500 * 4096 + int i)" by (auto simp: in_hdr_def)
    then show False using that page_no_address [of "0x500" "int i"] by simp
  qed
  have out: "demo_block x = pmem demo_parent x" if "page_no x \<noteq> 0x500" for x
    using hdr [OF that] by (simp add: demo_block_def frame_simps)
  have block: "b_size demo_block 0x500000 = 8209" "flseg demo_block 0 0x500000 [0x500000] 0"
    by code_simp+
  then have "free_blocks (pmem (demo_shell demo_block)) (free_list (demo_shell demo_block)) ([] @ 0x500000 # [])"
    by (simp add: free_blocks_def demo_shell_def)
  from kmalloc_takes_first [OF this, of 8192] block(1)
  obtain s where s: "alloc_task (demo_shell demo_block) = Some (s, 0x500011)"
    "s = demo_shell demo_block\<lparr>pmem := pmem s, free_list := free_list s\<rparr>"
    "\<And>x. \<not> in_hdr 0x500000 x \<Longrightarrow> pmem s x = demo_block x"
    by (auto simp: alloc_task_def PAGE_SIZE_def demo_shell_def)
  have "s = demo_shell (pmem s)\<lparr>free_list := free_list s\<rparr>" by (subst s(2)) (simp add: demo_shell_def)
  then show thesis using that s(1,3) hdr out by metis
qed


end
