(* ===== verification/Syscall.thy ===== *)
theory Syscall
  imports Exec LibC
begin

text \<open>
  The system call gate: the user side of \<open>source/libc/syscall.c\<close>, the dispatcher of
  \<open>source/kernel/syscall.c\<close>, and the start of the kernel in \<open>source/kernel/init.c\<close>.
\<close>

section \<open>The user side\<close>

record exception_frame_t =
  r_eax :: uint
  r_ecx :: uint
  r_edx :: uint
  r_ebp :: uint
  r_edi :: uint

record syscall_args_t =
  sc_id :: int
  arg0 :: int
  arg1 :: int
  arg2 :: int
  arg3 :: int

definition SYS_SLEEP :: int where "SYS_SLEEP = 0"
definition SYS_FORK :: int where "SYS_FORK = 1"
definition SYS_EXECVE :: int where "SYS_EXECVE = 2"
definition SYS_PRINT :: int where "SYS_PRINT = 100"

text \<open>The registers at the \<open>int 0x80\<close>.\<close>

definition sys_call :: "syscall_args_t \<Rightarrow> exception_frame_t" where
  "sys_call a = \<lparr>r_eax = word_of_int (sc_id a), r_ecx = word_of_int (arg0 a), r_edx = word_of_int (arg1 a),
     r_ebp = word_of_int (arg2 a), r_edi = word_of_int (arg3 a)\<rparr>"

text \<open>Memory as the process sees it; fields of the arguments that a wrapper does not set keep what the
  stack holds: the parameter \<open>a\<close>.\<close>

definition user_mem :: "'a phys_scheme \<Rightarrow> mem" where
  "user_mem s a = pmem s (trans_vtop (pmem s) (cpu_cr3 s) a)"

definition print_msg :: "syscall_args_t \<Rightarrow> addr \<Rightarrow> int \<Rightarrow> 'a phys_scheme \<Rightarrow> exception_frame_t option" where
  "print_msg a fmt arg s = do {
     len \<leftarrow> strlen fmt (user_mem s);
     Some (sys_call (a\<lparr>sc_id := SYS_PRINT, arg0 := sint fmt, arg1 := arg, arg2 := len\<rparr>)) }"

definition sleep :: "syscall_args_t \<Rightarrow> int \<Rightarrow> exception_frame_t" where
  "sleep a ms = sys_call (a\<lparr>sc_id := SYS_SLEEP, arg0 := ms\<rparr>)"

definition fork :: "syscall_args_t \<Rightarrow> exception_frame_t" where
  "fork a = sys_call (a\<lparr>sc_id := SYS_FORK\<rparr>)"

definition execve :: "syscall_args_t \<Rightarrow> addr \<Rightarrow> addr \<Rightarrow> addr \<Rightarrow> exception_frame_t" where
  "execve a name argv env =
     sys_call (a\<lparr>sc_id := SYS_EXECVE, arg0 := sint name, arg1 := sint argv, arg2 := sint env\<rparr>)"

section \<open>The dispatcher\<close>

text \<open>What the kernel's stack and image contribute: where \<open>sys_printf\<close> puts its message and
  \<open>copy_args_envs\<close> its counter, the frame \<open>do_fork\<close> reads, what the result register holds after
  a function without a result, and the addresses of the message for an unknown call.\<close>

record kstack =
  k_msg :: addr
  k_argc :: addr
  k_eip :: uint
  k_entry :: uint
  k_esp :: uint
  k_eax :: uint
  k_unknown :: addr
  k_name :: addr

definition sys_printf :: "kstack \<Rightarrow> addr \<Rightarrow> uint \<Rightarrow> uint \<Rightarrow> 'a console_scheme \<Rightarrow> ('a console_scheme \<times> int) option" where
  "sys_printf k fmt arg len s = do {
     (s, _) \<leftarrow> copy_from_user (k_msg k) fmt len s;
     let s = upd_mem (\<lambda>m. m(k_msg k + len := 0)) s;
     s \<leftarrow> kprintf (k_msg k) [arg] s;
     Some (s, 0) }"

datatype call = CallSleep | CallFork | CallExecve | CallPrint

definition call_table :: "call option list" where
  "call_table = [Some CallSleep, Some CallFork, Some CallExecve] @ replicate 97 None @ [Some CallPrint]"

text \<open>A string argument of a call, read through the caller's page tables.\<close>

partial_function (option) read_string :: "addr \<Rightarrow> mem \<Rightarrow> uchar list option" where
  "read_string p m = (if m p = 0 then Some [] else do { cs \<leftarrow> read_string (p + 1) m; Some (m p # cs) })"

declare read_string.simps [code]

definition do_call :: "kstack \<Rightarrow> call \<Rightarrow> exception_frame_t \<Rightarrow> ('d, 'a) system_scheme \<Rightarrow> (('d, 'a) system_scheme \<times> uint) option" where
  "do_call k c fr s = (case c of
      CallSleep \<Rightarrow> map_option (\<lambda>s. (s, k_eax k)) (sys_sleep (r_ecx fr) s)
    | CallFork \<Rightarrow> map_option (\<lambda>(s, r). (s, word_of_int r)) (sys_fork (k_eip k) (k_entry k) (k_esp k) s)
    | CallExecve \<Rightarrow> do {
        name \<leftarrow> read_string (r_ecx fr) (user_mem s);
        (s, r) \<leftarrow> sys_execve (k_argc k) name (r_edx fr) (r_ebp fr) s;
        Some (s, word_of_int r) }
    | CallPrint \<Rightarrow> map_option (\<lambda>(s, r). (s, word_of_int r)) (sys_printf k (r_ecx fr) (r_edx fr) (r_ebp fr) s))"

definition do_handler_syscall ::
    "kstack \<Rightarrow> exception_frame_t \<Rightarrow> ('d, 'a) system_scheme \<Rightarrow> (('d, 'a) system_scheme \<times> exception_frame_t) option" where
  "do_handler_syscall k fr s = do {
     let unknown = map_option (\<lambda>s. (s, fr)) (kprintf (k_unknown k) [k_name k, r_eax fr] s);
     if unat (r_eax fr) < length call_table
     then case call_table ! unat (r_eax fr) of
         Some c \<Rightarrow> do { (s, ret) \<leftarrow> do_call k c fr s; Some (s, fr\<lparr>r_eax := ret\<rparr>) }
       | None \<Rightarrow> unknown
     else unknown }"

section \<open>The start of the kernel\<close>

text \<open>Addresses of the image and the clock's device.\<close>

record boot =
  b_gdt :: uint
  b_tss :: uint
  b_idt :: uint
  b_entry :: "handler \<Rightarrow> uint"
  b_time :: uint
  b_syscall :: uint
  b_init :: uint
  b_data :: addr
  b_clock :: device

definition syscall_init :: "uint \<Rightarrow> ('d, 'a) system_scheme \<Rightarrow> ('d, 'a) system_scheme option" where
  "syscall_init entry s = do {
     (c, _) \<leftarrow> irq_install 0x80 entry (dcpu s);
     Some (s\<lparr>dcpu := c\<rparr>) }"

text \<open>\<open>mem_init\<close> and the other parts in order; then the idle process and the first process.\<close>

definition kernel_init :: "boot \<Rightarrow> ('d, 'a) system_scheme \<Rightarrow> ('d, 'a) system_scheme option" where
  "kernel_init b s = do {
     c \<leftarrow> arch_init (b_gdt b) (b_tss b) (b_entry b) (b_idt b) (dcpu s);
     (c, s) \<leftarrow> time_init (b_clock b) (b_time b) (c, s);
     let s = log_init (s\<lparr>dcpu := c\<rparr>);
     s \<leftarrow> mem_init s;
     s \<leftarrow> fs_init (b_data b) s;
     s \<leftarrow> syscall_init (b_syscall b) s;
     let s = upd_links (queue_init TaskHead) s;
     let s = upd_links (queue_init ReadyHead) s;
     let s = upd_links (queue_init SleepHead) s;
     (s, idle) \<leftarrow> alloc_task s;
     (s, _) \<leftarrow> task_init idle ''idle task'' 0 s;
     let s = upd_task (unat idle) (\<lambda>k. k\<lparr>t_state := TASK_RUNNING\<rparr>) s;
     (s, task) \<leftarrow> alloc_task s;
     (s, _) \<leftarrow> task_init task ''init task'' (b_init b) s;
     let s = upd_task (unat task) (\<lambda>k. k\<lparr>t_state := TASK_RUNNING\<rparr>) s;
     cur \<leftarrow> rq_task (queue_first (links s) ReadyHead);
     let s = s\<lparr>current := Some cur\<rparr>;
     Some (s\<lparr>dcpu := sti (dcpu s)\<rparr>) }"

text \<open>The first process: \<open>/boot/init\<close> without arguments, then user mode at what the call left.\<close>

definition init_task_entry :: "kstack \<Rightarrow> ('d, 'a) system_scheme \<Rightarrow> (('d, 'a) system_scheme \<times> user_context) option" where
  "init_task_entry k s = do {
     (s, _) \<leftarrow> sys_execve (k_argc k) [0x2f, 0x62, 0x6f, 0x6f, 0x74, 0x2f, 0x69, 0x6e, 0x69, 0x74] 0 0 s;
     cur \<leftarrow> current s;
     Some (s, switch_to_user_mode (tss_eip (t_tss (tasks s cur))) (tss_esp (t_tss (tasks s cur)))) }"

end
