(* ===== verification/Syscall_Facts.thy ===== *)
theory Syscall_Facts
  imports Syscall Exec_Facts
begin

text \<open>
  Facts on system calls and programs, from the user's side of the gate to the effect in the kernel.
\<close>

section \<open>Printing from a program\<close>

text \<open>A format whose conversions are numbers denotes the same text over every memory.\<close>

lemma rendered_any:
  "rendered m (\<lambda>_. False) cs args t \<Longrightarrow> rendered m' safe cs args t"
  by (induction rule: rendered.induct) (auto intro: rendered.intros)

lemma cstr_from_bytes:
  "0 \<notin> set bs \<Longrightarrow> (\<And>i. i < length bs \<Longrightarrow> m (p + of_nat i) = bs ! i) \<Longrightarrow> m (p + of_nat (length bs)) = 0 \<Longrightarrow> cstr m p bs"
proof (induction bs arbitrary: p)
  case (Cons b bs)
  have "m (p + 1 + of_nat i) = bs ! i" if "i < length bs" for i
    using Cons.prems(2) [of "Suc i"] that by (simp add: add.assoc)
  then show ?case using Cons Cons.prems(2) [of 0] by (simp add: add.assoc)
qed simp

lemma cstr_nth:
  "cstr m p bs \<Longrightarrow> i < length bs \<Longrightarrow> m (p + of_nat i) = bs ! i" "cstr m p bs \<Longrightarrow> 0 \<notin> set bs"
proof -
  show "cstr m p bs \<Longrightarrow> i < length bs \<Longrightarrow> m (p + of_nat i) = bs ! i"
  proof (induction bs arbitrary: p i)
    case (Cons b bs)
    then show ?case using Cons.IH [of "p + 1"] by (cases i) (simp_all add: add.assoc)
  qed simp
  show "cstr m p bs \<Longrightarrow> 0 \<notin> set bs" by (induction bs arbitrary: p) auto
qed

text \<open>\<open>sys_printf\<close> on a message that is mapped in user space, through a kernel buffer outside the
  screen.\<close>

definition printable :: "kstack \<Rightarrow> nat \<Rightarrow> addr \<Rightarrow> uchar list \<Rightarrow> 'a console_scheme \<Rightarrow> bool" where
  "printable k t fmt cs s \<longleftrightarrow> current s = Some t \<and> cpu_cr3 s = t_cr3 (tasks s t)
     \<and> 0x40000000 \<le> uint fmt \<and> uint fmt < 2 ^ 31 \<and> cstr (user_mem s) fmt cs \<and> length cs < 2 ^ 31
     \<and> readable (pmem s) (t_cr3 (tasks s t)) (k_msg k) fmt (of_nat (length cs))
     \<and> (\<forall>i \<le> length cs. off_screen (k_msg k + of_nat i))
     \<and> mutexes s LOG_MUTEX = \<lparr>lock_times = 0, owner = None\<rparr> \<and> queue_empty (links s) (MutexHead LOG_MUTEX)"

lemma sys_printf_shows:
  assumes p: "printable k t fmt cs s" and ren: "rendered (\<lambda>_. 0) (\<lambda>_. False) cs [arg] txt"
    and room: "0xB8000 \<le> uint (vga s)" "uint (vga s) + 2 * int (length txt) < 0xB8000 + 4000"
  shows "\<exists>s'. sys_printf k fmt arg (of_nat (length cs)) s = Some (s', 0)
    \<and> (\<forall>i < length txt. load16 (pmem s') (vga s + 2 * of_nat i) = 0x0700 OR scast (txt ! i))
    \<and> s' = s\<lparr>pmem := pmem s', vga := vga s + 2 * of_nat (length txt)\<rparr>"
proof -
  note a = p [unfolded printable_def]
  let ?n = "of_nat (length cs) :: uint" and ?b = "k_msg k"
  have n: "unat ?n = length cs" using a by (simp add: unat_of_nat)
  obtain s1 where s1: "copy_from_user ?b fmt ?n s = Some (s1, 0)"
    "\<And>i. i < length cs \<Longrightarrow> pmem s1 (?b + of_nat i) = user_mem s (fmt + of_nat i)" "s1 = s\<lparr>pmem := pmem s1\<rparr>"
    using copy_from_user_bytes [of s t _ fmt ?b ?n] a n by (auto simp: user_mem_def)
  let ?s = "upd_mem (\<lambda>m. m(?b + ?n := 0)) s1"
  have "pmem ?s (?b + of_nat i) = cs ! i" if "i < length cs" for i
  proof -
    have "unat (of_nat i :: uint) = i" using that a by (simp add: unat_of_nat)
    then have "of_nat i \<noteq> ?n" using that n by (metis less_irrefl)
    then show ?thesis using s1(2) that a cstr_nth(1) by (simp add: upd_mem_def)
  qed
  then have c: "cstr (pmem ?s) ?b cs"
    using a cstr_nth(2) by (intro cstr_from_bytes) (auto simp: upd_mem_def)
  have f: "vga ?s = vga s" "mutexes ?s = mutexes s" "links ?s = links s" "?s = s\<lparr>pmem := pmem ?s\<rparr>"
    by (subst s1(3), simp add: upd_mem_def)+
  obtain s' where s': "kprintf ?b [arg] ?s = Some s'"
    "\<forall>i < length txt. load16 (pmem s') (vga s + 2 * of_nat i) = 0x0700 OR scast (txt ! i)"
    "s' = ?s\<lparr>pmem := pmem s', vga := vga s + 2 * of_nat (length txt)\<rparr>"
    using kprintf_text [OF rendered_any [OF ren] c] a room f(1-3) by auto
  have "?s\<lparr>pmem := x, vga := v\<rparr> = s\<lparr>pmem := x, vga := v\<rparr>" for x v by (subst f(4)) simp
  then show ?thesis using s' s1(1) by (auto simp: sys_printf_def)
qed


text \<open>The message \<open>%d\<close> lies across the page boundary of the mapped pages of \<open>demo_user\<close>.\<close>

definition demo_printer :: "ide system" where
  "demo_printer = demo_system\<lparr>tasks := (\<lambda>_. boot_task\<lparr>t_cr3 := frame 0x200\<rparr>), cpu_cr3 := frame 0x200,
     pmem := demo_user(0x700fff := 0x25, 0x702000 := 0x64), vga := 0xB8500\<rparr>"

definition demo_stack :: kstack where
  "demo_stack = \<lparr>k_msg = 0x500000, k_argc = 0x600000, k_eip = 0, k_entry = 0, k_esp = 0, k_eax = 0, k_unknown = 0x1000, k_name = 0x1100\<rparr>"

definition demo_args :: syscall_args_t where
  "demo_args = \<lparr>sc_id = 0, arg0 = 0, arg1 = 0, arg2 = 0, arg3 = 0\<rparr>"

lemma demo_printer_fields:
  "current demo_printer = Some 0" "cpu_cr3 demo_printer = frame 0x200" "t_cr3 (tasks demo_printer t) = frame 0x200"
  "pmem demo_printer = demo_user(0x700fff := 0x25, 0x702000 := 0x64)" "vga demo_printer = 0xB8500"
  "idle_mutex m demo_printer"
  using demo_system_fields(4) by (simp_all add: demo_printer_def demo_system_fields idle_mutex_def)

lemma demo_printable: "printable demo_stack 0 0x40001fff [0x25, 0x64] demo_printer"
proof -
  let ?m = "demo_user(0x700fff := 0x25, 0x702000 := 0x64)"
  have "readable ?m (frame 0x200) 0x500000 0x40001fff 2"
  proof -
    have "\<forall>i \<in> set [0 :: nat, 1]. 0x500000 + of_nat i \<noteq> (0 :: addr) \<and>
       trans_vtop ?m (frame 0x200) (0x40001fff + of_nat i) \<noteq> 0 \<and>
       \<not> in_buf 0x500000 2 (trans_vtop ?m (frame 0x200) (0x40001fff + of_nat i)) \<and>
       (\<forall>x \<in> walk ?m (frame 0x200) (0x40001fff + of_nat i). \<not> in_buf 0x500000 2 x)"
      by code_simp
    moreover have "i < 2 \<Longrightarrow> i \<in> set [0 :: nat, 1]" for i by auto
    moreover have "unat (2 :: uint) = 2" by simp
    ultimately show ?thesis unfolding readable_def by (metis (no_types, lifting))
  qed
  moreover have "?m (trans_vtop ?m (frame 0x200) 0x40001fff) = 0x25" "?m (trans_vtop ?m (frame 0x200) 0x40002000) = 0x64"
    "?m (trans_vtop ?m (frame 0x200) 0x40002001) = 0" by code_simp+
  moreover have "\<forall>i \<le> length [0x25 :: uchar, 0x64]. off_screen (0x500000 + of_nat i)"
    unfolding all_upto by (simp add: off_screen_def)
  ultimately show ?thesis
    using demo_printer_fields(6) [of LOG_MUTEX]
    by (simp add: printable_def demo_printer_fields user_mem_def idle_mutex_def demo_stack_def)
qed


end
