(* ===== verification/User.thy ===== *)
theory User
  imports Syscall_Facts
begin

text \<open>
  The program of \<open>source/init/init.c\<close>: it forks, and then parent and child print a line and
  sleep, for ever.  A state is the call the program makes next; the steps are the results.
\<close>

section \<open>The code\<close>

text \<open>\<open>True\<close> marks the child; the number is \<open>count\<close>.\<close>

datatype user_state = AtFork | AtPrint bool int | AtSleep bool int

text \<open>The addresses of the two messages in the image.\<close>

record user_image =
  child_msg :: addr
  father_msg :: addr

definition user_init :: "user_state" where
  "user_init = AtFork"

text \<open>The registers of the next call; \<open>a\<close> is what the stack holds in the argument structure.\<close>

fun user_call :: "user_image \<Rightarrow> syscall_args_t \<Rightarrow> user_state \<Rightarrow> 'a phys_scheme \<Rightarrow> exception_frame_t option" where
  "user_call u a AtFork s = Some (fork a)"
| "user_call u a (AtPrint child n) s = print_msg a (if child then child_msg u else father_msg u) n s"
| "user_call u a (AtSleep child n) s = Some (sleep a 1000)"

text \<open>The result of \<open>fork\<close> decides which loop is entered; \<open>count++\<close> takes effect with the call.\<close>

fun user_next :: "int \<Rightarrow> user_state \<Rightarrow> user_state" where
  "user_next ret AtFork = AtPrint (ret = 0) 0"
| "user_next ret (AtPrint child n) = AtSleep child (n + 1)"
| "user_next ret (AtSleep child n) = AtPrint child n"

section \<open>Facts\<close>

text \<open>After the fork the program never stops and never changes sides: with whatever results, the calls
  are print and sleep in turn, and the printed number counts the rounds.\<close>

lemma user_rounds:
  "fold user_next rets (user_next r AtFork) =
     (let n = int (length rets div 2) in if even (length rets) then AtPrint (r = 0) n else AtSleep (r = 0) (n + 1))"
  by (induction rets rule: rev_induct) (auto simp: Let_def elim!: oddE evenE)

end
