(* ===== verification/Spec2Isabelle.thy ===== *)
theory Spec2Isabelle
  imports Prelude Queue Task Ipc KString Bitmap Page Frames Fork Release Arch Time Kmalloc Log Bytes Disk Fs_State
    Fs_Demo Dev File Buffer Ext2_Core Ext2 Fs Ext2_IO Ext2_Facts Fs_Facts Fs_Types LibC Entry Exec Exec_Facts Switch Child Syscall Syscall_Facts User
begin

text \<open>
  MangoOS: a verification library for a small 32-bit x86 kernel with its file system, its system
  calls and its user program (\<open>src/source\<close>).

  \<^bold>\<open>The program.\<close>  The kernel boots (\<open>kernel/init.c\<close>), builds the map of physical pages from the
  loader's table (\<open>mm/bitmap.c\<close>), page tables (\<open>mm/page.c\<close>), a heap (\<open>mm/memory.c\<close>), descriptor
  tables and the interrupt controller (\<open>kernel/arch.c\<close>, \<open>kernel/irq.c\<close>), the clock
  (\<open>kernel/time.c\<close>), the disk (\<open>device\<close>) and an ext2 file system (\<open>fs\<close>), and starts one
  user program.  Processes (\<open>kernel/task.c\<close>) share the processor round robin (\<open>kernel/sched.c\<close>), block
  on semaphores and mutexes (\<open>kernel/ipc.c\<close>), and enter the kernel through interrupt \<open>0x80\<close>
  (\<open>kernel/syscall.c\<close>, \<open>libc/syscall.c\<close>).

  \<^bold>\<open>State.\<close>  One record grows along the layers, each adding the fields of its part: \<open>kernel\<close> (queue
  links, \<open>task_t\<close>s, the running process, semaphores and mutexes, \<open>cr3\<close>, TSS; theory \<open>Task\<close>),
  \<open>clock\<close> (\<open>Time\<close>), \<open>phys\<close> (memory and page map; \<open>Page\<close>), \<open>heap\<close> (\<open>Kmalloc\<close>), \<open>console\<close> (\<open>Log\<close>),
  \<open>disk\<close> (\<open>Disk\<close>), \<open>fsys\<close> (devices, files, buffers, mounts, super blocks; \<open>Fs_State\<close>) and \<open>system\<close>
  (\<open>Exec\<close>).  An operation of one layer is polymorphic in what the layers above add, so callers use
  it as it is.  Memory is byte-addressed with 32-bit addresses that wrap; page tables, the page
  map, heap headers, kernel stacks and the screen all lie in it.

  \<^bold>\<open>Theories and code.\<close>
  \<^item> \<open>Prelude\<close>: machine integers of \<open>include/type.h\<close>, memory, the contract \<open>cell_store\<close>; \<open>Bytes\<close>: byte
    arrays with bounds.
  \<^item> \<open>Queue\<close>: \<open>lib/queue.c\<close>, \<open>lib/list.c\<close> on a heap of two link fields; \<open>cdl\<close> relates it to
    sequences.
  \<^item> \<open>Task\<close>: \<open>kernel/sched.c\<close> and the queue part of \<open>kernel/task.c\<close>; \<open>Ipc\<close>: \<open>kernel/ipc.c\<close>, with
    interleavings as a step relation; \<open>Switch\<close>: the assembly of \<open>__switch_to\<close>.
  \<^item> \<open>KString\<close>: \<open>lib/string.c\<close>; \<open>LibC\<close>: \<open>libc/string.c\<close>.
  \<^item> \<open>Bitmap\<close>: \<open>mm/bitmap.c\<close>; \<open>Page\<close>: \<open>mm/page.c\<close> and the functions of \<open>kernel/task.c\<close> that walk page
    tables; \<open>Frames\<close>: which pages a step takes and
    writes; \<open>Fork\<close>: facts on the copy of an address space; \<open>Release\<close>: what
    the end of one and of a mapped range gives back; \<open>Entry\<close>: the entry formats of
    \<open>include/page.h\<close>; \<open>Kmalloc\<close>: \<open>mm/memory.c\<close>.
  \<^item> \<open>Arch\<close>: \<open>kernel/arch.c\<close>, \<open>kernel/irq.c\<close>, \<open>include/arch.h\<close>; \<open>Time\<close>: \<open>kernel/time.c\<close>; \<open>Log\<close>:
    \<open>lib/log.c\<close>.
  \<^item> \<open>Disk\<close>: \<open>device/disk.c\<close>; \<open>Dev\<close>: \<open>device/dev.c\<close>; \<open>File\<close>: \<open>fs/file.c\<close>; \<open>Buffer\<close>: \<open>fs/buffer.c\<close>;
    \<open>Ext2_Core\<close> and \<open>Ext2\<close>: \<open>fs/ext2.c\<close>; \<open>Fs\<close>: \<open>fs/fs.c\<close>.
  \<^item> \<open>Exec\<close>: process creation, fork, exec and the ELF loader of \<open>kernel/task.c\<close>; \<open>Child\<close>: facts on a
    fork as a whole; \<open>Syscall\<close>: the call gate and \<open>kernel/init.c\<close>; \<open>User\<close>: \<open>init/init.c\<close>.
  \<^item> \<open>Fs_Demo\<close>: a small machine on which file properties are evaluated; \<open>Ext2_IO\<close>, \<open>Ext2_Facts\<close>,
    \<open>Fs_Facts\<close>, \<open>Fs_Types\<close>, \<open>Exec_Facts\<close>, \<open>Syscall_Facts\<close>: the facts on the theories they are
    named after.

  \<^bold>\<open>What is shown.\<close>
  \<^item> Processes: from boot every interleaving of ticks, yields, sleeps, semaphore and mutex calls keeps
    the queues well formed and never follows a wild pointer; mutual exclusion, hand-over in order,
    no lost wake-up, round robin, sleeping for the time asked.  The register switch on the
    kernel stacks refines the scheduler's abstract one, and a new process starts at its entry;
    a fork as a whole creates a runnable copy of its caller.
  \<^item> Memory: first fit, exclusive ownership of pages, translation of freshly mapped ranges, the kernel
    half of a new directory, the copy of an address space in a fork and its release, copies across page boundaries, the boot map, the heap's invariant.
  \<^item> Files: a read through a descriptor returns the bytes of the file on the medium; what was
    written is read back after write-back; the operations keep the types of all tables; inodes, paths,
    bitmaps, buffers, reference counts.
  \<^item> The machine: descriptors, vectors, clock, screen, disk, and a message from a user program to
    the screen.
  \<^item> Deviations: several theorems state what the code does where it does not do what it means to
    (write-back of every other block, a block read twice, lost file entries, unmounted entries
    followed, argument tables that never end, ranges of pages released with one page too many).

  \<^bold>\<open>Conventions.\<close>  A function that does not return, follows a null pointer or leaves an array has the
  result \<open>None\<close>; errors the code reports are its own numbers.  Loops that may not end are
  \<open>partial_function\<close>s, without fuel; the others are structural or have a measure.  Interrupts are
  off inside an operation of \<open>Task\<close> and \<open>Ipc\<close>, so it is one step; layers above take locks with
  \<open>at_once\<close>, the case in which the lock is free, since waiting is the subject of \<open>Ipc\<close>.  Objects
  the file system allocates are kept in typed tables under the address \<open>kmalloc\<close> returned.
  Contents the code reads before it writes them (stack buffers, fresh heap blocks, the caller's
  frame in \<open>do_fork\<close>) are fields or arguments.  The drive's and the clock's port behaviour are
  parameters; \<open>ata_drive\<close> states what the driver relies on, and \<open>Disk\<close> interprets it on a model of a
  drive.  An interrupt the driver waits for is taken to arrive before it waits.

  \<^bold>\<open>Not modelled.\<close>  The boot sector, loader and interrupt entry stubs (assembly under \<open>boot\<close> and
  \<open>kernel/start.S\<close>), the build files, and \<open>reload_segments\<close>, which has no effect on this state.
\<close>

end
